(* ===== verification/Rust_Std.thy ===== *)
theory Rust_Std
  imports Main "HOL-Library.Sublist" "HOL-Library.Char_ord" "HOL-Library.List_Lexorder" "HOL-Library.Code_Target_Nat"
begin

text \<open>
  Prelude of the development: the part of Rust's standard library that the modelled sources
  use on strings, numbers and options, and the lemmas the components share.

  A Rust \<open>&str\<close> is a \<open>string\<close> (a list of \<open>char\<close>, one per byte); the text the modelled
  code handles (host names, versions, package names, addresses) is ASCII, and on ASCII text the
  byte and the character view of \<open>str\<close> agree. \<open>str\<close> comparison is the lexicographic order on
  bytes, which is the library's order on \<open>char list\<close>. A Rust \<open>Result\<close> whose error is dropped
  (\<open>.ok()\<close>) is an \<open>option\<close>.
\<close>

named_theorems rust_str \<open>characterisations of the string operations\<close>
named_theorems rust_parse \<open>results of the numeric parsers\<close>
named_theorems str_eval \<open>definitions that evaluate string operations on literals\<close>

section \<open>Character classes\<close>

definition is_ws :: "char \<Rightarrow> bool" where
  "is_ws c \<longleftrightarrow> c = CHR '' '' \<or> (9 \<le> (of_char c :: nat) \<and> (of_char c :: nat) \<le> 13)"

definition is_digit :: "char \<Rightarrow> bool" where
  "is_digit c \<longleftrightarrow> 48 \<le> (of_char c :: nat) \<and> (of_char c :: nat) \<le> 57"

definition digit_val :: "char \<Rightarrow> nat" where
  "digit_val c = of_char c - 48"

definition digit_char :: "nat \<Rightarrow> char" where
  "digit_char d = char_of (48 + d)"

definition is_alpha :: "char \<Rightarrow> bool" where
  "is_alpha c \<longleftrightarrow> (65 \<le> (of_char c :: nat) \<and> (of_char c :: nat) \<le> 90) \<or>
                  (97 \<le> (of_char c :: nat) \<and> (of_char c :: nat) \<le> 122)"

definition to_lower :: "char \<Rightarrow> char" where
  "to_lower c =
     (if 65 \<le> (of_char c :: nat) \<and> (of_char c :: nat) \<le> 90 then char_of (of_char c + 32 :: nat) else c)"

lemma of_char_digit_char [simp]: "d < 10 \<Longrightarrow> of_char (digit_char d) = 48 + d"
  by (simp add: digit_char_def)

lemma is_digit_digit_char [simp]: "d < 10 \<Longrightarrow> is_digit (digit_char d)"
  by (simp add: is_digit_def)

lemma digit_val_digit_char [simp]: "d < 10 \<Longrightarrow> digit_val (digit_char d) = d"
  by (simp add: digit_val_def)

lemma is_digit_not_punct:
  "is_digit c \<Longrightarrow> c \<noteq> CHR '':'' \<and> c \<noteq> CHR ''.'' \<and> c \<noteq> CHR ''+'' \<and> c \<noteq> CHR ''-'' \<and>
     c \<noteq> CHR '']'' \<and> c \<noteq> CHR ''['' \<and> c \<noteq> CHR ''/'' \<and> c \<noteq> CHR '','' \<and> \<not> is_ws c"
  by (auto simp: is_digit_def is_ws_def)

section \<open>String operations of \<open>str\<close>\<close>

definition trim_start :: "string \<Rightarrow> string" where
  "trim_start s = dropWhile is_ws s"

definition trim_end :: "string \<Rightarrow> string" where
  "trim_end s = rev (dropWhile is_ws (rev s))"

definition trim :: "string \<Rightarrow> string" where
  "trim s = trim_end (trim_start s)"

text \<open>\<open>split(c)\<close>: always at least one piece.\<close>

fun split :: "char \<Rightarrow> string \<Rightarrow> string list" where
  "split c [] = [[]]"
| "split c (x # xs) =
     (if x = c then [] # split c xs
      else (case split c xs of [] \<Rightarrow> [[x]] | y # ys \<Rightarrow> (x # y) # ys))"

fun split_once :: "char \<Rightarrow> string \<Rightarrow> (string \<times> string) option" where
  "split_once c [] = None"
| "split_once c (x # xs) =
     (if x = c then Some ([], xs)
      else map_option (\<lambda>(a, b). (x # a, b)) (split_once c xs))"

definition rsplit_once :: "char \<Rightarrow> string \<Rightarrow> (string \<times> string) option" where
  "rsplit_once c s = map_option (\<lambda>(a, b). (rev b, rev a)) (split_once c (rev s))"

definition strip_prefix_str :: "string \<Rightarrow> string \<Rightarrow> string option" where
  "strip_prefix_str p s = (if prefix p s then Some (drop (length p) s) else None)"

definition strip_suffix_str :: "string \<Rightarrow> string \<Rightarrow> string option" where
  "strip_suffix_str p s = (if suffix p s then Some (take (length s - length p) s) else None)"

definition starts_with :: "string \<Rightarrow> string \<Rightarrow> bool" where
  "starts_with s p = prefix p s"

definition ends_with :: "string \<Rightarrow> string \<Rightarrow> bool" where
  "ends_with s p = suffix p s"

text \<open>\<open>trim_end_matches(p)\<close>: removes the suffix \<open>p\<close> as long as there is one; a pattern here
  is never empty.\<close>

function trim_end_matches :: "string \<Rightarrow> string \<Rightarrow> string" where
  "trim_end_matches p s =
     (if p \<noteq> [] \<and> suffix p s then trim_end_matches p (take (length s - length p) s) else s)"
  by pat_completeness auto
termination
  by (relation "measure (\<lambda>(p, s). length s)") (auto simp: suffix_def)

declare trim_end_matches.simps [simp del]

function trim_start_matches :: "string \<Rightarrow> string \<Rightarrow> string" where
  "trim_start_matches p s =
     (if p \<noteq> [] \<and> prefix p s then trim_start_matches p (drop (length p) s) else s)"
  by pat_completeness auto
termination
  by (relation "measure (\<lambda>(p, s). length s)") (auto simp: prefix_def)

declare trim_start_matches.simps [simp del]

text \<open>\<open>trim_matches(c)\<close> for a character, on both ends.\<close>

definition trim_matches :: "char \<Rightarrow> string \<Rightarrow> string" where
  "trim_matches c s = rev (dropWhile (\<lambda>x. x = c) (rev (dropWhile (\<lambda>x. x = c) s)))"

text \<open>\<open>lines\<close>: a line ends with a line feed, or with a carriage return and a line feed; there is
  no final empty line, and a last line without line feed keeps its carriage return.\<close>

definition strip_cr :: "string \<Rightarrow> string" where
  "strip_cr l = (if l \<noteq> [] \<and> last l = CHR 0x0D then butlast l else l)"

definition lines :: "string \<Rightarrow> string list" where
  "lines s =
     (let ls = split CHR 0x0A s
      in map strip_cr (butlast ls) @ (if last ls = [] then [] else [last ls]))"

fun contains :: "string \<Rightarrow> string \<Rightarrow> bool" where
  "contains [] p = (p = [])"
| "contains (x # xs) p = (prefix p (x # xs) \<or> contains xs p)"

text \<open>\<open>split_once(p)\<close> for a string pattern, the first occurrence from the left.\<close>

fun split_once_str :: "string \<Rightarrow> string \<Rightarrow> (string \<times> string) option" where
  "split_once_str p [] = (if p = [] then Some ([], []) else None)"
| "split_once_str p (x # xs) =
     (if prefix p (x # xs) then Some ([], drop (length p) (x # xs))
      else map_option (\<lambda>(a, b). (x # a, b)) (split_once_str p xs))"

text \<open>\<open>split(p)\<close> for a (non-empty) string pattern: the occurrences found from the left,
  not overlapping.\<close>

lemma split_once_str_length:
  "split_once_str p s = Some (a, b) \<Longrightarrow> length a + length p + length b = length s"
proof (induction s arbitrary: a)
  case Nil
  then show ?case by (simp split: if_splits)
next
  case (Cons x xs)
  show ?case
  proof (cases "prefix p (x # xs)")
    case True
    with Cons.prems have "a = []" "b = drop (length p) (x # xs)" by simp_all
    with True show ?thesis using prefix_length_le [OF True] by simp
  next
    case False
    with Cons.prems obtain a' where "a = x # a'" "split_once_str p xs = Some (a', b)" by auto
    with Cons.IH show ?thesis by fastforce
  qed
qed

function split_str :: "string \<Rightarrow> string \<Rightarrow> string list" where
  "split_str p s =
     (case (if p = [] then None else split_once_str p s) of
        None \<Rightarrow> [s]
      | Some (a, b) \<Rightarrow> a # split_str p b)"
  by pat_completeness auto
termination
  by (relation "measure (\<lambda>(p, s). length s)")
    (auto split: if_splits dest!: split_once_str_length simp flip: length_greater_0_conv)

declare split_str.simps [simp del]

text \<open>\<open>split_whitespace\<close>: the maximal runs of non-blank characters.\<close>

function split_whitespace :: "string \<Rightarrow> string list" where
  "split_whitespace s =
     (case dropWhile is_ws s of
        [] \<Rightarrow> []
      | x # xs \<Rightarrow> (x # takeWhile (Not \<circ> is_ws) xs) # split_whitespace (dropWhile (Not \<circ> is_ws) xs))"
  by pat_completeness auto
termination
proof (relation "measure length", goal_cases)
  case 1
  show ?case by simp
next
  case (2 s x xs)
  have "length (dropWhile (Not \<circ> is_ws) xs) \<le> length xs" by (rule length_dropWhile_le)
  also have "length xs < length (dropWhile is_ws s)" using 2 by simp
  also have "length (dropWhile is_ws s) \<le> length s" by (rule length_dropWhile_le)
  finally show ?case by simp
qed

declare split_whitespace.simps [simp del]

fun join :: "string \<Rightarrow> string list \<Rightarrow> string" where
  "join sep [] = []"
| "join sep [x] = x"
| "join sep (x # y # zs) = x @ sep @ join sep (y # zs)"

text \<open>\<open>Vec::dedup\<close> drops repeated neighbours; the sources call it after \<open>sort\<close>.\<close>

definition sort_dedup :: "string list \<Rightarrow> string list" where
  "sort_dedup xs = remdups_adj (sort xs)"

section \<open>Results\<close>

text \<open>The \<open>?\<close> operator and \<open>ok_or\<close> on \<open>Result\<close>, whose error is the left summand.\<close>

fun and_then :: "'e + 'a \<Rightarrow> ('a \<Rightarrow> 'e + 'b) \<Rightarrow> 'e + 'b" where
  "and_then (Inl e) f = Inl e"
| "and_then (Inr x) f = f x"

definition ok_or :: "'e \<Rightarrow> 'a option \<Rightarrow> 'e + 'a" where
  "ok_or e x = (case x of Some y \<Rightarrow> Inr y | None \<Rightarrow> Inl e)"

definition ensure :: "bool \<Rightarrow> 'e \<Rightarrow> 'e + unit" where
  "ensure b e = (if b then Inr () else Inl e)"

lemma and_then_Inr: "and_then m f = Inr y \<longleftrightarrow> (\<exists>x. m = Inr x \<and> f x = Inr y)"
  by (cases m) auto

lemma and_then_Inl: "and_then m f = Inl e \<longleftrightarrow> m = Inl e \<or> (\<exists>x. m = Inr x \<and> f x = Inl e)"
  by (cases m) auto

lemma ok_or_Inr: "ok_or e x = Inr y \<longleftrightarrow> x = Some y"
  by (cases x) (auto simp: ok_or_def)

lemma ensure_Inr: "ensure b e = Inr u \<longleftrightarrow> b"
  by (simp add: ensure_def)

lemmas result_simps = and_then_Inr ok_or_Inr ensure_Inr

section \<open>Numbers\<close>

definition digits_val :: "string \<Rightarrow> nat" where
  "digits_val s = foldl (\<lambda>n c. 10 * n + digit_val c) 0 s"

text \<open>\<open>str::parse\<close> for an unsigned type with greatest value \<open>m\<close>: an optional \<open>+\<close>, then at
  least one digit, and the value has to fit.\<close>

definition parse_uint :: "nat \<Rightarrow> string \<Rightarrow> nat option" where
  "parse_uint m s =
     (let ds = (case s of [] \<Rightarrow> [] | c # t \<Rightarrow> if c = CHR ''+'' then t else s)
      in if ds \<noteq> [] \<and> list_all is_digit ds \<and> digits_val ds \<le> m then Some (digits_val ds) else None)"

abbreviation u8_max :: nat where "u8_max \<equiv> 255"
abbreviation u16_max :: nat where "u16_max \<equiv> 65535"
abbreviation u32_max :: nat where "u32_max \<equiv> 4294967295"
abbreviation u64_max :: nat where "u64_max \<equiv> 18446744073709551615"

abbreviation parse_u16 :: "string \<Rightarrow> nat option" where "parse_u16 \<equiv> parse_uint u16_max"
abbreviation parse_u32 :: "string \<Rightarrow> nat option" where "parse_u32 \<equiv> parse_uint u32_max"
abbreviation parse_u64 :: "string \<Rightarrow> nat option" where "parse_u64 \<equiv> parse_uint u64_max"

text \<open>Decimal printing of an unsigned number (\<open>Display\<close>).\<close>

fun show_nat :: "nat \<Rightarrow> string" where
  "show_nat n = (if n < 10 then [digit_char n] else show_nat (n div 10) @ [digit_char (n mod 10)])"

declare show_nat.simps [simp del]

section \<open>Evaluation on literals\<close>

lemma digit_char_eval [str_eval]:
  "digit_char 0 = CHR ''0''" "digit_char (Suc 0) = CHR ''1''" "digit_char 2 = CHR ''2''"
  "digit_char 3 = CHR ''3''" "digit_char 4 = CHR ''4''" "digit_char 5 = CHR ''5''"
  "digit_char 6 = CHR ''6''" "digit_char 7 = CHR ''7''" "digit_char 8 = CHR ''8''"
  "digit_char 9 = CHR ''9''"
  by code_simp+

declare is_ws_def [str_eval] is_digit_def [str_eval] is_alpha_def [str_eval] digit_val_def [str_eval]
  trim_start_def [str_eval] trim_end_def [str_eval] trim_def [str_eval] rsplit_once_def [str_eval]
  strip_prefix_str_def [str_eval] starts_with_def [str_eval] ends_with_def [str_eval]
  digits_val_def [str_eval] parse_uint_def [str_eval] show_nat.simps [str_eval]
  split_str.simps [str_eval] split_whitespace.simps [str_eval] strip_suffix_str_def [str_eval]
  trim_start_matches.simps [str_eval] trim_matches_def [str_eval] lines_def [str_eval] strip_cr_def [str_eval]

section \<open>Lemmas on the string operations\<close>

lemma split_once_None [rust_str]: "split_once c s = None \<longleftrightarrow> c \<notin> set s"
  by (induction s) auto

lemma split_once_Some [rust_str]:
  "split_once c s = Some (a, b) \<longleftrightarrow> s = a @ c # b \<and> c \<notin> set a"
proof (induction s arbitrary: a)
  case (Cons x xs)
  then show ?case by (cases a) auto
qed simp

lemma rsplit_once_None [rust_str]: "rsplit_once c s = None \<longleftrightarrow> c \<notin> set s"
  by (simp add: rsplit_once_def split_once_None)

lemma rsplit_once_Some [rust_str]:
  "rsplit_once c s = Some (a, b) \<longleftrightarrow> s = a @ c # b \<and> c \<notin> set b"
proof -
  have "rsplit_once c s = Some (a, b) \<longleftrightarrow> split_once c (rev s) = Some (rev b, rev a)"
    by (auto simp: rsplit_once_def)
  also have "\<dots> \<longleftrightarrow> rev s = rev b @ c # rev a \<and> c \<notin> set b"
    by (simp add: split_once_Some)
  also have "rev s = rev b @ c # rev a \<longleftrightarrow> s = a @ c # b"
    by (metis rev_append rev_rev_ident rev.simps(2) append_assoc append_Cons append_Nil)
  finally show ?thesis .
qed

lemma split_not_Nil [simp]: "split c s \<noteq> []"
  by (induction s) (auto split: list.splits)

lemma split_no_sep: "c \<notin> set s \<Longrightarrow> split c s = [s]"
  by (induction s) auto

lemma split_piece: "x \<in> set (split c s) \<Longrightarrow> c \<notin> set x"
proof (induction s arbitrary: x)
  case (Cons y ys)
  then show ?case by (cases "split c ys") (auto split: if_splits)
qed simp

lemma split_append_sep: "c \<notin> set a \<Longrightarrow> split c (a @ c # b) = a # split c b"
  by (induction a) auto

lemma join_Cons: "xs \<noteq> [] \<Longrightarrow> join sep (x # xs) = x @ sep @ join sep xs"
  by (cases xs) auto

lemma join_split: "join [c] (split c s) = s"
proof (induction s)
  case (Cons x xs)
  then show ?case
    by (cases "split c xs"; cases "tl (split c xs)") (auto simp: join_Cons)
qed simp

lemma split_join:
  "xs \<noteq> [] \<Longrightarrow> (\<And>x. x \<in> set xs \<Longrightarrow> c \<notin> set x) \<Longrightarrow> split c (join [c] xs) = xs"
proof (induction xs)
  case (Cons x xs)
  then show ?case by (cases xs) (auto simp: split_no_sep split_append_sep)
qed simp

lemma strip_prefix_str_Some [rust_str]: "strip_prefix_str p s = Some t \<longleftrightarrow> s = p @ t"
  by (auto simp: strip_prefix_str_def prefix_def)

lemma strip_prefix_str_None [rust_str]: "strip_prefix_str p s = None \<longleftrightarrow> \<not> prefix p s"
  by (simp add: strip_prefix_str_def)

lemma contains_iff [rust_str]: "contains s p \<longleftrightarrow> (\<exists>a b. s = a @ p @ b)"
proof (induction s)
  case (Cons x xs)
  have "(\<exists>a b. x # xs = a @ p @ b) \<longleftrightarrow> prefix p (x # xs) \<or> (\<exists>a b. xs = a @ p @ b)"
    by (metis append_Cons append_Nil list.exhaust list.inject prefix_def)
  with Cons show ?case by simp
qed simp

lemma split_once_str_None:
  "p \<noteq> [] \<Longrightarrow> split_once_str p s = None \<longleftrightarrow> \<not> contains s p"
  by (induction s) auto

lemma split_once_str_Some: "split_once_str p s = Some (a, b) \<Longrightarrow> s = a @ p @ b"
proof (induction s arbitrary: a)
  case Nil
  then show ?case by (simp split: if_splits)
next
  case (Cons x xs)
  then show ?case by (auto simp: prefix_def split: if_splits)
qed

lemma split_str_length:
  "p \<noteq> [] \<Longrightarrow> x \<in> set (split_str p s) \<Longrightarrow> length x \<le> length s"
proof (induction p s rule: split_str.induct)
  case (1 p s)
  show ?case
  proof (cases "split_once_str p s")
    case None
    with 1 show ?thesis by (simp add: split_str.simps [of p s])
  next
    case (Some ab)
    obtain a b where ab: "ab = (a, b)" by (cases ab)
    with Some have len: "length a + length p + length b = length s"
      by (simp add: split_once_str_length)
    from 1 Some ab have "x = a \<or> x \<in> set (split_str p b)"
      by (simp add: split_str.simps [of p s])
    with 1 Some ab len show ?thesis by fastforce
  qed
qed

lemma split_str_shorter:
  assumes "p \<noteq> []" "contains s p" "x \<in> set (split_str p s)"
  shows "length x < length s"
proof -
  from assms(1,2) obtain a b where ab: "split_once_str p s = Some (a, b)"
    using split_once_str_None [of p s] by (cases "split_once_str p s") auto
  then have len: "length a + length p + length b = length s" by (rule split_once_str_length)
  from assms ab have "x = a \<or> x \<in> set (split_str p b)" by (simp add: split_str.simps [of p s])
  then have "length x \<le> length a \<or> length x \<le> length b"
    using split_str_length [OF assms(1)] by blast
  moreover have "0 < length p" using assms(1) by simp
  ultimately show ?thesis using len by linarith
qed

lemma split_whitespace_token:
  "x \<in> set (split_whitespace s) \<Longrightarrow> x \<noteq> [] \<and> list_all (Not \<circ> is_ws) x \<and> set x \<subseteq> set s \<and> length x \<le> length s"
proof (induction s rule: split_whitespace.induct)
  case (1 s)
  show ?case
  proof (cases "dropWhile is_ws s")
    case Nil
    with 1 show ?thesis by (simp add: split_whitespace.simps [of s])
  next
    case (Cons y ys)
    let ?h = "y # takeWhile (Not \<circ> is_ws) ys" and ?t = "dropWhile (Not \<circ> is_ws) ys"
    from Cons have y: "\<not> is_ws y" by (metis hd_dropWhile list.distinct(1) list.sel(1))
    from Cons have sub: "set (y # ys) \<subseteq> set s" by (metis set_dropWhileD subsetI)
    have len: "length (y # ys) \<le> length s"
      using length_dropWhile_le [of is_ws s] Cons by simp
    have h: "list_all (Not \<circ> is_ws) ?h"
      using y by (auto simp: list_all_iff dest: set_takeWhileD)
    from "1.prems" Cons have "x = ?h \<or> x \<in> set (split_whitespace ?t)"
      by (simp add: split_whitespace.simps [of s])
    then show ?thesis
    proof
      assume x: "x = ?h"
      have "set ?h \<subseteq> set (y # ys)" by (auto dest: set_takeWhileD)
      moreover have "length ?h \<le> length (y # ys)" by (simp add: length_takeWhile_le)
      ultimately show ?thesis using x h sub len by fastforce
    next
      assume x: "x \<in> set (split_whitespace ?t)"
      have "set ?t \<subseteq> set (y # ys)" by (auto dest: set_dropWhileD)
      moreover have "length ?t \<le> length ys" by (rule length_dropWhile_le)
      ultimately show ?thesis using "1.IH" [OF Cons x] sub len by fastforce
    qed
  qed
qed

lemma split_whitespace_id:
  assumes "x \<noteq> []" "list_all (Not \<circ> is_ws) x"
  shows "split_whitespace x = [x]"
proof -
  from assms obtain y ys where x: "x = y # ys" by (cases x) auto
  with assms have "dropWhile is_ws x = y # ys" by simp
  moreover have "takeWhile (Not \<circ> is_ws) ys = ys" "dropWhile (Not \<circ> is_ws) ys = []"
    using assms x by (simp_all add: list_all_iff takeWhile_eq_all_conv)
  moreover have "split_whitespace [] = []" by (simp add: split_whitespace.simps)
  ultimately show ?thesis by (subst split_whitespace.simps) (simp only: x list.case)
qed

lemma trim_no_ws [simp]: "list_all (Not \<circ> is_ws) s \<Longrightarrow> trim s = s"
proof -
  assume no: "list_all (Not \<circ> is_ws) s"
  have "dropWhile is_ws t = t" if "list_all (Not \<circ> is_ws) t" for t
    using that by (cases t) auto
  with no show ?thesis by (simp add: trim_def trim_start_def trim_end_def)
qed

lemma trim_idem [simp]: "trim (trim s) = trim s"
proof -
  define u where "u = dropWhile is_ws s"
  define w where "w = rev (dropWhile is_ws (rev u))"
  have rev_w: "dropWhile is_ws (rev w) = rev w" by (simp add: w_def)
  have "dropWhile is_ws w = w"
  proof (cases w)
    case (Cons c t)
    have "suffix (rev w) (rev u)" unfolding w_def by (simp add: suffix_dropWhile)
    then have "prefix w u" by (simp add: suffix_to_prefix)
    then have "u \<noteq> []" "hd u = c" by (auto simp: Cons prefix_def)
    then have "\<not> is_ws c" using hd_dropWhile [of is_ws s] by (auto simp: u_def)
    then show ?thesis by (simp add: Cons)
  qed simp
  with rev_w show ?thesis by (simp add: trim_def trim_start_def trim_end_def u_def [symmetric] w_def [symmetric])
qed

lemma trim_length: "length (trim s) \<le> length s"
  unfolding trim_def trim_start_def trim_end_def
  by (metis length_dropWhile_le length_rev order_trans)

section \<open>Lemmas on numbers\<close>

lemma digits_val_snoc: "digits_val (s @ [c]) = 10 * digits_val s + digit_val c"
  by (simp add: digits_val_def)

lemma show_nat_not_Nil [simp]: "show_nat n \<noteq> []"
  by (subst show_nat.simps) simp

lemma show_nat_digits: "list_all is_digit (show_nat n)"
proof (induction n rule: show_nat.induct)
  case (1 n)
  then show ?case by (cases "n < 10") (simp_all add: show_nat.simps [of n])
qed

lemma digits_val_show_nat: "digits_val (show_nat n) = n"
proof (induction n rule: show_nat.induct)
  case (1 n)
  show ?case
  proof (cases "n < 10")
    case True
    then show ?thesis by (simp add: show_nat.simps [of n] digits_val_def)
  next
    case False
    then have "digits_val (show_nat n) = 10 * digits_val (show_nat (n div 10)) + n mod 10"
      by (simp add: show_nat.simps [of n] digits_val_snoc)
    with 1 False show ?thesis by simp
  qed
qed

lemma show_nat_no_punct:
  "c \<in> set (show_nat n) \<Longrightarrow> c \<noteq> CHR '':'' \<and> c \<noteq> CHR ''.'' \<and> c \<noteq> CHR ''+'' \<and> c \<noteq> CHR ''-'' \<and>
     c \<noteq> CHR '']'' \<and> c \<noteq> CHR ''['' \<and> c \<noteq> CHR ''/'' \<and> c \<noteq> CHR '','' \<and> \<not> is_ws c"
  using show_nat_digits [of n] is_digit_not_punct by (auto simp: list_all_iff)

lemma parse_uint_show_nat [rust_parse]:
  "parse_uint m (show_nat n) = (if n \<le> m then Some n else None)"
proof -
  obtain d ds where s: "show_nat n = d # ds" by (cases "show_nat n") auto
  then have "d \<noteq> CHR ''+''" using show_nat_no_punct [of d n] by simp
  with s show ?thesis
    using show_nat_digits [of n] digits_val_show_nat [of n] by (simp add: parse_uint_def)
qed

lemma parse_uint_le [rust_parse]: "parse_uint m s = Some n \<Longrightarrow> n \<le> m"
  by (auto simp: parse_uint_def Let_def split: if_splits)

lemma parse_uint_Nil [simp]: "parse_uint m [] = None"
  by (simp add: parse_uint_def)

lemma set_sort_dedup [simp]: "set (sort_dedup xs) = set xs"
  by (simp add: sort_dedup_def)

lemma distinct_remdups_adj_sorted:
  fixes xs :: "'a::linorder list"
  shows "sorted xs \<Longrightarrow> distinct (remdups_adj xs)"
  by (induction xs rule: remdups_adj.induct) (auto simp: order.antisym)

lemma sort_dedup_distinct: "distinct (sort_dedup xs)"
  by (simp add: sort_dedup_def distinct_remdups_adj_sorted)

lemma sort_dedup_sorted: "sorted (sort_dedup xs)"
  by (simp add: sort_dedup_def)

end
