(* ===== verification/Host_Match.thy ===== *)
theory Host_Match
  imports Rust_Std
begin

text \<open>
  Host and port specifications of network capabilities: the functions \<open>authority\<close>,
  \<open>written_port\<close>, \<open>split_host_port\<close> and \<open>host_matches\<close> of
  \<open>crates/permissions/src/capability.rs\<close>. A grant or deny rule is a pattern
  (\<open>host\<close>, \<open>host:port\<close>, \<open>[v6]:port\<close>, \<open>*.suffix\<close> or \<open>*\<close>) and the destination of a request
  is spelled with \<open>authority\<close>. The lemmas show that what \<open>authority\<close> builds, \<open>split_host_port\<close>
  takes apart again, and that \<open>host_matches\<close> implements the abstract coverage relation
  \<open>covers_host\<close> with the port discipline of the documentation.
\<close>

section \<open>Definitions\<close>

definition authority :: "string \<Rightarrow> nat \<Rightarrow> string" where
  "authority host port =
     (if CHR '':'' \<in> set host \<and> \<not> starts_with host ''[''
      then ''['' @ host @ '']:'' @ show_nat port
      else host @ '':'' @ show_nat port)"

definition written_port :: "string \<Rightarrow> string option" where
  "written_port spec =
     (case strip_prefix_str ''['' spec of
        Some rest \<Rightarrow>
          (case split_once CHR '']'' rest of
             Some (_, after) \<Rightarrow> strip_prefix_str '':'' after
           | None \<Rightarrow> None)
      | None \<Rightarrow>
          if count_list spec CHR '':'' > 1 then None
          else (case rsplit_once CHR '':'' spec of
                  Some (_, port) \<Rightarrow> if port = [] then None else Some port
                | None \<Rightarrow> None))"

definition split_host_port :: "string \<Rightarrow> string \<times> nat option" where
  "split_host_port spec =
     (case (case strip_prefix_str ''['' spec of
              Some rest \<Rightarrow> split_once CHR '']'' rest
            | None \<Rightarrow> None) of
        Some (host, after) \<Rightarrow>
          (case strip_prefix_str '':'' after of
             Some p \<Rightarrow> (host, parse_u16 p)
           | None \<Rightarrow> (host, None))
      | None \<Rightarrow>
          if count_list spec CHR '':'' > 1 then (spec, None)
          else (case rsplit_once CHR '':'' spec of
                  Some (host, port) \<Rightarrow> if host \<noteq> [] then (host, parse_u16 port) else (spec, None)
                | None \<Rightarrow> (spec, None)))"

definition host_matches :: "string \<Rightarrow> string \<Rightarrow> bool" where
  "host_matches pattern host =
     (if pattern = ''*'' then True
      else if (case written_port pattern of
                 Some written \<Rightarrow> parse_u16 written = None
               | None \<Rightarrow> False) then False
      else
        let (pattern_host, pattern_port) = split_host_port pattern;
            (target_host, target_port) = split_host_port host
        in if (case pattern_port of
                 Some wanted \<Rightarrow> target_port \<noteq> Some wanted
               | None \<Rightarrow> False) then False
           else if pattern_host = target_host then True
           else (case strip_prefix_str ''*.'' pattern_host of
                   Some sfx \<Rightarrow>
                     ends_with target_host sfx \<and> length target_host > length sfx \<and>
                     target_host ! (length target_host - length sfx - 1) = CHR ''.''
                 | None \<Rightarrow> False))"

section \<open>The abstract relation\<close>

text \<open>A host pattern covers a host when they are equal, or when the pattern is \<open>*.suffix\<close> and
  the host is \<open>something.suffix\<close>.\<close>

definition covers_host :: "string \<Rightarrow> string \<Rightarrow> bool" where
  "covers_host p h \<longleftrightarrow> p = h \<or> (\<exists>sfx l. p = ''*.'' @ sfx \<and> h = l @ ''.'' @ sfx)"

text \<open>Hosts as the callers pass them: no brackets, not empty.\<close>

definition plain_host :: "string \<Rightarrow> bool" where
  "plain_host h \<longleftrightarrow> h \<noteq> [] \<and> CHR ''['' \<notin> set h \<and> CHR '']'' \<notin> set h"

section \<open>Correctness of the wildcard test\<close>

lemma dot_suffix_iff:
  "(ends_with h sfx \<and> length h > length sfx \<and> h ! (length h - length sfx - 1) = CHR ''.'') \<longleftrightarrow>
   (\<exists>l. h = l @ ''.'' @ sfx)"
proof
  assume h: "ends_with h sfx \<and> length h > length sfx \<and> h ! (length h - length sfx - 1) = CHR ''.''"
  then obtain l where l: "h = l @ sfx" by (auto simp: ends_with_def suffix_def)
  with h have "l \<noteq> []" by auto
  then have l': "l = butlast l @ [last l]" by simp
  have "h ! (length h - length sfx - 1) = last l"
    using l \<open>l \<noteq> []\<close> by (simp add: nth_append last_conv_nth)
  with h l l' show "\<exists>l. h = l @ ''.'' @ sfx" by (metis append.assoc)
next
  assume "\<exists>l. h = l @ ''.'' @ sfx"
  then obtain l where "h = l @ ''.'' @ sfx" by blast
  then show "ends_with h sfx \<and> length h > length sfx \<and> h ! (length h - length sfx - 1) = CHR ''.''"
    by (auto simp: ends_with_def suffix_def nth_append)
qed

lemma host_matches_alt:
  "host_matches p t \<longleftrightarrow>
     p = ''*'' \<or>
     ((\<forall>w. written_port p = Some w \<longrightarrow> parse_u16 w \<noteq> None) \<and>
      (\<forall>n. snd (split_host_port p) = Some n \<longrightarrow> snd (split_host_port t) = Some n) \<and>
      covers_host (fst (split_host_port p)) (fst (split_host_port t)))"
proof -
  obtain ph pp where p: "split_host_port p = (ph, pp)" by (cases "split_host_port p")
  obtain th tp where t: "split_host_port t = (th, tp)" by (cases "split_host_port t")
  have cov: "covers_host ph th \<longleftrightarrow>
    (if ph = th then True
     else (case strip_prefix_str ''*.'' ph of
        Some sfx \<Rightarrow> ends_with th sfx \<and> length th > length sfx \<and>
          th ! (length th - length sfx - 1) = CHR ''.''
      | None \<Rightarrow> False))"
    unfolding dot_suffix_iff covers_host_def
    by (auto simp: strip_prefix_str_None strip_prefix_str_Some prefix_def split: option.split)
  show ?thesis
    by (auto simp: host_matches_def p t cov split: option.splits)
qed

section \<open>Round trip of \<open>authority\<close>\<close>

lemma count_list_0: "count_list s c = 0 \<longleftrightarrow> c \<notin> set s"
  by (induction s) auto

lemma split_once_append: "c \<notin> set a \<Longrightarrow> split_once c (a @ c # b) = Some (a, b)"
  by (simp add: split_once_Some)

lemma split_host_port_bracketed:
  "CHR '']'' \<notin> set h \<Longrightarrow> split_host_port (''['' @ h @ '']:'' @ p) = (h, parse_u16 p)"
  by (simp add: split_host_port_def strip_prefix_str_def split_once_append)

lemma split_host_port_plain:
  assumes "h \<noteq> []" "CHR '':'' \<notin> set h" "CHR ''['' \<notin> set h" "CHR '':'' \<notin> set p"
  shows "split_host_port (h @ '':'' @ p) = (h, parse_u16 p)"
proof -
  from assms obtain x xs where h: "h = x # xs" "x \<noteq> CHR ''[''" by (cases h) auto
  have "strip_prefix_str ''['' (h @ '':'' @ p) = None"
    using h by (simp add: strip_prefix_str_def)
  moreover have "count_list (h @ '':'' @ p) CHR '':'' = 1"
    using assms by (simp add: count_list_append count_list_0)
  moreover have "rsplit_once CHR '':'' (h @ '':'' @ p) = Some (h, p)"
    using assms by (simp add: rsplit_once_Some)
  ultimately show ?thesis using assms(1) by (simp add: split_host_port_def)
qed

lemma split_host_port_authority:
  assumes "plain_host h" "n \<le> u16_max"
  shows "split_host_port (authority h n) = (h, Some n)"
proof -
  have nb: "\<not> starts_with h ''[''"
    using assms(1) by (cases h) (auto simp: plain_host_def starts_with_def)
  have no: "CHR '':'' \<notin> set (show_nat n)" using show_nat_no_punct by blast
  show ?thesis
  proof (cases "CHR '':'' \<in> set h")
    case True
    have "CHR '']'' \<notin> set h" using assms(1) by (simp add: plain_host_def)
    then have "split_host_port (''['' @ h @ '']:'' @ show_nat n) = (h, parse_u16 (show_nat n))"
      by (rule split_host_port_bracketed)
    with True nb show ?thesis
      using assms(2) by (simp add: authority_def parse_uint_show_nat)
  next
    case False
    have "split_host_port (h @ '':'' @ show_nat n) = (h, parse_u16 (show_nat n))"
      using assms(1) False no by (intro split_host_port_plain) (auto simp: plain_host_def)
    with False show ?thesis
      using assms(2) by (simp add: authority_def parse_uint_show_nat)
  qed
qed

lemma written_port_authority:
  assumes "plain_host h"
  shows "written_port (authority h n) = Some (show_nat n)"
proof -
  have nb: "\<not> starts_with h ''[''"
    using assms by (cases h) (auto simp: plain_host_def starts_with_def)
  have no: "CHR '':'' \<notin> set (show_nat n)" using show_nat_no_punct by blast
  show ?thesis
  proof (cases "CHR '':'' \<in> set h")
    case True
    have "split_once CHR '']'' (h @ '']:'' @ show_nat n) = Some (h, '':'' @ show_nat n)"
      using assms by (simp add: plain_host_def split_once_Some)
    with True nb show ?thesis
      by (simp add: authority_def written_port_def strip_prefix_str_def)
  next
    case False
    have "strip_prefix_str ''['' (h @ '':'' @ show_nat n) = None"
      using nb assms by (cases h) (auto simp: starts_with_def strip_prefix_str_def plain_host_def)
    moreover have "count_list (h @ '':'' @ show_nat n) CHR '':'' = 1"
      using False no by (simp add: count_list_append count_list_0)
    moreover have "rsplit_once CHR '':'' (h @ '':'' @ show_nat n) = Some (h, show_nat n)"
      using no by (simp add: rsplit_once_Some)
    ultimately show ?thesis using False
      by (simp add: authority_def written_port_def)
  qed
qed

lemma authority_not_star: "authority h n \<noteq> ''*''"
proof -
  have "CHR '':'' \<in> set (authority h n)" by (simp add: authority_def)
  then show ?thesis by auto
qed

lemma split_host_port_bare:
  assumes "plain_host h" "count_list h CHR '':'' \<noteq> 1"
  shows "split_host_port h = (h, None)" and "written_port h = None"
proof -
  have s: "strip_prefix_str ''['' h = None"
    using assms by (cases h) (auto simp: strip_prefix_str_def plain_host_def)
  consider "count_list h CHR '':'' > 1" | "rsplit_once CHR '':'' h = None"
    using assms(2) count_list_0 [of h "CHR '':''"] rsplit_once_None [of "CHR '':''" h] by linarith
  then show "split_host_port h = (h, None)" and "written_port h = None"
    using s by (cases; simp add: split_host_port_def written_port_def)+
qed

section \<open>Properties\<close>

text \<open>
  A destination spelled by \<open>authority\<close> from a bracket-free host and a
  16-bit port is taken apart by \<open>split_host_port\<close> into exactly that host and that port, IPv6
  literals (hosts with colons) included.
\<close>
theorem authority_roundtrip:
  assumes "plain_host h" and "n \<le> u16_max"
  shows "split_host_port (authority h n) = (h, Some n)"
  using assms by (rule split_host_port_authority)

text \<open>
  A grant that names a port covers exactly the destinations on that port
  whose host it covers: \<open>api.example.com:443\<close> never authorises another port of the same host.
\<close>
theorem host_matches_port_scoped:
  assumes "plain_host h" and "plain_host h'" and "n \<le> u16_max" and "m \<le> u16_max"
  shows "host_matches (authority h n) (authority h' m) \<longleftrightarrow> n = m \<and> covers_host h h'"
proof -
  have "parse_u16 (show_nat n) \<noteq> None" using assms(3) by (simp add: parse_uint_show_nat)
  then show ?thesis
    using assms
    by (auto simp: host_matches_alt authority_not_star written_port_authority
        split_host_port_authority)
qed

text \<open>
  Claim C7 (functional). \<open>host_matches\<close> implements the abstract coverage relation on every
  input: \<open>*\<close> covers everything; any other pattern covers a destination exactly when a port
  it writes is a valid port, a port it names is the destination's port, and its host equals the
  destination's host or is \<open>*.suffix\<close> for a destination \<open>label.suffix\<close>.
\<close>
theorem host_matches_correct:
  "host_matches p t \<longleftrightarrow>
     p = ''*'' \<or>
     ((\<forall>w. written_port p = Some w \<longrightarrow> (\<exists>n. parse_u16 w = Some n)) \<and>
      (\<forall>n. snd (split_host_port p) = Some n \<longrightarrow> snd (split_host_port t) = Some n) \<and>
      covers_host (fst (split_host_port p)) (fst (split_host_port t)))"
  using host_matches_alt [of p t] by auto

theorem host_matches_correct_witness:
  "\<not> host_matches ''a.io:99999'' ''a.io:80'' \<and> written_port ''a.io:99999'' = Some ''99999''"
proof -
  have w: "written_port ''a.io:99999'' = Some ''99999''" by (simp add: written_port_def str_eval)
  have "parse_u16 ''99999'' = None" by (simp add: str_eval)
  with w show ?thesis using host_matches_correct [of "''a.io:99999''" "''a.io:80''"] by simp
qed

end
