(* ===== verification/Scope.thy ===== *)
theory Scope
  imports Rust_Std
begin

text \<open>
  Which package's code is running: \<open>crates/permissions/src/scope.rs\<close>. The thread-local cells
  and the process-wide flag of that file are the fields of one record. The stack resolver is a
  function pointer that the JS engine installs and that reads the packages with code on the V8
  stack; \<open>Some ps\<close> is an installed resolver whose answer, at the moment of the check, is \<open>ps\<close>
  (\<open>Caller_Scope\<close> models how the engine computes that answer), and \<open>None\<close> is no resolver.
\<close>

section \<open>State and operations\<close>

record scope_state =
  current_raw :: string
  stack_resolver :: "string list option"
  inherited_scopes :: "string list"
  rules_active :: bool

definition init_scope_state :: scope_state where
  "init_scope_state =
     \<lparr>current_raw = [], stack_resolver = None, inherited_scopes = [], rules_active = False\<rparr>"

definition ROOT_SCOPE :: string where
  "ROOT_SCOPE = ''.''"

definition set_stack_scopes_resolver :: "string list option \<Rightarrow> scope_state \<Rightarrow> scope_state" where
  "set_stack_scopes_resolver f s = s\<lparr>stack_resolver := f\<rparr>"

text \<open>Returns the previous value, as \<open>std::mem::replace\<close> does.\<close>

definition set_inherited_scopes :: "string list \<Rightarrow> scope_state \<Rightarrow> string list \<times> scope_state" where
  "set_inherited_scopes scopes s = (inherited_scopes s, s\<lparr>inherited_scopes := scopes\<rparr>)"

definition mark_scoped_rules_active :: "scope_state \<Rightarrow> scope_state" where
  "mark_scoped_rules_active s = s\<lparr>rules_active := True\<rparr>"

definition scoped_rules_active :: "scope_state \<Rightarrow> bool" where
  "scoped_rules_active s = rules_active s"

definition current_scope :: "scope_state \<Rightarrow> string" where
  "current_scope s = (if current_raw s = [] then ROOT_SCOPE else current_raw s)"

definition set_current_scope :: "string \<Rightarrow> scope_state \<Rightarrow> scope_state" where
  "set_current_scope scope s =
     s\<lparr>current_raw := (if scope = ROOT_SCOPE then [] else scope)\<rparr>"

definition stack_scopes :: "scope_state \<Rightarrow> string list" where
  "stack_scopes s =
     (if \<not> scoped_rules_active s then []
      else (case stack_resolver s of Some out \<Rightarrow> out | None \<Rightarrow> []))"

definition package_scopes :: "scope_state \<Rightarrow> string list" where
  "package_scopes s =
     (let out = (if stack_resolver s \<noteq> None then stack_scopes s
                 else (let cur = current_scope s in if cur = ROOT_SCOPE then [] else [cur]))
      in sort_dedup (out @ inherited_scopes s))"

definition deny_scopes :: "scope_state \<Rightarrow> string list" where
  "deny_scopes s =
     (let out = package_scopes s; cur = current_scope s
      in if cur \<noteq> ROOT_SCOPE \<and> cur \<notin> set out then out @ [cur] else out)"

text \<open>The RAII guard: \<open>enter\<close> returns what the guard keeps, \<open>drop\<close> restores it.\<close>

definition scope_guard_enter :: "string \<Rightarrow> scope_state \<Rightarrow> string \<times> scope_state" where
  "scope_guard_enter scope s = (let previous = current_scope s in (previous, set_current_scope scope s))"

definition scope_guard_drop :: "string \<Rightarrow> scope_state \<Rightarrow> scope_state" where
  "scope_guard_drop previous s = set_current_scope previous s"

section \<open>Well-formed states\<close>

text \<open>\<open>set_current_scope\<close> never stores the root marker itself; the engine's resolver and the
  places that schedule deferred work only hand over package names.\<close>

definition scope_wf :: "scope_state \<Rightarrow> bool" where
  "scope_wf s \<longleftrightarrow> current_raw s \<noteq> ROOT_SCOPE \<and> ROOT_SCOPE \<notin> set (inherited_scopes s) \<and>
     (\<forall>out. stack_resolver s = Some out \<longrightarrow> ROOT_SCOPE \<notin> set out)"

lemma scope_wf_init: "scope_wf init_scope_state"
  by (simp add: scope_wf_def init_scope_state_def ROOT_SCOPE_def)

lemma scope_wf_set_current [simp]: "scope_wf s \<Longrightarrow> scope_wf (set_current_scope sc s)"
  by (simp add: scope_wf_def set_current_scope_def ROOT_SCOPE_def)

lemma scope_wf_inherit [simp]:
  "scope_wf s \<Longrightarrow> ROOT_SCOPE \<notin> set xs \<Longrightarrow> scope_wf (snd (set_inherited_scopes xs s))"
  by (simp add: scope_wf_def set_inherited_scopes_def)

lemma current_scope_set [simp]:
  "sc \<noteq> [] \<Longrightarrow> current_scope (set_current_scope sc s) = sc"
  by (simp add: current_scope_def set_current_scope_def)

lemma set_package_scopes:
  "set (package_scopes s) =
     (case stack_resolver s of
        Some out \<Rightarrow> (if rules_active s then set out else {}) \<union> set (inherited_scopes s)
      | None \<Rightarrow> ({current_scope s} - {ROOT_SCOPE}) \<union> set (inherited_scopes s))"
  by (auto simp: package_scopes_def stack_scopes_def scoped_rules_active_def Let_def
      split: option.splits)

lemma set_deny_scopes:
  "set (deny_scopes s) = set (package_scopes s) \<union> ({current_scope s} - {ROOT_SCOPE})"
  by (auto simp: deny_scopes_def Let_def)

lemma package_scopes_sorted: "sorted (package_scopes s)" "distinct (package_scopes s)"
  by (simp_all add: package_scopes_def Let_def sort_dedup_sorted sort_dedup_distinct)

lemma package_scopes_no_root: "scope_wf s \<Longrightarrow> ROOT_SCOPE \<notin> set (package_scopes s)"
  by (auto simp: set_package_scopes scope_wf_def split: option.splits)

text \<open>With a resolver installed, what JS writes into the current scope does not reach the list
  that grants are checked against.\<close>

lemma package_scopes_ignore_current:
  "stack_resolver s \<noteq> None \<Longrightarrow> package_scopes (s\<lparr>current_raw := x\<rparr>) = package_scopes s"
  by (auto simp: package_scopes_def stack_scopes_def scoped_rules_active_def)

lemma scope_guard_restores:
  assumes "scope_wf s" and "scope_guard_enter sc s = (prev, s')"
  shows "scope_guard_drop prev s' = s"
proof -
  have "prev = current_scope s" "s' = set_current_scope sc s"
    using assms(2) by (simp_all add: scope_guard_enter_def)
  with assms(1) show ?thesis
    by (cases "current_raw s = []")
      (simp_all add: scope_guard_drop_def set_current_scope_def current_scope_def scope_wf_def)
qed

text \<open>Guards nest: however deep the calls between modules go, dropping them in reverse order
  brings the scope back.\<close>

fun enter_all :: "string list \<Rightarrow> scope_state \<Rightarrow> string list \<times> scope_state" where
  "enter_all [] s = ([], s)"
| "enter_all (sc # scs) s =
     (let (prev, s') = scope_guard_enter sc s; (prevs, s'') = enter_all scs s' in (prev # prevs, s''))"

fun drop_all :: "string list \<Rightarrow> scope_state \<Rightarrow> scope_state" where
  "drop_all [] s = s"
| "drop_all (prev # prevs) s = scope_guard_drop prev (drop_all prevs s)"

lemma scope_guards_nest: "scope_wf s \<Longrightarrow> enter_all scs s = (prevs, s') \<Longrightarrow> drop_all prevs s' = s"
proof (induction scs arbitrary: s prevs)
  case (Cons sc scs)
  obtain prev s1 where e: "scope_guard_enter sc s = (prev, s1)" by (cases "scope_guard_enter sc s")
  then have wf1: "scope_wf s1" using Cons.prems(1) by (auto simp: scope_guard_enter_def)
  obtain ps where ps: "enter_all scs s1 = (ps, s')" "prevs = prev # ps"
    using Cons.prems(2) e by (auto split: prod.splits)
  have "drop_all ps s' = s1" using Cons.IH [OF wf1 ps(1)] .
  with ps(2) show ?case using scope_guard_restores [OF Cons.prems(1) e] by simp
qed simp

end
