(* ===== verification/Fs_Path.thy ===== *)
theory Fs_Path
  imports Rust_Std
begin

text \<open>
  Path coverage of file capabilities: \<open>absolutize\<close>, \<open>resolve_physically\<close> and
  \<open>path_covered_by\<close> of \<open>crates/permissions/src/capability.rs\<close>, on non-Windows targets (where
  \<open>normalize_path\<close> is the identity).

  A path is the component sequence that \<open>Path::components\<close> yields. The operating system is a
  parameter: \<open>cwd\<close> is the answer of \<open>std::env::current_dir\<close>, and \<open>canon\<close> the answer of
  \<open>canonicalize\<close> for every path (\<open>None\<close> where the path does not exist or cannot be read). What
  the theorems rely on of \<open>canonicalize\<close> is its documented result, \<open>canonicalizes\<close>: an absolute
  path with no \<open>.\<close>, \<open>..\<close> or symbolic link left in it.
\<close>

section \<open>Paths and the file system\<close>

datatype component = RootDir | CurDir | ParentDir | Normal string

type_synonym path = "component list"

record fs_env =
  cwd :: "path option"
  canon :: "path \<Rightarrow> path option"

definition is_absolute :: "path \<Rightarrow> bool" where
  "is_absolute p \<longleftrightarrow> (case p of RootDir # _ \<Rightarrow> True | _ \<Rightarrow> False)"

text \<open>\<open>PathBuf::join\<close>; a \<open>.\<close> inside a path is dropped by \<open>components\<close>.\<close>

definition path_join :: "path \<Rightarrow> path \<Rightarrow> path" where
  "path_join base p =
     (if is_absolute p then p else if base = [] then p else base @ filter (\<lambda>c. c \<noteq> CurDir) p)"

text \<open>\<open>Path::components\<close> of a string.\<close>

definition component_of :: "string \<Rightarrow> component" where
  "component_of s = (if s = ''..'' then ParentDir else Normal s)"

definition parse_path :: "string \<Rightarrow> path" where
  "parse_path s =
     (let parts = split CHR ''/'' s;
          rest = map component_of (filter (\<lambda>p. p \<noteq> [] \<and> p \<noteq> ''.'') parts)
      in if starts_with s ''/'' then RootDir # rest
         else if hd parts = ''.'' then CurDir # rest
         else rest)"

text \<open>\<open>PathBuf::pop\<close>: nothing is above the empty path and the root.\<close>

definition pop_component :: "path \<Rightarrow> path option" where
  "pop_component out = (if out = [] \<or> out = [RootDir] then None else Some (butlast out))"

text \<open>\<open>Path::join\<close> on the text of the paths.\<close>

definition join_str :: "string \<Rightarrow> string \<Rightarrow> string" where
  "join_str base p =
     (if starts_with p ''/'' then p
      else if base = [] \<or> last base = CHR ''/'' then base @ p
      else base @ ''/'' @ p)"

definition absolutize :: "fs_env \<Rightarrow> path \<Rightarrow> path" where
  "absolutize fs p =
     (if is_absolute p then p
      else (case cwd fs of Some d \<Rightarrow> path_join d p | None \<Rightarrow> p))"

fun append_tail :: "path \<Rightarrow> path \<Rightarrow> path option" where
  "append_tail out [] = Some out"
| "append_tail out (Normal name # cs) = append_tail (out @ [Normal name]) cs"
| "append_tail out (CurDir # cs) = append_tail out cs"
| "append_tail out (c # cs) = None"

text \<open>The loop over \<open>split\<close> from the whole path down to one component.\<close>

fun resolve_from :: "fs_env \<Rightarrow> path \<Rightarrow> nat \<Rightarrow> path option" where
  "resolve_from fs comps 0 = None"
| "resolve_from fs comps (Suc k) =
     (case canon fs (take (Suc k) comps) of
        Some out \<Rightarrow> append_tail out (drop (Suc k) comps)
      | None \<Rightarrow> resolve_from fs comps k)"

definition resolve_physically :: "fs_env \<Rightarrow> path \<Rightarrow> path option" where
  "resolve_physically fs p = resolve_from fs p (length p)"

definition path_covered_by :: "fs_env \<Rightarrow> path \<Rightarrow> path \<Rightarrow> bool" where
  "path_covered_by fs target allowed =
     (case (resolve_physically fs (absolutize fs target), resolve_physically fs (absolutize fs allowed)) of
        (Some t, Some a) \<Rightarrow> prefix a t
      | _ \<Rightarrow> False)"

section \<open>What the operating system promises\<close>

definition physical :: "path \<Rightarrow> bool" where
  "physical p \<longleftrightarrow> (\<exists>ns. p = RootDir # map Normal ns)"

definition canonicalizes :: "fs_env \<Rightarrow> bool" where
  "canonicalizes fs \<longleftrightarrow>
     (\<forall>p r. canon fs p = Some r \<longrightarrow> physical r \<and> canon fs r = Some r)"

text \<open>Where the kernel lands for a path: the longest existing prefix is resolved by the file
  system, and the components behind it, which do not exist yet, are appended as they are.\<close>

definition lands :: "fs_env \<Rightarrow> path \<Rightarrow> path \<Rightarrow> bool" where
  "lands fs p r \<longleftrightarrow>
     (\<exists>k out ns. 0 < k \<and> k \<le> length p \<and> canon fs (take k p) = Some out \<and>
        (\<forall>j. k < j \<and> j \<le> length p \<longrightarrow> canon fs (take j p) = None) \<and>
        filter (\<lambda>c. c \<noteq> CurDir) (drop k p) = map Normal ns \<and> r = out @ map Normal ns)"

section \<open>Lemmas\<close>

lemma absolutize_root [simp]: "absolutize fs (RootDir # p) = RootDir # p"
  by (simp add: absolutize_def is_absolute_def)

lemma append_tail_Some:
  "append_tail out cs = Some r \<longleftrightarrow>
     (\<exists>ns. filter (\<lambda>c. c \<noteq> CurDir) cs = map Normal ns \<and> r = out @ map Normal ns)"
proof (induction out cs rule: append_tail.induct)
  case (2 out name cs)
  have "(\<exists>ns. Normal name # filter (\<lambda>c. c \<noteq> CurDir) cs = map Normal ns \<and> r = out @ map Normal ns) \<longleftrightarrow>
    (\<exists>ns. filter (\<lambda>c. c \<noteq> CurDir) cs = map Normal ns \<and> r = (out @ [Normal name]) @ map Normal ns)"
    (is "?l \<longleftrightarrow> ?r")
  proof
    assume ?l
    then show ?r by (auto simp: Cons_eq_map_conv)
  next
    assume ?r
    then obtain ns where "filter (\<lambda>c. c \<noteq> CurDir) cs = map Normal ns"
      "r = (out @ [Normal name]) @ map Normal ns" by blast
    then show ?l by (intro exI [of _ "name # ns"]) simp
  qed
  with 2 show ?case by simp
qed auto

text \<open>\<open>k\<close> is the longest prefix, among those of length at most \<open>n\<close>, that exists.\<close>

definition longest_existing :: "fs_env \<Rightarrow> path \<Rightarrow> nat \<Rightarrow> nat \<Rightarrow> path \<Rightarrow> bool" where
  "longest_existing fs p n k out \<longleftrightarrow>
     0 < k \<and> k \<le> n \<and> canon fs (take k p) = Some out \<and>
     (\<forall>j. k < j \<and> j \<le> n \<longrightarrow> canon fs (take j p) = None)"

lemma longest_existing_Suc_None:
  "canon fs (take (Suc n) p) = None \<Longrightarrow>
     longest_existing fs p (Suc n) k out \<longleftrightarrow> longest_existing fs p n k out"
  unfolding longest_existing_def by (metis le_Suc_eq option.distinct(1))

lemma longest_existing_Suc_Some:
  "canon fs (take (Suc n) p) = Some out' \<Longrightarrow>
     longest_existing fs p (Suc n) k out \<longleftrightarrow> k = Suc n \<and> out = out'"
  unfolding longest_existing_def
  by (metis le_neq_implies_less leD option.distinct(1) option.inject order_refl zero_less_Suc)

lemma resolve_from_Some:
  "resolve_from fs p n = Some r \<longleftrightarrow>
     (\<exists>k out. longest_existing fs p n k out \<and> append_tail out (drop k p) = Some r)"
proof (induction n)
  case 0
  show ?case by (simp add: longest_existing_def)
next
  case (Suc n)
  then show ?case
    by (cases "canon fs (take (Suc n) p)")
      (simp_all add: longest_existing_Suc_None longest_existing_Suc_Some)
qed

lemma resolve_physically_lands: "resolve_physically fs p = Some r \<longleftrightarrow> lands fs p r"
  unfolding resolve_physically_def resolve_from_Some append_tail_Some lands_def longest_existing_def
  by blast

lemma physical_append: "physical p \<Longrightarrow> physical (p @ map Normal ns)"
  unfolding physical_def by (metis append_Cons map_append)

lemma lands_physical: "canonicalizes fs \<Longrightarrow> lands fs p r \<Longrightarrow> physical r"
  unfolding lands_def canonicalizes_def using physical_append by blast

lemma path_covered_by_iff:
  "path_covered_by fs t a \<longleftrightarrow>
     (\<exists>t' a'. lands fs (absolutize fs t) t' \<and> lands fs (absolutize fs a) a' \<and> prefix a' t')"
  by (auto simp: path_covered_by_def simp flip: resolve_physically_lands split: option.splits)

lemma lands_unique: "lands fs p r \<Longrightarrow> lands fs p r' \<Longrightarrow> r = r'"
  by (metis option.inject resolve_physically_lands)

lemma path_covered_by_trans:
  "path_covered_by fs t a \<Longrightarrow> path_covered_by fs a b \<Longrightarrow> path_covered_by fs t b"
  unfolding path_covered_by_iff by (metis lands_unique prefix_order.order_trans)

lemma path_covered_by_refl_iff:
  "path_covered_by fs p p \<longleftrightarrow> resolve_physically fs (absolutize fs p) \<noteq> None"
  by (auto simp: path_covered_by_def split: option.splits)

text \<open>A path whose part that does not exist yet holds a \<open>..\<close> lands nowhere, so nothing covers it.\<close>

lemma dotdot_tail_not_covered:
  assumes "\<forall>j. k < j \<and> j \<le> length (absolutize fs t) \<longrightarrow> canon fs (take j (absolutize fs t)) = None"
    and "ParentDir \<in> set (drop k (absolutize fs t))"
  shows "\<not> path_covered_by fs t a"
proof -
  let ?p = "absolutize fs t"
  have "\<not> lands fs ?p r" for r
  proof
    assume "lands fs ?p r"
    then obtain k' out ns where k': "k' \<le> length ?p" "canon fs (take k' ?p) = Some out"
      and f: "filter (\<lambda>c. c \<noteq> CurDir) (drop k' ?p) = map Normal ns"
      unfolding lands_def by blast
    have "k' \<le> k" using k' assms(1) by (metis leI option.distinct(1))
    then have "set (drop k ?p) \<subseteq> set (drop k' ?p)" by (rule set_drop_subset_set_drop)
    with assms(2) have "ParentDir \<in> set (filter (\<lambda>c. c \<noteq> CurDir) (drop k' ?p))" by auto
    with f show False by auto
  qed
  then show ?thesis by (simp add: path_covered_by_iff)
qed

section \<open>Properties\<close>

text \<open>
  Claim C8 (safety). Coverage is decided on the object the kernel opens: when a target exists and
  a rule for \<open>allowed\<close> covers it, the physical path the target resolves to, symbolic links and
  \<open>..\<close> included, lies below the physical location of \<open>allowed\<close>, and neither contains a \<open>.\<close> or
  \<open>..\<close> component.
\<close>
theorem covered_target_is_below:
  assumes "canonicalizes fs" and "path_covered_by fs target allowed"
    and "canon fs (absolutize fs target) = Some r" and "absolutize fs target \<noteq> []"
  shows "\<exists>a. lands fs (absolutize fs allowed) a \<and> physical a \<and> physical r \<and> prefix a r"
proof -
  from assms(2) obtain t a where ta: "lands fs (absolutize fs target) t"
    "lands fs (absolutize fs allowed) a" "prefix a t"
    by (auto simp: path_covered_by_iff)
  have "lands fs (absolutize fs target) r"
    unfolding lands_def using assms(3,4)
    by (intro exI [of _ "length (absolutize fs target)"] exI [of _ r] exI [of _ "[]"]) simp
  then have "t = r" using ta(1) lands_unique by blast
  with ta show ?thesis using lands_physical [OF assms(1)] by blast
qed

definition demo_fs :: fs_env where
  "demo_fs = \<lparr>cwd = None, canon = (\<lambda>p.
     if p = [RootDir, Normal ''box'', Normal ''link''] then Some [RootDir, Normal ''etc'']
     else if p \<in> {[RootDir], [RootDir, Normal ''box''], [RootDir, Normal ''etc''],
                  [RootDir, Normal ''box'', Normal ''f'']} then Some p else None)\<rparr>"

lemma demo_fs_canonicalizes: "canonicalizes demo_fs"
  unfolding canonicalizes_def demo_fs_def physical_def
  by (auto simp: Cons_eq_map_conv split: if_splits)

lemma demo_fs_canon:
  "canon demo_fs p =
     (if p = [RootDir, Normal ''box'', Normal ''link''] then Some [RootDir, Normal ''etc'']
      else if p \<in> {[RootDir], [RootDir, Normal ''box''], [RootDir, Normal ''etc''],
                   [RootDir, Normal ''box'', Normal ''f'']} then Some p else None)"
  by (simp add: demo_fs_def)

theorem covered_target_is_below_witness:
  "\<exists>a. lands demo_fs [RootDir, Normal ''box''] a \<and> prefix a [RootDir, Normal ''box'', Normal ''f'']"
proof -
  let ?t = "[RootDir, Normal ''box'', Normal ''f'']" and ?a = "[RootDir, Normal ''box'']"
  have c: "path_covered_by demo_fs ?t ?a"
    by (simp add: path_covered_by_def resolve_physically_def demo_fs_canon)
  have r: "canon demo_fs (absolutize demo_fs ?t) = Some ?t" by (simp add: demo_fs_canon)
  show ?thesis using covered_target_is_below [OF demo_fs_canonicalizes c r] by auto
qed

text \<open>
  Coverage fails closed on what cannot be resolved: if the part of the
  absolute target behind its longest existing prefix contains a \<open>..\<close>, no rule covers the
  target.
\<close>
theorem unresolved_dotdot_never_covered:
  assumes "\<forall>j. k < j \<and> j \<le> length (absolutize fs target) \<longrightarrow>
             canon fs (take j (absolutize fs target)) = None"
    and "ParentDir \<in> set (drop k (absolutize fs target))"
  shows "\<not> path_covered_by fs target allowed"
  using assms by (rule dotdot_tail_not_covered)

end
