(* ===== verification/Audit_Log.thy ===== *)
theory Audit_Log
  imports Fs_Path
begin

text \<open>
  The audit trail of permission checks: \<open>crates/permissions/src/audit.rs\<close>. Events carry the
  wall-clock time of the check, which is an argument here. Console output and the JSON export
  are left out: they read the log and change nothing.
\<close>

type_synonym timestamp = nat

datatype audit_event =
    PermissionDenied timestamp string string string
  | PermissionGranted timestamp string string
  | FileAccess timestamp path string bool
  | NetworkAccess timestamp string nat bool
  | ProcessSpawn timestamp string bool
  | EnvAccessed timestamp string bool

type_synonym audit_log = "audit_event list"

definition audit_new :: audit_log where
  "audit_new = []"

definition add_event :: "audit_event \<Rightarrow> audit_log \<Rightarrow> audit_log" where
  "add_event e l = l @ [e]"

definition log_permission_denied :: "timestamp \<Rightarrow> string \<Rightarrow> string \<Rightarrow> string \<Rightarrow> audit_log \<Rightarrow> audit_log" where
  "log_permission_denied now cap resource reason l = add_event (PermissionDenied now cap resource reason) l"

definition log_file_access :: "timestamp \<Rightarrow> path \<Rightarrow> string \<Rightarrow> bool \<Rightarrow> audit_log \<Rightarrow> audit_log" where
  "log_file_access now p operation allowed l = add_event (FileAccess now p operation allowed) l"

definition log_network_access :: "timestamp \<Rightarrow> string \<Rightarrow> nat \<Rightarrow> bool \<Rightarrow> audit_log \<Rightarrow> audit_log" where
  "log_network_access now host port allowed l = add_event (NetworkAccess now host port allowed) l"

text \<open>The decision an event records; a denied FFI load is logged as a denial with the reason
  \<open>not granted\<close>, an allowed one with the reason \<open>allowed\<close>.\<close>

fun event_allowed :: "audit_event \<Rightarrow> bool" where
  "event_allowed (PermissionDenied _ _ _ reason) = (reason = ''allowed'')"
| "event_allowed (PermissionGranted _ _ _) = True"
| "event_allowed (FileAccess _ _ _ a) = a"
| "event_allowed (NetworkAccess _ _ _ a) = a"
| "event_allowed (ProcessSpawn _ _ a) = a"
| "event_allowed (EnvAccessed _ _ a) = a"

end
