(* ===== verification/Permissions.thy ===== *)
theory Permissions
  imports Host_Match Scope Audit_Log
begin

text \<open>
  The permission state of the runtime: \<open>Capability\<close>, \<open>PermissionState\<close> and its operations from
  \<open>crates/permissions/src/capability.rs\<close>.

  The hash sets of capabilities are sets, the per-package rules are maps from package names, the
  locks are left out (every operation is one step). What a check reads of its surroundings is
  the record \<open>world\<close>: the file system, the scope cells of the thread, the terminal (whether
  there is one and the line the user would type), the clock and the process environment.
  Messages on standard error are not modelled.

  What these operations guarantee is proved in \<open>Permission_Policy\<close> and \<open>Local_Server\<close>.
\<close>

section \<open>Capabilities\<close>

datatype capability =
    FileRead path
  | FileWrite path
  | Network string
  | SpawnProcess
  | EnvAccess
  | EnvVar string
  | FFI path

fun caps_match :: "fs_env \<Rightarrow> capability \<Rightarrow> capability \<Rightarrow> bool" where
  "caps_match fs (FileRead allowed) (FileRead target) = path_covered_by fs target allowed"
| "caps_match fs (FileWrite allowed) (FileWrite target) = path_covered_by fs target allowed"
| "caps_match fs (Network allowed) (Network target) = host_matches allowed target"
| "caps_match fs EnvAccess EnvAccess = True"
| "caps_match fs EnvAccess (EnvVar _) = True"
| "caps_match fs (EnvVar a) (EnvVar b) = (a = b)"
| "caps_match fs (FFI allowed) (FFI target) = path_covered_by fs target allowed"
| "caps_match fs a b = (a = b)"

section \<open>State\<close>

record perm_state =
  granted :: "capability set"
  denied :: "capability set"
  scoped_granted :: "string \<rightharpoonup> capability set"
  scoped_denied :: "string \<rightharpoonup> capability set"
  interactive :: bool
  all_fs_denied :: bool
  all_net_denied :: bool
  all_env_denied :: bool
  all_process_denied :: bool
  audit_trail :: "audit_log option"
  audit_denied_only :: bool
  tally_order :: "capability list"
  tally_counts :: "capability \<rightharpoonup> nat"
  denied_binds :: "string list"
  trace_denials :: bool

record world =
  w_fs :: fs_env
  w_scope :: scope_state
  stdin_tty :: bool
  stdin_line :: "string option"
  utc_now :: timestamp
  env_vars :: "string \<rightharpoonup> string"

definition perm_new :: perm_state where
  "perm_new =
     \<lparr>granted = {}, denied = {}, scoped_granted = Map.empty, scoped_denied = Map.empty,
      interactive = False, all_fs_denied = False, all_net_denied = False, all_env_denied = False,
      all_process_denied = False, audit_trail = None, audit_denied_only = False,
      tally_order = [], tally_counts = Map.empty, denied_binds = [], trace_denials = False\<rparr>"

section \<open>Configuration\<close>

definition set_interactive :: "bool \<Rightarrow> perm_state \<Rightarrow> perm_state" where
  "set_interactive b s = s\<lparr>interactive := b\<rparr>"

definition grant :: "capability \<Rightarrow> perm_state \<Rightarrow> perm_state" where
  "grant cap s = s\<lparr>granted := insert cap (granted s)\<rparr>"

definition deny :: "capability \<Rightarrow> perm_state \<Rightarrow> perm_state" where
  "deny cap s = s\<lparr>denied := insert cap (denied s)\<rparr>"

definition add_rule :: "string \<Rightarrow> capability \<Rightarrow> (string \<rightharpoonup> capability set) \<Rightarrow> (string \<rightharpoonup> capability set)" where
  "add_rule scope cap m = m(scope \<mapsto> insert cap (case m scope of Some rules \<Rightarrow> rules | None \<Rightarrow> {}))"

definition grant_scoped ::
  "string \<Rightarrow> capability \<Rightarrow> perm_state \<Rightarrow> scope_state \<Rightarrow> perm_state \<times> scope_state" where
  "grant_scoped scope cap s sc =
     (if scope = ROOT_SCOPE then (grant cap s, sc)
      else (s\<lparr>scoped_granted := add_rule scope cap (scoped_granted s)\<rparr>, mark_scoped_rules_active sc))"

definition deny_scoped ::
  "string \<Rightarrow> capability \<Rightarrow> perm_state \<Rightarrow> scope_state \<Rightarrow> perm_state \<times> scope_state" where
  "deny_scoped scope cap s sc =
     (if scope = ROOT_SCOPE then (deny cap s, sc)
      else (s\<lparr>scoped_denied := add_rule scope cap (scoped_denied s)\<rparr>, mark_scoped_rules_active sc))"

definition deny_all_fs :: "perm_state \<Rightarrow> perm_state" where
  "deny_all_fs s = s\<lparr>all_fs_denied := True\<rparr>"

definition deny_all_net :: "perm_state \<Rightarrow> perm_state" where
  "deny_all_net s = s\<lparr>all_net_denied := True\<rparr>"

definition deny_all_env :: "perm_state \<Rightarrow> perm_state" where
  "deny_all_env s = s\<lparr>all_env_denied := True\<rparr>"

definition deny_all_process :: "perm_state \<Rightarrow> perm_state" where
  "deny_all_process s = s\<lparr>all_process_denied := True\<rparr>"

definition enable_audit :: "audit_log \<Rightarrow> bool \<Rightarrow> perm_state \<Rightarrow> perm_state" where
  "enable_audit log denied_only s = s\<lparr>audit_trail := Some log, audit_denied_only := denied_only\<rparr>"

definition list_granted :: "perm_state \<Rightarrow> capability set" where
  "list_granted s = granted s"

definition perm_clone :: "perm_state \<Rightarrow> perm_state" where
  "perm_clone s = s\<lparr>tally_order := [], tally_counts := Map.empty, denied_binds := []\<rparr>"

section \<open>Records of a run\<close>

definition record_denial :: "capability \<Rightarrow> perm_state \<Rightarrow> perm_state" where
  "record_denial cap s =
     (let hits = (case tally_counts s cap of Some n \<Rightarrow> n | None \<Rightarrow> 0); first = (hits = 0);
          s' = s\<lparr>tally_counts := (tally_counts s)(cap \<mapsto> hits + 1)\<rparr>
      in if first then s'\<lparr>tally_order := tally_order s' @ [cap]\<rparr> else s')"

definition record_bind_denial :: "string \<Rightarrow> perm_state \<Rightarrow> perm_state" where
  "record_bind_denial host s =
     (if host \<in> set (denied_binds s) then s else s\<lparr>denied_binds := denied_binds s @ [host]\<rparr>)"

definition denied_bind_hosts :: "perm_state \<Rightarrow> string list" where
  "denied_bind_hosts s = denied_binds s"

definition denials :: "perm_state \<Rightarrow> capability list" where
  "denials s = tally_order s"

text \<open>\<open>tally.counts[c]\<close> panics on a missing key: \<open>None\<close> is that panic.\<close>

definition denial_counts :: "perm_state \<Rightarrow> (capability \<times> nat) list option" where
  "denial_counts s = those (map (\<lambda>c. map_option (Pair c) (tally_counts s c)) (tally_order s))"

fun comp_str :: "component \<Rightarrow> string" where
  "comp_str RootDir = []"
| "comp_str CurDir = ''.''"
| "comp_str ParentDir = ''..''"
| "comp_str (Normal n) = n"

definition path_display :: "path \<Rightarrow> string" where
  "path_display p =
     (case p of RootDir # cs \<Rightarrow> ''/'' @ join ''/'' (map comp_str cs) | _ \<Rightarrow> join ''/'' (map comp_str p))"

fun audit_event_of :: "timestamp \<Rightarrow> capability \<Rightarrow> bool \<Rightarrow> audit_event" where
  "audit_event_of t (FileRead p) allowed = FileAccess t p ''read'' allowed"
| "audit_event_of t (FileWrite p) allowed = FileAccess t p ''write'' allowed"
| "audit_event_of t (Network h) allowed = NetworkAccess t h 0 allowed"
| "audit_event_of t SpawnProcess allowed = ProcessSpawn t ''*'' allowed"
| "audit_event_of t EnvAccess allowed = EnvAccessed t ''*'' allowed"
| "audit_event_of t (EnvVar v) allowed = EnvAccessed t v allowed"
| "audit_event_of t (FFI p) allowed =
     PermissionDenied t ''FFI'' (path_display p) (if allowed then ''allowed'' else ''not granted'')"

definition record_audit :: "world \<Rightarrow> capability \<Rightarrow> bool \<Rightarrow> perm_state \<Rightarrow> perm_state" where
  "record_audit w cap allowed s =
     (case audit_trail s of
        None \<Rightarrow> s
      | Some l \<Rightarrow>
          if audit_denied_only s \<and> allowed then s
          else s\<lparr>audit_trail := Some (add_event (audit_event_of (utc_now w) cap allowed) l)\<rparr>)"

section \<open>Checks\<close>

definition prompt_user :: "world \<Rightarrow> capability \<Rightarrow> perm_state \<Rightarrow> bool \<times> perm_state" where
  "prompt_user w required s =
     (if \<not> stdin_tty w then (False, deny required s)
      else (case stdin_line w of
              Some input \<Rightarrow>
                let choice = trim input
                in if map to_lower choice = ''y'' then (True, s)
                   else if choice = ''A'' then (True, grant required s)
                   else (False, deny required s)
            | None \<Rightarrow> (False, deny required s)))"

fun category_denied :: "perm_state \<Rightarrow> capability \<Rightarrow> bool" where
  "category_denied s (FileRead _) = all_fs_denied s"
| "category_denied s (FileWrite _) = all_fs_denied s"
| "category_denied s (Network _) = all_net_denied s"
| "category_denied s EnvAccess = all_env_denied s"
| "category_denied s (EnvVar _) = all_env_denied s"
| "category_denied s SpawnProcess = all_process_denied s"
| "category_denied s (FFI _) = False"

definition rules_hit :: "fs_env \<Rightarrow> capability set \<Rightarrow> capability \<Rightarrow> bool" where
  "rules_hit fs rules required = (\<exists>d\<in>rules. caps_match fs d required)"

definition scope_hit :: "fs_env \<Rightarrow> (string \<rightharpoonup> capability set) \<Rightarrow> capability \<Rightarrow> string \<Rightarrow> bool" where
  "scope_hit fs m required scope =
     (case m scope of Some rules \<Rightarrow> rules_hit fs rules required | None \<Rightarrow> False)"

definition check_inner :: "world \<Rightarrow> capability \<Rightarrow> perm_state \<Rightarrow> bool \<times> perm_state" where
  "check_inner w required s =
     (if category_denied s required then (False, s)
      else if rules_hit (w_fs w) (denied s) required then (False, s)
      else if scoped_denied s \<noteq> Map.empty \<and>
              list_ex (scope_hit (w_fs w) (scoped_denied s) required) (deny_scopes (w_scope w))
           then (False, s)
      else if rules_hit (w_fs w) (granted s) required then (True, s)
      else
        let scopes = package_scopes (w_scope w)
        in if scopes \<noteq> [] \<and> list_all (scope_hit (w_fs w) (scoped_granted s) required) scopes
           then (True, s)
           else if interactive s then prompt_user w required s
           else (False, s))"

text \<open>The guard on the map of deny rules is a shortcut; without it the check is evaluated.\<close>

lemma check_inner_code [code]:
  "check_inner w required s =
     (if category_denied s required then (False, s)
      else if rules_hit (w_fs w) (denied s) required then (False, s)
      else if list_ex (scope_hit (w_fs w) (scoped_denied s) required) (deny_scopes (w_scope w)) then (False, s)
      else if rules_hit (w_fs w) (granted s) required then (True, s)
      else
        let scopes = package_scopes (w_scope w)
        in if scopes \<noteq> [] \<and> list_all (scope_hit (w_fs w) (scoped_granted s) required) scopes
           then (True, s)
           else if interactive s then prompt_user w required s
           else (False, s))"
  unfolding check_inner_def by (auto simp: list_ex_iff scope_hit_def)

definition check :: "world \<Rightarrow> capability \<Rightarrow> perm_state \<Rightarrow> bool \<times> perm_state" where
  "check w required s =
     (let (result, s1) = check_inner w required s;
          s2 = (if \<not> result then record_denial required s1 else s1)
      in (result, record_audit w required result s2))"

definition check_quiet :: "world \<Rightarrow> capability \<Rightarrow> perm_state \<Rightarrow> bool \<times> perm_state" where
  "check_quiet w required s = check_inner w required s"

definition audit_env_read :: "world \<Rightarrow> string \<Rightarrow> perm_state \<Rightarrow> perm_state" where
  "audit_env_read w variable s =
     (if audit_trail s = None \<or> audit_denied_only s then s
      else let cap = EnvVar variable; (allowed, s1) = check_inner w cap s
           in record_audit w cap allowed s1)"

definition request_env_var :: "world \<Rightarrow> string \<Rightarrow> perm_state \<Rightarrow> string option \<times> perm_state" where
  "request_env_var w variable s =
     (case env_vars w variable of
        None \<Rightarrow> (None, s)
      | Some value \<Rightarrow>
          let (ok, s1) = check w (EnvVar variable) s in (if ok then Some value else None, s1))"

section \<open>Outgoing addresses and local servers\<close>

text \<open>A socket address is its IP address as \<open>Display\<close> prints it, and its port.\<close>

type_synonym socket_addr = "string \<times> nat"

datatype addr_error = ResolveFailed | AllDenied

definition addr_denied :: "world \<Rightarrow> perm_state \<Rightarrow> socket_addr \<Rightarrow> bool" where
  "addr_denied w s addr =
     (let ip = fst addr; caps = [Network ip, Network (authority ip (snd addr))];
          hit = (\<lambda>rules. list_ex (rules_hit (w_fs w) rules) caps)
      in if hit (denied s) then True
         else scoped_denied s \<noteq> Map.empty \<and>
              list_ex (\<lambda>sc. case scoped_denied s sc of Some rules \<Rightarrow> hit rules | None \<Rightarrow> False)
                (deny_scopes (w_scope w)))"

definition strip_brackets :: "string \<Rightarrow> string" where
  "strip_brackets host =
     rev (dropWhile (\<lambda>c. c = CHR '']'') (rev (dropWhile (\<lambda>c. c = CHR ''['') host)))"

text \<open>Name resolution (\<open>to_socket_addrs\<close>) is a parameter: \<open>None\<close> is its I/O error.\<close>

definition vetted_addrs ::
  "(string \<Rightarrow> nat \<Rightarrow> socket_addr list option) \<Rightarrow> world \<Rightarrow> perm_state \<Rightarrow> string \<Rightarrow> nat \<Rightarrow>
     addr_error + socket_addr list" where
  "vetted_addrs resolve w s host port =
     (case resolve (strip_brackets host) port of
        None \<Rightarrow> Inl ResolveFailed
      | Some all \<Rightarrow>
          let allowed = filter (\<lambda>a. \<not> addr_denied w s a) all
          in if allowed = [] \<and> all \<noteq> [] then Inl AllDenied else Inr allowed)"

definition is_local_bind_host :: "string \<Rightarrow> bool" where
  "is_local_bind_host host \<longleftrightarrow>
     host \<in> set [''0.0.0.0'', ''::'', ''127.0.0.1'', ''::1'', ''localhost'']"

fun is_network :: "capability \<Rightarrow> bool" where
  "is_network (Network _) = True"
| "is_network _ = False"

fun grants_all_interfaces :: "capability \<Rightarrow> bool" where
  "grants_all_interfaces (Network h) = (h \<in> set [''*'', ''0.0.0.0'', ''::''])"
| "grants_all_interfaces _ = False"

definition bind_host :: "world \<Rightarrow> string \<Rightarrow> perm_state \<Rightarrow> string option \<times> perm_state" where
  "bind_host w host s =
     (let required = Network host
      in if all_net_denied s then
           (None, record_audit w required False (record_bind_denial host s))
         else if rules_hit (w_fs w) (denied s) required then
           (None, record_audit w required False (record_bind_denial host s))
         else
           let any_net = (\<exists>g\<in>granted s. is_network g);
               all_interfaces = (\<exists>g\<in>granted s. grants_all_interfaces g)
           in if any_net \<and> host \<in> set [''127.0.0.1'', ''::1'', ''localhost''] then
                (Some host, record_audit w required True s)
              else if is_local_bind_host host \<and> all_interfaces then
                (Some host, record_audit w required True s)
              else if is_local_bind_host host \<and> any_net then
                (Some (if host = ''::'' then ''::1'' else ''127.0.0.1''),
                 record_audit w required True s)
              else
                let (allowed, s1) = check_inner w required s;
                    s2 = (if \<not> allowed then record_bind_denial host s1 else s1)
                in (if allowed then Some host else None, record_audit w required allowed s2))"

definition check_bind :: "world \<Rightarrow> string \<Rightarrow> perm_state \<Rightarrow> bool \<times> perm_state" where
  "check_bind w host s = (let (r, s1) = bind_host w host s in (r \<noteq> None, s1))"

section \<open>What is shown to the user\<close>

fun grant_flag :: "capability \<Rightarrow> string" where
  "grant_flag (FileRead p) = ''--allow-read='' @ path_display p"
| "grant_flag (FileWrite p) = ''--allow-write='' @ path_display p"
| "grant_flag (Network h) = ''--allow-net='' @ h"
| "grant_flag (EnvVar v) = ''--allow-env='' @ v"
| "grant_flag EnvAccess = ''--allow-env''"
| "grant_flag SpawnProcess = ''--allow-child-process''"
| "grant_flag (FFI p) = ''--allow-ffi='' @ path_display p"

fun describe_capability :: "capability \<Rightarrow> string" where
  "describe_capability (FileRead p) = ''read '' @ path_display p"
| "describe_capability (FileWrite p) = ''write '' @ path_display p"
| "describe_capability (Network h) = ''connect to '' @ h"
| "describe_capability (EnvVar v) = ''read environment variable '' @ v"
| "describe_capability EnvAccess = ''read environment variables''"
| "describe_capability SpawnProcess = ''spawn a child process''"
| "describe_capability (FFI p) = ''load native library '' @ path_display p"

fun manifest_key :: "capability \<Rightarrow> string" where
  "manifest_key (FileRead _) = ''allow-read''"
| "manifest_key (FileWrite _) = ''allow-write''"
| "manifest_key (Network _) = ''allow-net''"
| "manifest_key (EnvVar _) = ''allow-env''"
| "manifest_key EnvAccess = ''allow-env''"
| "manifest_key SpawnProcess = ''allow-child-process''"
| "manifest_key (FFI _) = ''allow-ffi''"

end
