(* ===== verification/Step_System.thy ===== *)
theory Step_System
  imports Main
begin

text \<open>
  The interface of the components that are state machines: an initial condition, a step
  relation and an invariant that holds initially and is kept by every step. What a client
  gets from it is that the invariant holds in every state reached by any number of steps, and
  that a quantity no step changes is the same at the end as at the start.
\<close>

locale step_invariant =
  fixes init :: "'s \<Rightarrow> bool"
    and step :: "'s \<Rightarrow> 's \<Rightarrow> bool"
    and inv :: "'s \<Rightarrow> bool"
  assumes init_inv: "init s \<Longrightarrow> inv s"
    and step_inv: "inv s \<Longrightarrow> step s t \<Longrightarrow> inv t"
begin

lemma steps_inv: "step\<^sup>*\<^sup>* s t \<Longrightarrow> inv s \<Longrightarrow> inv t"
  by (induction rule: rtranclp_induct) (auto intro: step_inv)

lemma reachable_inv: "init s \<Longrightarrow> step\<^sup>*\<^sup>* s t \<Longrightarrow> inv t"
  by (blast intro: steps_inv init_inv)

end

text \<open>A relation between a state and what it has become that composes along steps: every step
  keeps it, so a run keeps it.\<close>

locale step_relation =
  fixes step :: "'s \<Rightarrow> 's \<Rightarrow> bool"
    and rel :: "'s \<Rightarrow> 's \<Rightarrow> bool"
  assumes rel_refl: "rel s s"
    and rel_trans: "rel s t \<Longrightarrow> rel t u \<Longrightarrow> rel s u"
    and rel_step: "step s t \<Longrightarrow> rel s t"
begin

lemma steps_rel: "step\<^sup>*\<^sup>* s t \<Longrightarrow> rel s t"
  by (induction rule: rtranclp_induct) (auto intro: rel_refl rel_trans rel_step)

end

end
