(* ===== verification/Permission_Policy.thy ===== *)
theory Permission_Policy
  imports Permissions Step_System
begin

text \<open>
  Correctness of the permission checks of \<open>Permissions\<close>: the abstract policy and its
  refinement by \<open>check_inner\<close>, the behaviour of a running script as a step relation, and the
  properties of checks that follow from them.
\<close>

section \<open>The abstract policy\<close>

definition deny_applies :: "world \<Rightarrow> perm_state \<Rightarrow> capability \<Rightarrow> bool" where
  "deny_applies w s cap \<longleftrightarrow>
     category_denied s cap \<or>
     (\<exists>d\<in>denied s. caps_match (w_fs w) d cap) \<or>
     (\<exists>p\<in>set (deny_scopes (w_scope w)). \<exists>rules. scoped_denied s p = Some rules \<and>
        (\<exists>d\<in>rules. caps_match (w_fs w) d cap))"

definition holds_grant :: "world \<Rightarrow> perm_state \<Rightarrow> capability \<Rightarrow> string \<Rightarrow> bool" where
  "holds_grant w s cap p \<longleftrightarrow>
     (\<exists>rules. scoped_granted s p = Some rules \<and> (\<exists>g\<in>rules. caps_match (w_fs w) g cap))"

definition grant_applies :: "world \<Rightarrow> perm_state \<Rightarrow> capability \<Rightarrow> bool" where
  "grant_applies w s cap \<longleftrightarrow>
     (\<exists>g\<in>granted s. caps_match (w_fs w) g cap) \<or>
     (package_scopes (w_scope w) \<noteq> [] \<and>
      (\<forall>p\<in>set (package_scopes (w_scope w)). holds_grant w s cap p))"

datatype verdict = Deny | Allow | Ask

definition policy :: "world \<Rightarrow> perm_state \<Rightarrow> capability \<Rightarrow> verdict" where
  "policy w s cap =
     (if deny_applies w s cap then Deny
      else if grant_applies w s cap then Allow
      else if interactive s then Ask
      else Deny)"

lemma scope_hit_iff:
  "scope_hit fs m cap p \<longleftrightarrow> (\<exists>rules. m p = Some rules \<and> (\<exists>d\<in>rules. caps_match fs d cap))"
  by (auto simp: scope_hit_def rules_hit_def split: option.splits)

lemma scoped_deny_iff:
  "(m \<noteq> Map.empty \<and> list_ex (scope_hit fs m cap) ps) \<longleftrightarrow>
   (\<exists>p\<in>set ps. \<exists>rules. m p = Some rules \<and> (\<exists>d\<in>rules. caps_match fs d cap))"
  by (auto simp: list_ex_iff scope_hit_iff)

lemma check_inner_policy:
  "check_inner w cap s =
     (case policy w s cap of
        Deny \<Rightarrow> (False, s) | Allow \<Rightarrow> (True, s) | Ask \<Rightarrow> prompt_user w cap s)"
proof -
  have g: "rules_hit (w_fs w) (granted s) cap \<or>
      (package_scopes (w_scope w) \<noteq> [] \<and>
       list_all (scope_hit (w_fs w) (scoped_granted s) cap) (package_scopes (w_scope w)))
    \<longleftrightarrow> grant_applies w s cap"
    by (auto simp: grant_applies_def holds_grant_def list_all_iff scope_hit_iff rules_hit_def)
  have d: "category_denied s cap \<or> rules_hit (w_fs w) (denied s) cap \<or>
      (scoped_denied s \<noteq> Map.empty \<and>
       list_ex (scope_hit (w_fs w) (scoped_denied s) cap) (deny_scopes (w_scope w)))
    \<longleftrightarrow> deny_applies w s cap"
    unfolding scoped_deny_iff by (auto simp: deny_applies_def rules_hit_def)
  show ?thesis
    unfolding check_inner_def policy_def Let_def using g d by (auto split: if_splits)
qed

section \<open>Frame lemmas\<close>

text \<open>The configuration of a state: everything a check reads.\<close>

definition same_config :: "perm_state \<Rightarrow> perm_state \<Rightarrow> bool" where
  "same_config s t \<longleftrightarrow>
     granted t = granted s \<and> denied t = denied s \<and> scoped_granted t = scoped_granted s \<and>
     scoped_denied t = scoped_denied s \<and> interactive t = interactive s \<and>
     all_fs_denied t = all_fs_denied s \<and> all_net_denied t = all_net_denied s \<and>
     all_env_denied t = all_env_denied s \<and> all_process_denied t = all_process_denied s"

lemma same_config_refl [simp]: "same_config s s"
  by (simp add: same_config_def)

lemma same_config_trans: "same_config s t \<Longrightarrow> same_config t u \<Longrightarrow> same_config s u"
  by (simp add: same_config_def)

lemma record_audit_config [simp]: "same_config s (record_audit w cap b t) = same_config s t"
  by (simp add: record_audit_def same_config_def split: option.split)

lemma record_denial_config [simp]: "same_config s (record_denial cap t) = same_config s t"
  by (simp add: record_denial_def same_config_def Let_def)

lemma record_bind_denial_config [simp]:
  "same_config s (record_bind_denial h t) = same_config s t"
  by (simp add: record_bind_denial_def same_config_def)

lemma record_audit_frame [simp]:
  "tally_order (record_audit w cap b s) = tally_order s"
  "tally_counts (record_audit w cap b s) = tally_counts s"
  "denied_binds (record_audit w cap b s) = denied_binds s"
  by (simp_all add: record_audit_def split: option.split)

lemma record_bind_denial_frame [simp]:
  "tally_order (record_bind_denial h s) = tally_order s"
  "tally_counts (record_bind_denial h s) = tally_counts s"
  by (simp_all add: record_bind_denial_def)

lemma prompt_user_frame:
  "prompt_user w cap s = (b, t) \<Longrightarrow>
     t = s \<or> t = deny cap s \<or> t = grant cap s"
  by (auto simp: prompt_user_def Let_def split: if_splits option.splits)

lemma check_inner_not_interactive:
  "\<not> interactive s \<Longrightarrow> check_inner w cap s = (\<not> deny_applies w s cap \<and> grant_applies w s cap, s)"
  by (simp add: check_inner_policy policy_def)

lemma check_inner_cases:
  assumes "check_inner w cap s = (b, t)"
  obtains "t = s" | "t = deny cap s" "\<not> b" | "t = grant cap s" b
  using assms that
  by (auto simp: check_inner_policy prompt_user_def Let_def split: verdict.splits if_splits option.splits)

lemma fst_check: "fst (check w cap s) = fst (check_inner w cap s)"
  by (simp add: check_def split: prod.split)

section \<open>A running script\<close>

text \<open>
  What a script can make the runtime do to the permission state: any of the checks, in any
  surroundings (it chooses when files change, which code is on the stack, what it writes
  into the current scope, and the user answers the prompts as he likes).
\<close>

inductive script_step :: "perm_state \<Rightarrow> perm_state \<Rightarrow> bool" where
  do_check: "script_step s (snd (check w cap s))"
| do_check_quiet: "script_step s (snd (check_quiet w cap s))"
| do_bind: "script_step s (snd (bind_host w host s))"
| do_env_audit: "script_step s (audit_env_read w var s)"
| do_env_request: "script_step s (snd (request_env_var w var s))"

lemma check_config: "\<not> interactive s \<Longrightarrow> same_config s (snd (check w cap s))"
  by (simp add: check_def check_inner_not_interactive)

lemma bind_host_config: "\<not> interactive s \<Longrightarrow> same_config s (snd (bind_host w h s))"
  by (simp add: bind_host_def Let_def check_inner_not_interactive)

lemma script_step_config: "script_step s t \<Longrightarrow> \<not> interactive s \<Longrightarrow> same_config s t"
proof (induction rule: script_step.induct)
  case (do_env_audit s w var)
  then show ?case by (simp add: audit_env_read_def check_inner_not_interactive Let_def)
next
  case (do_env_request s w var)
  then show ?case
    using check_config [of s w "EnvVar var"]
    by (cases "check w (EnvVar var) s") (simp add: request_env_var_def split: option.split)
qed (simp_all add: check_config bind_host_config check_quiet_def check_inner_not_interactive)

definition keeps_config :: "perm_state \<Rightarrow> perm_state \<Rightarrow> bool" where
  "keeps_config s t \<longleftrightarrow> (\<not> interactive s \<longrightarrow> same_config s t)"

interpretation script_config: step_relation script_step keeps_config
proof unfold_locales
  show "keeps_config s s" for s by (simp add: keeps_config_def)
  show "keeps_config s u" if "keeps_config s t" "keeps_config t u" for s t u
    using that by (auto simp: keeps_config_def same_config_def)
  show "keeps_config s t" if "script_step s t" for s t
    using that script_step_config by (auto simp: keeps_config_def)
qed

subsection \<open>The tally\<close>

definition tally_ok :: "perm_state \<Rightarrow> bool" where
  "tally_ok s \<longleftrightarrow> distinct (tally_order s) \<and> dom (tally_counts s) = set (tally_order s) \<and>
     (\<forall>c n. tally_counts s c = Some n \<longrightarrow> 0 < n)"

lemma tally_ok_record_audit [simp]: "tally_ok (record_audit w cap b s) = tally_ok s"
  by (simp add: tally_ok_def)

lemma tally_ok_record_bind [simp]: "tally_ok (record_bind_denial h s) = tally_ok s"
  by (simp add: tally_ok_def)

lemma tally_ok_grant_deny [simp]:
  "tally_ok (grant cap s) = tally_ok s" "tally_ok (deny cap s) = tally_ok s"
  by (simp_all add: tally_ok_def grant_def deny_def)

lemma tally_ok_record_denial: "tally_ok s \<Longrightarrow> tally_ok (record_denial cap s)"
proof -
  assume ok: "tally_ok s"
  show ?thesis
  proof (cases "tally_counts s cap")
    case None
    then have "cap \<notin> set (tally_order s)" using ok by (auto simp: tally_ok_def)
    with ok None show ?thesis by (auto simp: tally_ok_def record_denial_def Let_def)
  next
    case (Some n)
    then have "0 < n" "cap \<in> set (tally_order s)" using ok by (auto simp: tally_ok_def)
    with ok Some show ?thesis by (auto simp: tally_ok_def record_denial_def Let_def)
  qed
qed

lemma tally_ok_check_inner: "tally_ok s \<Longrightarrow> tally_ok (snd (check_inner w cap s))"
  by (cases "check_inner w cap s") (auto elim!: check_inner_cases)

lemma tally_ok_check: "tally_ok s \<Longrightarrow> tally_ok (snd (check w cap s))"
  using tally_ok_check_inner [of s w cap]
  by (cases "check_inner w cap s") (simp add: check_def tally_ok_record_denial)

lemma tally_ok_bind: "tally_ok s \<Longrightarrow> tally_ok (snd (bind_host w h s))"
  using tally_ok_check_inner [of s w "Network h"]
  by (cases "check_inner w (Network h) s") (simp add: bind_host_def Let_def)

lemma script_step_tally: "script_step s t \<Longrightarrow> tally_ok s \<Longrightarrow> tally_ok t"
proof (induction rule: script_step.induct)
  case (do_env_audit s w var)
  then show ?case using tally_ok_check_inner [of s w "EnvVar var"]
    by (cases "check_inner w (EnvVar var) s") (simp add: audit_env_read_def Let_def)
next
  case (do_env_request s w var)
  then show ?case using tally_ok_check [of s w "EnvVar var"]
    by (cases "check w (EnvVar var) s") (simp add: request_env_var_def split: option.split)
qed (simp_all add: tally_ok_check tally_ok_bind tally_ok_check_inner check_quiet_def)

interpretation script_tally: step_invariant "\<lambda>s. s = perm_clone s" script_step tally_ok
proof unfold_locales
  show "tally_ok s" if "s = perm_clone s" for s
    by (subst that) (simp add: tally_ok_def perm_clone_def)
  show "tally_ok t" if "tally_ok s" "script_step s t" for s t
    using that script_step_tally by blast
qed

lemma those_Some_map:
  "(\<And>x. x \<in> set xs \<Longrightarrow> f x \<noteq> None) \<Longrightarrow> those (map f xs) = Some (map (\<lambda>x. the (f x)) xs)"
  by (induction xs) (auto split: option.split)

lemma denial_counts_total:
  "tally_ok s \<Longrightarrow> denial_counts s = Some (map (\<lambda>c. (c, the (tally_counts s c))) (tally_order s))"
proof -
  assume ok: "tally_ok s"
  have "those (map (\<lambda>c. map_option (Pair c) (tally_counts s c)) (tally_order s)) =
    Some (map (\<lambda>c. the (map_option (Pair c) (tally_counts s c))) (tally_order s))"
    using ok by (intro those_Some_map) (auto simp: tally_ok_def)
  moreover have "the (map_option (Pair c) (tally_counts s c)) = (c, the (tally_counts s c))"
    if "c \<in> set (tally_order s)" for c
  proof -
    from ok that have "c \<in> dom (tally_counts s)" by (simp add: tally_ok_def)
    then show ?thesis by auto
  qed
  ultimately show ?thesis by (simp add: denial_counts_def)
qed

section \<open>Lemmas for the properties\<close>

lemma same_config_policy: "same_config s t \<Longrightarrow> policy w t cap = policy w s cap"
proof -
  assume c: "same_config s t"
  then have "category_denied t cap = category_denied s cap"
    by (cases cap) (simp_all add: same_config_def)
  with c have "deny_applies w t cap = deny_applies w s cap"
    and "grant_applies w t cap = grant_applies w s cap"
    unfolding same_config_def deny_applies_def grant_applies_def holds_grant_def by simp_all
  with c show ?thesis by (simp add: same_config_def policy_def)
qed

lemma same_config_prompt: "same_config s t \<Longrightarrow> fst (prompt_user w cap t) = fst (prompt_user w cap s)"
  by (auto simp: prompt_user_def Let_def split: option.split)

lemma fst_check_policy:
  "fst (check w cap s) =
     (case policy w s cap of Deny \<Rightarrow> False | Allow \<Rightarrow> True | Ask \<Rightarrow> fst (prompt_user w cap s))"
  by (simp add: fst_check check_inner_policy split: verdict.split)

lemma same_config_check: "same_config s t \<Longrightarrow> fst (check w cap t) = fst (check w cap s)"
  by (simp add: fst_check_policy same_config_policy same_config_prompt split: verdict.split)

lemma record_denial_count:
  "tally_counts (record_denial cap s) cap =
     Some (Suc (case tally_counts s cap of Some n \<Rightarrow> n | None \<Rightarrow> 0))"
  by (simp add: record_denial_def Let_def)

text \<open>Surroundings used by the witnesses: no file system, one package on the stack.\<close>

definition demo_world :: "string list \<Rightarrow> string \<Rightarrow> world" where
  "demo_world stack cur =
     \<lparr>w_fs = \<lparr>cwd = None, canon = (\<lambda>_. None)\<rparr>,
      w_scope = \<lparr>current_raw = cur, stack_resolver = Some stack, inherited_scopes = [], rules_active = True\<rparr>,
      stdin_tty = False, stdin_line = None, utc_now = 0, env_vars = Map.empty\<rparr>"

lemma demo_world_scopes [simp]:
  "set (package_scopes (w_scope (demo_world stack cur))) = set stack"
  "w_fs (demo_world stack cur) = \<lparr>cwd = None, canon = (\<lambda>_. None)\<rparr>"
  "stack_resolver (w_scope (demo_world stack cur)) = Some stack"
  "rules_active (w_scope (demo_world stack cur))"
  "inherited_scopes (w_scope (demo_world stack cur)) = []"
  by (simp_all add: demo_world_def set_package_scopes)

lemma host_matches_star [simp]: "host_matches ''*'' h"
  by (simp add: host_matches_def)

section \<open>Properties\<close>

text \<open>
  Claim C1 (refinement). The decision of \<open>check\<close> is the one of the abstract policy on every
  input: a category deny, a global deny rule or a deny rule of any package involved refuses;
  otherwise a global grant, or a grant held by every package involved, allows; otherwise the
  user is asked in interactive mode; otherwise the request is refused.
\<close>
theorem check_refines_policy:
  "fst (check w cap s) =
     (case policy w s cap of Deny \<Rightarrow> False | Allow \<Rightarrow> True | Ask \<Rightarrow> fst (prompt_user w cap s))"
  by (rule fst_check_policy)

text \<open>
  Claim C2 (safety). Denial wins: when a deny rule applies, \<open>check\<close> refuses whatever is granted
  and whatever the user would answer, the rules are left as they are, and the refusal is counted
  in the tally.
\<close>
theorem denial_wins:
  assumes "deny_applies w s cap"
  shows "\<not> fst (check w cap s) \<and> same_config s (snd (check w cap s)) \<and>
    tally_counts (snd (check w cap s)) cap =
      Some (Suc (case tally_counts s cap of Some n \<Rightarrow> n | None \<Rightarrow> 0))"
proof -
  have inner: "check_inner w cap s = (False, s)"
    using assms by (simp add: check_inner_policy policy_def)
  then have "check w cap s = (False, record_audit w cap False (record_denial cap s))"
    by (simp add: check_def)
  then show ?thesis by (simp add: record_denial_count)
qed

theorem denial_wins_witness:
  "\<not> fst (check (demo_world [] []) SpawnProcess (grant SpawnProcess (deny_all_process perm_new)))"
proof -
  have "deny_applies (demo_world [] []) (grant SpawnProcess (deny_all_process perm_new)) SpawnProcess"
    by (simp add: deny_applies_def grant_def deny_all_process_def)
  then show ?thesis using denial_wins by blast
qed

text \<open>
  A package cannot borrow another one's grant: with the engine's stack
  resolver installed, if some package with code on the stack, or carried over from where the
  work was scheduled, holds no grant for the capability, and the capability is not granted to
  the whole program, a non-interactive check refuses, whatever the other packages hold.
\<close>
theorem no_borrowed_grant:
  assumes "stack_resolver (w_scope w) = Some stack" and "rules_active (w_scope w)"
    and "p \<in> set stack \<union> set (inherited_scopes (w_scope w))"
    and "\<not> holds_grant w s cap p"
    and "\<not> (\<exists>g\<in>granted s. caps_match (w_fs w) g cap)"
    and "\<not> interactive s"
  shows "\<not> fst (check w cap s)"
proof -
  have "p \<in> set (package_scopes (w_scope w))" using assms(1-3) by (simp add: set_package_scopes)
  with assms(4,5) have "\<not> grant_applies w s cap" by (auto simp: grant_applies_def)
  with assms(6) show ?thesis by (simp add: fst_check_policy policy_def)
qed

text \<open>
  Claim C6 (safety). What JavaScript writes into the current-scope cell can only add denials:
  with a stack resolver installed, a request that a non-interactive check allows under any
  forged scope is allowed under the application's own scope too.
\<close>
theorem forged_scope_gains_nothing:
  assumes "stack_resolver (w_scope w) \<noteq> None" and "\<not> interactive s"
    and "fst (check (w\<lparr>w_scope := (w_scope w)\<lparr>current_raw := forged\<rparr>\<rparr>) cap s)"
  shows "fst (check (w\<lparr>w_scope := set_current_scope ROOT_SCOPE (w_scope w)\<rparr>) cap s)"
proof -
  let ?f = "w\<lparr>w_scope := (w_scope w)\<lparr>current_raw := forged\<rparr>\<rparr>"
  let ?r = "w\<lparr>w_scope := set_current_scope ROOT_SCOPE (w_scope w)\<rparr>"
  have r: "w_scope ?r = (w_scope w)\<lparr>current_raw := []\<rparr>" by (simp add: set_current_scope_def)
  have pk: "package_scopes (w_scope ?f) = package_scopes (w_scope ?r)"
    unfolding r using assms(1) package_scopes_ignore_current by simp
  have "set (deny_scopes (w_scope ?r)) = set (package_scopes (w_scope ?r))"
    unfolding set_deny_scopes by (simp add: r current_scope_def)
  then have sub: "set (deny_scopes (w_scope ?r)) \<subseteq> set (deny_scopes (w_scope ?f))"
    unfolding set_deny_scopes pk by blast
  from assms(2,3) have f: "\<not> deny_applies ?f s cap" "grant_applies ?f s cap"
    by (simp_all add: fst_check_policy policy_def split: if_splits)
  have "\<not> deny_applies ?r s cap" using f(1) sub unfolding deny_applies_def by (simp, blast)
  moreover have "grant_applies ?r s cap"
    using f(2) pk by (simp add: grant_applies_def holds_grant_def)
  ultimately show ?thesis by (simp add: fst_check_policy policy_def)
qed

theorem forged_scope_gains_nothing_witness:
  "fst (check (demo_world [''axios''] []) (Network ''a.io'')
      (fst (grant_scoped ''axios'' (Network ''*'') perm_new init_scope_state)))"
proof -
  let ?w = "demo_world [''axios''] ''axios''"
  let ?s = "fst (grant_scoped ''axios'' (Network ''*'') perm_new init_scope_state)"
  have s: "\<not> interactive ?s" "denied ?s = {}" "scoped_denied ?s = Map.empty" "\<not> all_net_denied ?s"
    "scoped_granted ?s ''axios'' = Some {Network ''*''}"
    by (simp_all add: grant_scoped_def perm_new_def ROOT_SCOPE_def add_rule_def)
  have w: "?w\<lparr>w_scope := (w_scope ?w)\<lparr>current_raw := ''axios''\<rparr>\<rparr> = ?w"
    "?w\<lparr>w_scope := set_current_scope ROOT_SCOPE (w_scope ?w)\<rparr> = demo_world [''axios''] []"
    by (simp_all add: demo_world_def set_current_scope_def)
  have ne: "package_scopes (w_scope ?w) \<noteq> []"
    using demo_world_scopes(1) [of "[''axios'']" "''axios''"] by (metis list.set(1) list.set(2) insert_not_empty)
  then have g: "grant_applies ?w ?s (Network ''a.io'')"
    using s by (simp add: grant_applies_def holds_grant_def)
  have "\<not> deny_applies ?w ?s (Network ''a.io'')" using s by (simp add: deny_applies_def)
  with g have "fst (check ?w (Network ''a.io'') ?s)" by (simp add: fst_check_policy policy_def)
  then show ?thesis
    using forged_scope_gains_nothing [of ?w ?s "''axios''" "Network ''a.io''"] s(1) w by simp
qed

text \<open>
  Claim C5 (invariant). A running script cannot change what it is allowed to do: after any
  sequence of checks, environment reads and attempts to listen, in any surroundings, a
  non-interactive state has the same rules as before, so every later request gets the decision it
  would have got at the start.
\<close>
theorem script_cannot_widen:
  assumes "script_step\<^sup>*\<^sup>* s t" and "\<not> interactive s"
  shows "same_config s t \<and> fst (check w cap t) = fst (check w cap s)"
proof
  show c: "same_config s t"
    using script_config.steps_rel [OF assms(1)] assms(2) by (simp add: keeps_config_def)
  show "fst (check w cap t) = fst (check w cap s)" using c by (rule same_config_check)
qed

theorem script_cannot_widen_witness:
  "\<not> fst (check (demo_world [] []) SpawnProcess
       (snd (check (demo_world [] []) SpawnProcess perm_new)))"
proof -
  let ?w = "demo_world [] []"
  have step: "script_step\<^sup>*\<^sup>* perm_new (snd (check ?w SpawnProcess perm_new))"
    by (rule r_into_rtranclp) (rule script_step.do_check)
  have n: "\<not> interactive perm_new" by (simp add: perm_new_def)
  have "package_scopes (w_scope ?w) = []"
    using demo_world_scopes(1) [of "[]" "[]"] unfolding list.set(1) set_empty .
  then have "\<not> fst (check ?w SpawnProcess perm_new)"
    by (simp add: fst_check_policy policy_def grant_applies_def perm_new_def)
  then show ?thesis using script_cannot_widen [OF step n, of ?w SpawnProcess] by simp
qed

text \<open>
  The denial summary of a run never panics and is exact in shape: from a
  fresh clone of any state, after any sequence of script actions, \<open>denial_counts\<close> returns one
  entry per refused capability, in the order of first refusal, without duplicates, each with a
  positive count.
\<close>
theorem denial_counts_never_panics:
  assumes "script_step\<^sup>*\<^sup>* (perm_clone s) t"
  shows "\<exists>l. denial_counts t = Some l \<and> map fst l = denials t \<and> distinct (denials t) \<and>
           (\<forall>c n. (c, n) \<in> set l \<longrightarrow> 0 < n)"
proof -
  have ok: "tally_ok t"
    using script_tally.reachable_inv [OF _ assms] by (simp add: perm_clone_def)
  have pos: "0 < the (tally_counts t c)" if "c \<in> set (tally_order t)" for c
  proof -
    from ok that have "c \<in> dom (tally_counts t)" by (simp add: tally_ok_def)
    then obtain n where "tally_counts t c = Some n" by blast
    with ok show ?thesis by (simp add: tally_ok_def)
  qed
  show ?thesis
    using denial_counts_total [OF ok] ok pos by (auto simp: denials_def tally_ok_def comp_def)
qed

text \<open>
  With an audit log attached, every check appends exactly one event,
  which records the decision that was returned; in denied-only mode an allowed check appends
  nothing. No earlier event is lost or changed.
\<close>
theorem audit_records_every_check:
  assumes "audit_trail s = Some l"
  shows "audit_trail (snd (check w cap s)) =
           Some (if audit_denied_only s \<and> fst (check w cap s) then l
                 else l @ [audit_event_of (utc_now w) cap (fst (check w cap s))]) \<and>
         event_allowed (audit_event_of (utc_now w) cap (fst (check w cap s))) = fst (check w cap s)"
proof
  obtain b t where bt: "check_inner w cap s = (b, t)" by (cases "check_inner w cap s")
  have "audit_trail t = Some l" "audit_denied_only t = audit_denied_only s"
    using bt assms by (auto elim!: check_inner_cases simp: grant_def deny_def)
  then show "audit_trail (snd (check w cap s)) =
           Some (if audit_denied_only s \<and> fst (check w cap s) then l
                 else l @ [audit_event_of (utc_now w) cap (fst (check w cap s))])"
    by (auto simp: check_def bt record_audit_def record_denial_def Let_def add_event_def)
  show "event_allowed (audit_event_of (utc_now w) cap (fst (check w cap s))) = fst (check w cap s)"
    by (cases cap) simp_all
qed

end
