(* ===== verification/Local_Server.thy ===== *)
theory Local_Server
  imports Permission_Policy
begin

text \<open>
  Properties of the two network entry points of \<open>PermissionState\<close> that do not go through
  \<open>check\<close>: \<open>bind_host\<close>, which decides where a server may listen, and \<open>vetted_addrs\<close>, which
  resolves a name once and filters the addresses (both in
  \<open>crates/permissions/src/capability.rs\<close>).
\<close>

section \<open>Lemmas\<close>

lemma local_host_literals:
  "is_local_bind_host ''0.0.0.0''" "is_local_bind_host ''::''"
  by (simp_all add: is_local_bind_host_def)

lemma grants_all_interfaces_network: "grants_all_interfaces g \<Longrightarrow> is_network g"
  by (cases g) simp_all

lemma caps_match_network: "caps_match fs g (Network h) \<Longrightarrow> is_network g"
  by (cases g) simp_all

lemma grant_applies_without_network:
  assumes "grant_applies w s (Network h)" and "\<not> (\<exists>g\<in>granted s. is_network g)"
  shows "package_scopes (w_scope w) \<noteq> []"
    and "\<forall>p\<in>set (package_scopes (w_scope w)). holds_grant w s (Network h) p"
  using assms caps_match_network by (auto simp: grant_applies_def)

lemma wildcard_not_loopback:
  "h \<in> {''0.0.0.0'', ''::''} \<Longrightarrow> h \<notin> set [''127.0.0.1'', ''::1'', ''localhost'']"
  by auto

text \<open>The answer of \<open>bind_host\<close>, without the records it keeps.\<close>

lemma fst_bind_host:
  "fst (bind_host w h s) =
     (if all_net_denied s then None
      else if rules_hit (w_fs w) (denied s) (Network h) then None
      else if (\<exists>g\<in>granted s. is_network g) \<and> h \<in> set [''127.0.0.1'', ''::1'', ''localhost''] then Some h
      else if is_local_bind_host h \<and> (\<exists>g\<in>granted s. grants_all_interfaces g) then Some h
      else if is_local_bind_host h \<and> (\<exists>g\<in>granted s. is_network g)
           then Some (if h = ''::'' then ''::1'' else ''127.0.0.1'')
      else if fst (check_inner w (Network h) s) then Some h else None)"
  unfolding bind_host_def Let_def split_beta if_distrib [of fst] fst_conv by (rule refl)

lemma bind_wildcard_cases:
  assumes "fst (bind_host w h s) = Some a" and "a \<in> {''0.0.0.0'', ''::''}"
  shows "(\<exists>g\<in>granted s. grants_all_interfaces g) \<or>
         (\<not> (\<exists>g\<in>granted s. is_network g) \<and> fst (check_inner w (Network h) s))"
proof -
  have a: "a \<noteq> ''127.0.0.1''" "a \<noteq> ''::1''" using assms(2) by auto
  have h: "h \<notin> set [''127.0.0.1'', ''::1'', ''localhost'']" if "a = h"
    using that assms(2) wildcard_not_loopback by blast
  have loc: "is_local_bind_host h" if "a = h"
    using that assms(2) local_host_literals by auto
  from assms(1) a h loc show ?thesis
    unfolding fst_bind_host by (simp split: if_splits del: set_simps)
qed

lemma case_option_Some:
  "(case x of Some r \<Rightarrow> P r | None \<Rightarrow> False) \<longleftrightarrow> (\<exists>r. x = Some r \<and> P r)"
  by (auto split: option.split)

section \<open>Properties\<close>

text \<open>
  A server is exposed on all interfaces only on a grant that says so: when a
  non-interactive \<open>bind_host\<close> answers \<open>0.0.0.0\<close> or \<open>::\<close>, the program holds a grant for
  \<open>*\<close>, \<open>0.0.0.0\<close> or \<open>::\<close>, or every package involved holds a grant that covers the
  requested address; no grant for another host is enough.
\<close>
theorem bind_all_interfaces_needs_grant:
  assumes "bind_host w h s = (Some a, t)" and "a \<in> {''0.0.0.0'', ''::''}" and "\<not> interactive s"
  shows "(\<exists>g\<in>granted s. grants_all_interfaces g) \<or>
         (package_scopes (w_scope w) \<noteq> [] \<and>
          (\<forall>p\<in>set (package_scopes (w_scope w)). holds_grant w s (Network h) p))"
proof -
  note ci = check_inner_not_interactive [OF assms(3), of w "Network h"]
  from assms(1) have "fst (bind_host w h s) = Some a" by simp
  from bind_wildcard_cases [OF this assms(2)] show ?thesis
    using grant_applies_without_network [of w s h] by (auto simp: ci)
qed

text \<open>
  \<open>bind_host\<close> does not consult the deny rules of packages: with a grant for
  all interfaces and no global deny rule that matches, it lets a server listen on the wildcard
  address whatever the packages involved are denied, although \<open>check\<close> refuses the same
  capability to them.
\<close>
theorem bind_ignores_package_denies:
  assumes "g \<in> granted s" and "grants_all_interfaces g" and "h \<in> {''0.0.0.0'', ''::''}"
    and "\<not> all_net_denied s" and "\<not> rules_hit (w_fs w) (denied s) (Network h)"
  shows "fst (bind_host w h (s\<lparr>scoped_denied := rules\<rparr>)) = Some h"
proof -
  have "is_network g" using assms(2) by (rule grants_all_interfaces_network)
  moreover have "is_local_bind_host h" using assms(3) local_host_literals by auto
  ultimately show ?thesis
    using assms(1,2,4,5) wildcard_not_loopback [OF assms(3)] unfolding fst_bind_host
    by (auto simp del: set_simps)
qed

definition rule_denies :: "world \<Rightarrow> perm_state \<Rightarrow> capability \<Rightarrow> bool" where
  "rule_denies w s cap \<longleftrightarrow>
     (\<exists>d\<in>denied s. caps_match (w_fs w) d cap) \<or>
     (\<exists>p\<in>set (deny_scopes (w_scope w)). \<exists>rules. scoped_denied s p = Some rules \<and>
        (\<exists>d\<in>rules. caps_match (w_fs w) d cap))"

lemma addr_denied_iff:
  "addr_denied w s (ip, p) \<longleftrightarrow> rule_denies w s (Network ip) \<or> rule_denies w s (Network (authority ip p))"
  unfolding addr_denied_def Let_def case_option_Some list_ex_iff by (auto simp: rules_hit_def rule_denies_def)

text \<open>
  A name cannot be used to reach a denied address: whatever the resolver
  answers, the addresses that \<open>vetted_addrs\<close> returns are those of the answer, in its order, that no
  global deny rule and no deny rule of a package involved matches, neither as a bare IP nor as IP
  and port; a non-empty answer of which nothing is left is an error, never an empty success.
\<close>
theorem vetted_addrs_exclude_denied:
  assumes "resolve (strip_brackets host) port = Some all"
  shows "case vetted_addrs resolve w s host port of
      Inr addrs \<Rightarrow> subseq addrs all \<and> (all \<noteq> [] \<longrightarrow> addrs \<noteq> []) \<and>
        (\<forall>ip p. (ip, p) \<in> set addrs \<longleftrightarrow> (ip, p) \<in> set all \<and>
           \<not> rule_denies w s (Network ip) \<and> \<not> rule_denies w s (Network (authority ip p)))
    | Inl e \<Rightarrow> e = AllDenied \<and> all \<noteq> [] \<and>
        (\<forall>ip p. (ip, p) \<in> set all \<longrightarrow>
           rule_denies w s (Network ip) \<or> rule_denies w s (Network (authority ip p)))"
proof -
  have "vetted_addrs resolve w s host port =
      (if all \<noteq> [] \<and> (\<forall>a\<in>set all. addr_denied w s a) then Inl AllDenied
       else Inr (filter (\<lambda>a. \<not> addr_denied w s a) all))"
    using assms by (auto simp: vetted_addrs_def Let_def filter_empty_conv)
  moreover have "(\<not> rule_denies w s (Network ip) \<and> \<not> rule_denies w s (Network (authority ip p))) =
      (\<not> addr_denied w s (ip, p))" for ip p
    by (simp add: addr_denied_iff)
  ultimately show ?thesis
    by (cases "all \<noteq> [] \<and> (\<forall>a\<in>set all. addr_denied w s a)")
      (simp_all add: addr_denied_iff [symmetric] filter_empty_conv, blast)
qed

end
