(* ===== verification/Enforcement.thy ===== *)
theory Enforcement
  imports Permission_Policy
begin

text \<open>
  The enforcers of \<open>crates/permissions/src/enforcement.rs\<close>, through which native code asks for
  files, sockets, environment variables and processes, and the permission bundles of
  \<open>preset.rs\<close>. An enforcer shares its permission state with the rest of the runtime, so every
  operation takes and returns it.
\<close>

section \<open>Errors\<close>

datatype permission_error =
    FileReadDenied path
  | FileWriteDenied path
  | NetworkDenied string nat
  | EnvAccessDenied
  | ProcessSpawnDenied
  | EnvVarNotAllowed string
  | CommandNotAllowed string
  | InvalidUrl string

fun error_category :: "permission_error \<Rightarrow> string" where
  "error_category (FileReadDenied _) = ''FileSystem''"
| "error_category (FileWriteDenied _) = ''FileSystem''"
| "error_category (NetworkDenied _ _) = ''Network''"
| "error_category EnvAccessDenied = ''Environment''"
| "error_category ProcessSpawnDenied = ''Process''"
| "error_category (EnvVarNotAllowed _) = ''Environment''"
| "error_category (CommandNotAllowed _) = ''Process''"
| "error_category (InvalidUrl _) = ''Network''"

section \<open>Enforcers\<close>

text \<open>\<open>if check(&cap) { Ok(()) } else { Err(e) }\<close>.\<close>

definition gate :: "bool \<times> 's \<Rightarrow> 'e \<Rightarrow> ('e + unit) \<times> 's" where
  "gate r e = (if fst r then Inr () else Inl e, snd r)"

definition check_read :: "world \<Rightarrow> path \<Rightarrow> perm_state \<Rightarrow> (permission_error + unit) \<times> perm_state" where
  "check_read w p s = gate (check w (FileRead p) s) (FileReadDenied p)"

definition check_write :: "world \<Rightarrow> path \<Rightarrow> perm_state \<Rightarrow> (permission_error + unit) \<times> perm_state" where
  "check_write w p s = gate (check w (FileWrite p) s) (FileWriteDenied p)"

definition check_read_recursive :: "path \<Rightarrow> perm_state \<Rightarrow> permission_error + unit" where
  "check_read_recursive p s =
     (if \<exists>cap\<in>granted s. case cap of FileRead allowed \<Rightarrow> prefix allowed p \<or> prefix p allowed | _ \<Rightarrow> False
      then Inr () else Inl (FileReadDenied p))"

definition connect_target :: "string \<Rightarrow> nat \<Rightarrow> string" where
  "connect_target host port = (if port = 0 then host else authority host port)"

definition check_connect :: "world \<Rightarrow> string \<Rightarrow> nat \<Rightarrow> perm_state \<Rightarrow> (permission_error + unit) \<times> perm_state" where
  "check_connect w host port s = gate (check w (Network (connect_target host port)) s) (NetworkDenied host port)"

text \<open>Of a \<open>url::Url\<close> the code reads its text, \<open>host_str()\<close> and \<open>port()\<close>, which is \<open>None\<close> when the
  port is the default one of the scheme.\<close>

record url =
  url_text :: string
  host_str :: "string option"
  url_port :: "nat option"

definition check_url :: "world \<Rightarrow> url \<Rightarrow> perm_state \<Rightarrow> (permission_error + unit) \<times> perm_state" where
  "check_url w u s =
     (case host_str u of
        None \<Rightarrow> (Inl (InvalidUrl (url_text u)), s)
      | Some host \<Rightarrow> check_connect w host (case url_port u of Some p \<Rightarrow> p | None \<Rightarrow> 80) s)"

definition env_get ::
  "world \<Rightarrow> string set \<Rightarrow> string \<Rightarrow> perm_state \<Rightarrow> (permission_error + string option) \<times> perm_state" where
  "env_get w allowed_vars key s =
     (let (ok, s1) = check w (EnvVar key) s
      in if \<not> ok then (Inl EnvAccessDenied, s1)
         else if allowed_vars \<noteq> {} \<and> key \<notin> allowed_vars then (Inl (EnvVarNotAllowed key), s1)
         else (Inr (env_vars w key), s1))"

definition env_all :: "world \<Rightarrow> perm_state \<Rightarrow> (permission_error + (string \<rightharpoonup> string)) \<times> perm_state" where
  "env_all w s =
     (let (ok, s1) = check w EnvAccess s
      in if \<not> ok then (Inl EnvAccessDenied, s1) else (Inr (env_vars w), s1))"

definition process_spawn ::
  "world \<Rightarrow> string set \<Rightarrow> string \<Rightarrow> perm_state \<Rightarrow> (permission_error + unit) \<times> perm_state" where
  "process_spawn w allowed_commands cmd s =
     (let (ok, s1) = check w SpawnProcess s
      in if \<not> ok then (Inl ProcessSpawnDenied, s1)
         else if allowed_commands \<noteq> {} \<and> cmd \<notin> allowed_commands then (Inl (CommandNotAllowed cmd), s1)
         else (Inr (), s1))"

section \<open>Presets\<close>

datatype permission_preset = Minimal | Development | Production | NetworkOnly

definition preset_apply :: "fs_env \<Rightarrow> permission_preset \<Rightarrow> perm_state \<Rightarrow> perm_state" where
  "preset_apply fs preset s =
     (let dir = (case cwd fs of Some d \<Rightarrow> d | None \<Rightarrow> [CurDir])
      in case preset of
           Minimal \<Rightarrow> s
         | Development \<Rightarrow>
             grant SpawnProcess (grant EnvAccess (grant (Network ''*'')
               (grant (FileWrite dir) (grant (FileRead dir) s))))
         | Production \<Rightarrow> grant (FileRead dir) s
         | NetworkOnly \<Rightarrow> grant (Network ''*'') s)"

definition into_state :: "fs_env \<Rightarrow> permission_preset \<Rightarrow> perm_state" where
  "into_state fs preset = preset_apply fs preset perm_new"

section \<open>The monitor behind the enforcers\<close>

text \<open>
  What an enforcer relies on: the answer of the monitor is the verdict of a policy, a refusal is
  entered once in the tally of the capability, and an allowed check leaves the tally alone.
\<close>

locale monitor =
  fixes chk :: "'w \<Rightarrow> 'c \<Rightarrow> 's \<Rightarrow> bool \<times> 's"
    and allows :: "'w \<Rightarrow> 's \<Rightarrow> 'c \<Rightarrow> bool"
    and refusals :: "'c \<Rightarrow> 's \<Rightarrow> nat"
  assumes verdict: "fst (chk w cap s) = allows w s cap"
    and tally: "refusals c (snd (chk w cap s)) = refusals c s + of_bool (c = cap \<and> \<not> allows w s cap)"
begin

lemma gate_Ok: "gate (chk w cap s) e = (Inr u, s') \<Longrightarrow> allows w s cap \<and> refusals c s' = refusals c s"
  using tally [of c w cap s] by (auto simp: gate_def verdict split: if_splits)

lemma gate_Err:
  "gate (chk w cap s) e = (Inl e', s') \<Longrightarrow> \<not> allows w s cap \<and> e' = e \<and> refusals cap s' = Suc (refusals cap s)"
  using tally [of cap w cap s] by (auto simp: gate_def verdict split: if_splits)

lemma gate_iff: "fst (gate (chk w cap s) e) = Inr () \<longleftrightarrow> allows w s cap"
  by (simp add: gate_def verdict)

end

definition allowed_by :: "world \<Rightarrow> perm_state \<Rightarrow> capability \<Rightarrow> bool" where
  "allowed_by w s cap \<longleftrightarrow>
     policy w s cap = Allow \<or> policy w s cap = Ask \<and> fst (prompt_user w cap s)"

definition refusal_count :: "capability \<Rightarrow> perm_state \<Rightarrow> nat" where
  "refusal_count cap s = (case tally_counts s cap of Some n \<Rightarrow> n | None \<Rightarrow> 0)"

lemma tally_counts_check_inner: "tally_counts (snd (check_inner w cap s)) = tally_counts s"
  by (cases "check_inner w cap s"; cases rule: check_inner_cases [of w cap s "fst (check_inner w cap s)" "snd (check_inner w cap s)"])
    (auto simp: grant_def deny_def)

interpretation permissions: monitor check allowed_by refusal_count
proof unfold_locales
  fix w cap s c
  show v: "fst (check w cap s) = allowed_by w s cap"
    by (auto simp: fst_check check_inner_policy allowed_by_def split: verdict.split)
  show "refusal_count c (snd (check w cap s)) = refusal_count c s + of_bool (c = cap \<and> \<not> allowed_by w s cap)"
    using tally_counts_check_inner [of w cap s] v [unfolded fst_check]
    by (cases "check_inner w cap s") (auto simp: check_def refusal_count_def record_denial_def Let_def)
qed

lemma grant_frame:
  "interactive (grant c s) = interactive s" "scoped_granted (grant c s) = scoped_granted s"
  "scoped_denied (grant c s) = scoped_denied s" "denied (grant c s) = denied s"
  "all_fs_denied (grant c s) = all_fs_denied s" "all_net_denied (grant c s) = all_net_denied s"
  "all_env_denied (grant c s) = all_env_denied s" "all_process_denied (grant c s) = all_process_denied s"
  "granted (grant c s) = insert c (granted s)"
  by (simp_all add: grant_def)

lemma perm_new_frame:
  "interactive perm_new = False" "scoped_granted perm_new = Map.empty" "scoped_denied perm_new = Map.empty"
  "denied perm_new = {}" "all_fs_denied perm_new = False" "all_net_denied perm_new = False"
  "all_env_denied perm_new = False" "all_process_denied perm_new = False" "granted perm_new = {}"
  by (simp_all add: perm_new_def)

section \<open>Mediation\<close>

text \<open>The operations native code performs through an enforcer, and the enforcer of each.\<close>

datatype native_op =
    ReadFile path
  | WriteFile path
  | Connect string nat
  | GetEnv string
  | ListEnv
  | Spawn string

fun required :: "native_op \<Rightarrow> capability" where
  "required (ReadFile p) = FileRead p"
| "required (WriteFile p) = FileWrite p"
| "required (Connect host port) = Network (connect_target host port)"
| "required (GetEnv key) = EnvVar key"
| "required ListEnv = EnvAccess"
| "required (Spawn cmd) = SpawnProcess"

fun refusal :: "native_op \<Rightarrow> permission_error" where
  "refusal (ReadFile p) = FileReadDenied p"
| "refusal (WriteFile p) = FileWriteDenied p"
| "refusal (Connect host port) = NetworkDenied host port"
| "refusal (GetEnv key) = EnvAccessDenied"
| "refusal ListEnv = EnvAccessDenied"
| "refusal (Spawn cmd) = ProcessSpawnDenied"

definition outcome :: "('e + 'a) \<times> 's \<Rightarrow> 'e option \<times> 's" where
  "outcome r = (case fst r of Inl e \<Rightarrow> Some e | Inr _ \<Rightarrow> None, snd r)"

fun enforce ::
  "world \<Rightarrow> string set \<Rightarrow> string set \<Rightarrow> native_op \<Rightarrow> perm_state \<Rightarrow> permission_error option \<times> perm_state" where
  "enforce w vars cmds (ReadFile p) s = outcome (check_read w p s)"
| "enforce w vars cmds (WriteFile p) s = outcome (check_write w p s)"
| "enforce w vars cmds (Connect host port) s = outcome (check_connect w host port s)"
| "enforce w vars cmds (GetEnv key) s = outcome (env_get w vars key s)"
| "enforce w vars cmds ListEnv s = outcome (env_all w s)"
| "enforce w vars cmds (Spawn cmd) s = outcome (process_spawn w cmds cmd s)"

lemma outcome_gate: "outcome (gate r e) = (if fst r then None else Some e, snd r)"
  by (simp add: outcome_def gate_def)

lemma enforce_check:
  "enforce w vars cmds op s =
     (if \<not> fst (check w (required op) s) then Some (refusal op)
      else (case op of
              GetEnv key \<Rightarrow> if vars \<noteq> {} \<and> key \<notin> vars then Some (EnvVarNotAllowed key) else None
            | Spawn cmd \<Rightarrow> if cmds \<noteq> {} \<and> cmd \<notin> cmds then Some (CommandNotAllowed cmd) else None
            | _ \<Rightarrow> None),
      snd (check w (required op) s))"
  by (cases op; cases "check w (required op) s")
    (simp_all add: check_read_def check_write_def check_connect_def outcome_gate env_get_def
      env_all_def process_spawn_def Let_def, simp_all add: outcome_def)



section \<open>What the presets allow\<close>

definition preset_dir :: "fs_env \<Rightarrow> path" where
  "preset_dir fs = (case cwd fs of Some d \<Rightarrow> d | None \<Rightarrow> [CurDir])"

fun preset_allows :: "fs_env \<Rightarrow> permission_preset \<Rightarrow> capability \<Rightarrow> bool" where
  "preset_allows fs preset (FileRead p) =
     (preset \<in> {Development, Production} \<and> path_covered_by fs p (preset_dir fs))"
| "preset_allows fs preset (FileWrite p) = (preset = Development \<and> path_covered_by fs p (preset_dir fs))"
| "preset_allows fs preset (Network h) = (preset \<in> {Development, NetworkOnly})"
| "preset_allows fs preset (FFI p) = False"
| "preset_allows fs preset cap = (preset = Development)"

lemma into_state_frame:
  "interactive (into_state fs preset) = False" "scoped_granted (into_state fs preset) = Map.empty"
  "scoped_denied (into_state fs preset) = Map.empty" "denied (into_state fs preset) = {}"
  "all_fs_denied (into_state fs preset) = False" "all_net_denied (into_state fs preset) = False"
  "all_env_denied (into_state fs preset) = False" "all_process_denied (into_state fs preset) = False"
  by (cases preset; simp add: into_state_def preset_apply_def grant_frame perm_new_frame Let_def)+

lemma granted_into_state:
  "granted (into_state fs preset) = (case preset of
     Minimal \<Rightarrow> {}
   | Development \<Rightarrow> {FileRead (preset_dir fs), FileWrite (preset_dir fs), Network ''*'', EnvAccess, SpawnProcess}
   | Production \<Rightarrow> {FileRead (preset_dir fs)}
   | NetworkOnly \<Rightarrow> {Network ''*''})"
  unfolding preset_dir_def
  by (cases preset; simp add: into_state_def preset_apply_def grant_frame perm_new_frame Let_def; blast)

text \<open>
  The permission bundles grant what they say and nothing else: of a state
  made from a preset, \<open>Minimal\<close> allows nothing, \<open>Production\<close> allows reading below the working
  directory only, \<open>NetworkOnly\<close> every host and no file, variable or process, and \<open>Development\<close>
  all of these but no native library, whatever code is on the stack.
\<close>
theorem presets_allow_exactly:
  "fst (check w cap (into_state (w_fs w) preset)) = preset_allows (w_fs w) preset cap"
proof -
  let ?s = "into_state (w_fs w) preset"
  have s: "interactive ?s = False" "\<not> deny_applies w ?s cap" "scoped_granted ?s = Map.empty"
    by (simp_all add: into_state_frame deny_applies_def) (cases cap; simp add: into_state_frame)
  have "fst (check w cap ?s) \<longleftrightarrow> (\<exists>g\<in>granted ?s. caps_match (w_fs w) g cap)"
    using s by (auto simp: fst_check check_inner_not_interactive grant_applies_def holds_grant_def)
  also have "\<dots> \<longleftrightarrow> preset_allows (w_fs w) preset cap"
    by (cases preset; cases cap; simp add: granted_into_state)
  finally show ?thesis .
qed

section \<open>Where an enforcer does not ask the monitor\<close>

text \<open>
  \<open>check_read_recursive\<close> looks at the grants alone: it passes for a directory that a deny rule
  covers, which \<open>check_read\<close> refuses.
\<close>

lemma read_recursive_ignores_denies:
  assumes "FileRead p \<in> granted s" and "all_fs_denied s"
  shows "check_read_recursive p s = Inr ()" and "fst (check_read w p s) = Inl (FileReadDenied p)"
proof -
  show "check_read_recursive p s = Inr ()"
    using assms(1) unfolding check_read_recursive_def by (auto intro!: bexI [of _ "FileRead p"])
  have "\<not> allowed_by w s (FileRead p)"
    using assms(2) by (simp add: allowed_by_def policy_def deny_applies_def)
  then show "fst (check_read w p s) = Inl (FileReadDenied p)"
    by (simp add: check_read_def gate_def permissions.verdict)
qed

text \<open>
  \<open>check_url\<close> asks for port 80 whenever the URL has the default port of its scheme, \<open>https\<close>
  included: the capability it checks for \<open>https://host/\<close> is \<open>host:80\<close>.
\<close>

lemma check_url_default_port:
  "check_url w \<lparr>url_text = ''https://h/'', host_str = Some ''h'', url_port = None\<rparr> s = check_connect w ''h'' 80 s"
  by (simp add: check_url_def)

end
