(* ===== verification/Sandbox.thy ===== *)
theory Sandbox
  imports Fs_Path
begin

text \<open>
  The illustrative virtual file system and network of \<open>crates/permissions/src/sandbox.rs\<close>, which
  the file itself declares not to be a security boundary. The hash map of mounts is the list of
  its entries in the order in which the map iterates; that order is not specified, so \<open>resolve\<close>
  is modelled for any order.
\<close>

record mount_point =
  mount_source :: path
  read_only :: bool

type_synonym virtual_fs = "(path \<times> mount_point) list"

definition mount :: "path \<Rightarrow> path \<Rightarrow> bool \<Rightarrow> virtual_fs \<Rightarrow> virtual_fs" where
  "mount virtual_path source ro vfs =
     (virtual_path, \<lparr>mount_source = source, read_only = ro\<rparr>) # filter (\<lambda>(vp, _). vp \<noteq> virtual_path) vfs"

text \<open>\<open>PathBuf::pop\<close> removes the last component but never the root; \<open>push\<close> of the root replaces.\<close>

definition path_pop :: "path \<Rightarrow> path" where
  "path_pop p = (if p = [RootDir] then p else butlast p)"

definition path_push :: "path \<Rightarrow> component \<Rightarrow> path" where
  "path_push p c = (if c = RootDir then [RootDir] else p @ [c])"

definition normalize_step :: "path \<Rightarrow> component \<Rightarrow> path" where
  "normalize_step out c =
     (case c of ParentDir \<Rightarrow> path_pop out | CurDir \<Rightarrow> out | _ \<Rightarrow> path_push out c)"

definition normalize_path :: "path \<Rightarrow> path" where
  "normalize_path p = foldl normalize_step [] p"

fun strip_path_prefix :: "path \<Rightarrow> path \<Rightarrow> path option" where
  "strip_path_prefix [] p = Some p"
| "strip_path_prefix (c # cs) (d # ds) = (if c = d then strip_path_prefix cs ds else None)"
| "strip_path_prefix (c # cs) [] = None"

fun resolve_in :: "path \<Rightarrow> virtual_fs \<Rightarrow> string + path" where
  "resolve_in normalized [] = Inl ''Path not mounted''"
| "resolve_in normalized ((vp, m) # mounts) =
     (case strip_path_prefix vp normalized of
        Some relative \<Rightarrow> Inr (path_join (mount_source m) relative)
      | None \<Rightarrow> resolve_in normalized mounts)"

definition vfs_resolve :: "path \<Rightarrow> virtual_fs \<Rightarrow> string + path" where
  "vfs_resolve p vfs = resolve_in (normalize_path p) vfs"

definition vnet_is_allowed :: "string set \<Rightarrow> string \<Rightarrow> bool" where
  "vnet_is_allowed allowed_hosts host =
     (\<exists>allowed\<in>allowed_hosts.
        allowed = ''*'' \<or> allowed = host \<or>
        (case strip_prefix_str ''*.'' allowed of
           Some sfx \<Rightarrow> ends_with host sfx \<and> length host > length sfx \<and>
             host ! (length host - length sfx - 1) = CHR ''.''
         | None \<Rightarrow> False))"

section \<open>Lexical confinement\<close>

fun is_normal :: "component \<Rightarrow> bool" where
  "is_normal (Normal _) = True"
| "is_normal _ = False"

definition lexical :: "path \<Rightarrow> bool" where
  "lexical p \<longleftrightarrow> list_all is_normal (case p of RootDir # cs \<Rightarrow> cs | _ \<Rightarrow> p)"

lemma lexical_cases: "lexical p \<longleftrightarrow> list_all is_normal p \<or> (\<exists>cs. p = RootDir # cs \<and> list_all is_normal cs)"
  by (auto simp: lexical_def split: list.split component.split)

lemma list_all_butlast: "list_all P xs \<Longrightarrow> list_all P (butlast xs)"
  by (auto simp: list_all_iff dest: in_set_butlastD)

lemma lexical_step: "lexical out \<Longrightarrow> lexical (normalize_step out c)"
  by (cases c) (auto simp: lexical_cases normalize_step_def path_pop_def path_push_def list_all_butlast)

lemma normalize_lexical: "lexical (normalize_path p)"
proof -
  have "lexical out \<Longrightarrow> lexical (foldl normalize_step out p)" for out
    by (induction p arbitrary: out) (simp_all add: lexical_step)
  moreover have "lexical []" by (simp add: lexical_def)
  ultimately show ?thesis by (simp add: normalize_path_def)
qed

lemma strip_path_prefix_Some: "strip_path_prefix vp p = Some r \<longleftrightarrow> p = vp @ r"
  by (induction vp p rule: strip_path_prefix.induct) auto

lemma resolve_in_source:
  assumes "resolve_in normalized vfs = Inr real"
  obtains vp m r where "(vp, m) \<in> set vfs" "normalized = vp @ r" "real = path_join (mount_source m) r"
  using assms
  by (induction normalized vfs rule: resolve_in.induct) (auto simp: strip_path_prefix_Some split: option.splits)

text \<open>Whatever \<open>..\<close> a path holds, the real path is a mount's source followed by plain names:
  the escape that remains is the one through symbolic links, which this module does not follow.\<close>

lemma resolve_below_source:
  assumes "vfs_resolve p vfs = Inr real" and "\<forall>(vp, m)\<in>set vfs. vp \<noteq> [] \<and> mount_source m \<noteq> []"
  shows "\<exists>(vp, m)\<in>set vfs. \<exists>r. real = mount_source m @ r \<and> list_all is_normal r"
proof -
  from assms(1) obtain vp m r where m: "(vp, m) \<in> set vfs" "normalize_path p = vp @ r"
    "real = path_join (mount_source m) r" unfolding vfs_resolve_def by (rule resolve_in_source)
  have ne: "vp \<noteq> []" "mount_source m \<noteq> []" using assms(2) m(1) by auto
  have r: "list_all is_normal r"
    using normalize_lexical [of p] m(2) ne(1) by (cases vp) (auto simp: lexical_cases)
  then have "\<not> is_absolute r" by (cases r) (auto simp: is_absolute_def split: component.split)
  moreover have "filter (\<lambda>c. c \<noteq> CurDir) r = r" using r by (induction r) auto
  ultimately have "real = mount_source m @ r" using m(3) ne(2) by (simp add: path_join_def)
  then show ?thesis using m(1) r by auto
qed

end
