(* ===== verification/Ip_Addr.thy ===== *)
theory Ip_Addr
  imports Rust_Std "HOL-Library.Word" "HOL-Library.Monad_Syntax"
begin

text \<open>
  \<open>std::net::IpAddr\<close> as the modelled sources use it: the type, \<open>str::parse::<IpAddr>()\<close> (the
  recursive-descent parser of the standard library, with its rules on leading zeros, on \<open>::\<close> and
  on an embedded IPv4 tail), \<open>is_loopback\<close> and the printing of IPv4 addresses.
\<close>

datatype ip_addr = V4 "32 word" | V6 "128 word"

section \<open>The parser\<close>

definition to_digit :: "nat \<Rightarrow> char \<Rightarrow> nat option" where
  "to_digit radix c =
     (let n = of_char c :: nat;
          d = (if 48 \<le> n \<and> n \<le> 57 then Some (n - 48)
               else if 97 \<le> n \<and> n \<le> 102 then Some (n - 87)
               else if 65 \<le> n \<and> n \<le> 70 then Some (n - 55) else None)
      in case d of Some v \<Rightarrow> if v < radix then Some v else None | None \<Rightarrow> None)"

definition radix_digit :: "nat \<Rightarrow> char \<Rightarrow> bool" where
  "radix_digit radix c \<longleftrightarrow> to_digit radix c \<noteq> None"

definition read_number :: "nat \<Rightarrow> nat \<Rightarrow> bool \<Rightarrow> nat \<Rightarrow> string \<Rightarrow> (nat \<times> string) option" where
  "read_number radix max_digits allow_zero_prefix max_val s =
     (let ds = takeWhile (radix_digit radix) s;
          rest = dropWhile (radix_digit radix) s;
          n = foldl (\<lambda>n c. radix * n + the (to_digit radix c)) 0 ds
      in if ds = [] \<or> length ds > max_digits then None
         else if \<not> allow_zero_prefix \<and> hd ds = CHR ''0'' \<and> length ds > 1 then None
         else if n > max_val then None else Some (n, rest))"

fun read_given_char :: "char \<Rightarrow> string \<Rightarrow> string option" where
  "read_given_char c [] = None"
| "read_given_char c (x # xs) = (if x = c then Some xs else None)"

definition read_separator :: "char \<Rightarrow> nat \<Rightarrow> (string \<Rightarrow> 'a option) \<Rightarrow> string \<Rightarrow> 'a option" where
  "read_separator sep index inner s =
     (if index > 0 then do { s' \<leftarrow> read_given_char sep s; inner s' } else inner s)"

definition read_octet :: "nat \<Rightarrow> string \<Rightarrow> (nat \<times> string) option" where
  "read_octet i = read_separator CHR ''.'' i (read_number 10 3 False 255)"

definition read_ipv4 :: "string \<Rightarrow> ((nat \<times> nat \<times> nat \<times> nat) \<times> string) option" where
  "read_ipv4 s = do {
     (a, s) \<leftarrow> read_octet 0 s;
     (b, s) \<leftarrow> read_octet 1 s;
     (c, s) \<leftarrow> read_octet 2 s;
     (d, s) \<leftarrow> read_octet 3 s;
     Some ((a, b, c, d), s) }"

text \<open>\<open>n\<close> slots are left, \<open>i\<close> groups have been read; the result has the groups, whether they end in
  an embedded IPv4 address, and the rest of the input.\<close>

fun read_groups :: "nat \<Rightarrow> nat \<Rightarrow> string \<Rightarrow> nat list \<times> bool \<times> string" where
  "read_groups 0 i s = ([], False, s)"
| "read_groups (Suc n) i s =
     (case (if n > 0 then read_separator CHR '':'' i read_ipv4 s else None) of
        Some ((a, b, c, d), rest) \<Rightarrow> ([256 * a + b, 256 * c + d], True, rest)
      | None \<Rightarrow>
          (case read_separator CHR '':'' i (read_number 16 4 True 65535) s of
             None \<Rightarrow> ([], False, s)
           | Some (g, rest) \<Rightarrow> let (gs, v4, r) = read_groups n (Suc i) rest in (g # gs, v4, r)))"

definition read_ipv6 :: "string \<Rightarrow> (nat list \<times> string) option" where
  "read_ipv6 s =
     (let (head, head_v4, s1) = read_groups 8 0 s
      in if length head = 8 then Some (head, s1)
         else if head_v4 then None
         else do {
           s2 \<leftarrow> read_given_char CHR '':'' s1;
           s3 \<leftarrow> read_given_char CHR '':'' s2;
           let (tail, tail_v4, s4) = read_groups (8 - (length head + 1)) 0 s3;
           Some (head @ replicate (8 - length head - length tail) 0 @ tail, s4) })"

definition v4_word :: "nat \<times> nat \<times> nat \<times> nat \<Rightarrow> 32 word" where
  "v4_word = (\<lambda>(a, b, c, d). ((of_nat a * 256 + of_nat b) * 256 + of_nat c) * 256 + of_nat d)"

definition v6_word :: "nat list \<Rightarrow> 128 word" where
  "v6_word gs = foldl (\<lambda>w g. 65536 * w + of_nat g) 0 gs"

definition parse_ip :: "string \<Rightarrow> ip_addr option" where
  "parse_ip s =
     (case read_ipv4 s of
        Some (os, rest) \<Rightarrow> if rest = [] then Some (V4 (v4_word os)) else None
      | None \<Rightarrow>
          (case read_ipv6 s of
             Some (gs, rest) \<Rightarrow> if rest = [] then Some (V6 (v6_word gs)) else None
           | None \<Rightarrow> None))"

definition ip_is_loopback :: "ip_addr \<Rightarrow> bool" where
  "ip_is_loopback ip = (case ip of V4 w \<Rightarrow> drop_bit 24 w = 127 | V6 w \<Rightarrow> w = 1)"

section \<open>Printing IPv4 and reading it back\<close>

definition show_ipv4 :: "nat \<Rightarrow> nat \<Rightarrow> nat \<Rightarrow> nat \<Rightarrow> string" where
  "show_ipv4 a b c d = show_nat a @ ''.'' @ show_nat b @ ''.'' @ show_nat c @ ''.'' @ show_nat d"

lemma to_digit_10: "to_digit 10 c = (if is_digit c then Some (digit_val c) else None)"
  by (auto simp: to_digit_def is_digit_def digit_val_def Let_def)

lemma digits_val_eq: "list_all is_digit ds \<Longrightarrow>
    foldl (\<lambda>n c. 10 * n + the (to_digit 10 c)) k ds = foldl (\<lambda>n c. 10 * n + digit_val c) k ds"
  by (induction ds arbitrary: k) (auto simp: to_digit_10)

lemma show_nat_lead: "n \<ge> 10 \<Longrightarrow> hd (show_nat n) \<noteq> CHR ''0''"
proof (induction n rule: show_nat.induct)
  case (1 n)
  then have hd: "hd (show_nat n) = hd (show_nat (n div 10))" by (simp add: show_nat.simps [of n])
  show ?case
  proof (cases "n div 10 \<ge> 10")
    case True
    with 1 hd show ?thesis by simp
  next
    case False
    then have "hd (show_nat (n div 10)) = digit_char (n div 10)"
      by (simp add: show_nat.simps [of "n div 10"])
    moreover have "of_char (digit_char (n div 10)) = 48 + n div 10"
      using False by (intro of_char_digit_char) simp
    moreover have "n div 10 > 0" using 1 by simp
    ultimately show ?thesis using hd by (metis add_diff_cancel_left' diff_self_eq_0 digit_char_eval(1)
          of_char_digit_char zero_less_numeral less_numeral_extra(3) add.right_neutral)
  qed
qed

lemma show_nat_length_octet: "n \<le> 255 \<Longrightarrow> length (show_nat n) \<le> 3"
proof -
  assume n: "n \<le> 255"
  consider "n < 10" | "10 \<le> n" "n < 100" | "100 \<le> n" by linarith
  then show ?thesis
  proof cases
    case 3
    then have "\<not> n < 10" "\<not> n div 10 < 10" "n div 10 div 10 < 10" using n by auto
    then show ?thesis
      by (simp add: show_nat.simps [of n] show_nat.simps [of "n div 10"]
          show_nat.simps [of "n div 10 div 10"])
  next
    case 2
    then have "\<not> n < 10" "n div 10 < 10" by auto
    then show ?thesis by (simp add: show_nat.simps [of n] show_nat.simps [of "n div 10"])
  qed (simp add: show_nat.simps [of n])
qed

lemma read_number_show:
  assumes "n \<le> 255" and "rest = [] \<or> \<not> is_digit (hd rest)"
  shows "read_number 10 3 False 255 (show_nat n @ rest) = Some (n, rest)"
proof -
  have p: "radix_digit 10 = is_digit" by (simp add: to_digit_10 radix_digit_def fun_eq_iff)
  have all: "\<forall>c\<in>set (show_nat n). is_digit c" using show_nat_digits by (simp add: list_all_iff)
  have tw: "takeWhile (radix_digit 10) (show_nat n @ rest) = show_nat n"
    using all assms(2) unfolding p by (cases rest) (simp_all add: takeWhile_append2)
  have dw: "dropWhile (radix_digit 10) (show_nat n @ rest) = rest"
    using all assms(2) unfolding p by (cases rest) (simp_all add: dropWhile_append2)
  have v: "foldl (\<lambda>n c. 10 * n + the (to_digit 10 c)) 0 (show_nat n) = n"
    using digits_val_eq [OF show_nat_digits, of 0 n] digits_val_show_nat [of n]
    by (simp add: digits_val_def)
  have z: "\<not> (hd (show_nat n) = CHR ''0'' \<and> length (show_nat n) > 1)"
  proof (cases "n < 10")
    case True
    then show ?thesis by (simp add: show_nat.simps [of n])
  next
    case False
    then show ?thesis using show_nat_lead by simp
  qed
  show ?thesis
    using show_nat_length_octet [OF assms(1)] z assms(1)
    unfolding read_number_def Let_def tw dw v by (auto simp: not_less)
qed

lemma read_ipv4_show:
  assumes "a \<le> 255" "b \<le> 255" "c \<le> 255" "d \<le> 255"
  shows "read_ipv4 (show_ipv4 a b c d) = Some ((a, b, c, d), [])"
proof -
  have dot: "\<not> is_digit (hd (''.'' @ s))" for s by (simp add: is_digit_def)
  have d': "read_number 10 3 False 255 (show_nat d) = Some (d, [])"
    using read_number_show [OF assms(4), of "[]"] by simp
  note r = read_number_show [OF assms(1) disjI2 [OF dot]] read_number_show [OF assms(2) disjI2 [OF dot]]
    read_number_show [OF assms(3) disjI2 [OF dot]]
  show ?thesis
    using r d' by (simp add: read_ipv4_def show_ipv4_def read_octet_def read_separator_def)
qed

lemma parse_ip_show_ipv4:
  assumes "a \<le> 255" "b \<le> 255" "c \<le> 255" "d \<le> 255"
  shows "parse_ip (show_ipv4 a b c d) = Some (V4 (v4_word (a, b, c, d)))"
  using read_ipv4_show [OF assms] by (simp add: parse_ip_def)

end
