(* ===== verification/Insecure.thy ===== *)
theory Insecure
  imports Ip_Addr
begin

text \<open>
  The plaintext policy of \<open>crates/permissions/src/insecure.rs\<close>: unencrypted protocols, skipped
  SSH host keys and skipped TLS certificates are refused for every host but loopback unless the
  user passed \<open>--allow-insecure\<close>. The process-wide flag is an argument.
\<close>

definition is_loopback_host :: "string \<Rightarrow> bool" where
  "is_loopback_host host =
     (let h = rev (dropWhile (\<lambda>c. c = CHR '']'') (rev (dropWhile (\<lambda>c. c = CHR ''['') host)))
      in map to_lower h = ''localhost'' \<or>
         (case parse_ip h of Some ip \<Rightarrow> ip_is_loopback ip | None \<Rightarrow> False))"

definition plaintext_allowed :: "bool \<Rightarrow> string \<Rightarrow> bool" where
  "plaintext_allowed allow_insecure host \<longleftrightarrow> allow_insecure \<or> is_loopback_host host"

definition plaintext_denied_message :: "string \<Rightarrow> string \<Rightarrow> string" where
  "plaintext_denied_message protocol host =
     ''Insecure protocol '' @ protocol @ '' to '' @ [CHR 0x27] @ host @ [CHR 0x27] @
     '' is disabled by default. Use the TLS variant, or run with --allow-insecure''"

definition insecure_ssh_allowed :: "bool \<Rightarrow> string \<Rightarrow> bool" where
  "insecure_ssh_allowed allow_insecure host \<longleftrightarrow> allow_insecure \<or> is_loopback_host host"

definition insecure_tls_allowed :: "bool \<Rightarrow> string \<Rightarrow> bool" where
  "insecure_tls_allowed allow_insecure host \<longleftrightarrow> allow_insecure \<or> is_loopback_host host"

definition insecure_tls_denied_message :: "string \<Rightarrow> string" where
  "insecure_tls_denied_message host =
     ''Skipping the TLS certificate verification for '' @ [CHR 0x27] @ host @ [CHR 0x27] @
     '' is disabled by default. Pass rejectUnauthorized: true (the default), or run with --allow-insecure''"

section \<open>Address literals\<close>

lemma unat_drop_bit_24: "n < 2 ^ 32 \<Longrightarrow> unat (drop_bit 24 (of_nat n :: 32 word)) = n div 2 ^ 24"
  by (simp add: unat_div unat_of_nat drop_bit_eq_div)

lemma v4_word_octet:
  assumes "a \<le> 255" "b \<le> 255" "c \<le> 255" "d \<le> 255"
  shows "drop_bit 24 (v4_word (a, b, c, d)) = 127 \<longleftrightarrow> a = 127"
proof -
  let ?n = "((a * 256 + b) * 256 + c) * 256 + d"
  have w: "v4_word (a, b, c, d) = of_nat ?n" by (simp add: v4_word_def)
  have n: "?n < 2 ^ 32" using assms by simp
  have "unat (drop_bit 24 (v4_word (a, b, c, d))) = ?n div 2 ^ 24"
    unfolding w using n by (rule unat_drop_bit_24)
  also have "\<dots> = a" using assms by simp
  finally have "unat (drop_bit 24 (v4_word (a, b, c, d))) = a" .
  moreover have "drop_bit 24 (v4_word (a, b, c, d)) = 127 \<longleftrightarrow>
      unat (drop_bit 24 (v4_word (a, b, c, d))) = unat (127 :: 32 word)"
    by (simp only: word_unat_eq_iff)
  ultimately show ?thesis by simp
qed

lemma digit_ends_no_brackets:
  assumes "s \<noteq> []" "hd s \<noteq> CHR ''[''" "last s \<noteq> CHR '']''"
  shows "rev (dropWhile (\<lambda>c. c = CHR '']'') (rev (dropWhile (\<lambda>c. c = CHR ''['') s))) = s"
proof -
  have "dropWhile (\<lambda>c. c = CHR ''['') s = s" using assms by (cases s) auto
  moreover have "dropWhile (\<lambda>c. c = CHR '']'') (rev s) = rev s"
    using assms by (cases s rule: rev_cases) auto
  ultimately show ?thesis by simp
qed

lemma show_ipv4_ends:
  "show_ipv4 a b c d \<noteq> []" "is_digit (hd (show_ipv4 a b c d))" "is_digit (last (show_ipv4 a b c d))"
proof -
  have "is_digit (hd (show_nat n))" "is_digit (last (show_nat n))" for n
    using show_nat_digits [of n] by (simp_all add: list_all_iff)
  then show "show_ipv4 a b c d \<noteq> []" "is_digit (hd (show_ipv4 a b c d))" "is_digit (last (show_ipv4 a b c d))"
    by (simp_all add: show_ipv4_def)
qed

text \<open>
  Without \<open>--allow-insecure\<close>, of all IPv4 literals exactly the \<open>127.0.0.0/8\<close>
  block may be reached in plaintext, without host keys or without certificate verification; the
  flag opens every host.
\<close>
theorem plaintext_only_to_loopback:
  assumes "a \<le> 255" "b \<le> 255" "c \<le> 255" "d \<le> 255"
  shows "(plaintext_allowed flag (show_ipv4 a b c d) \<longleftrightarrow> flag \<or> a = 127) \<and>
    (insecure_ssh_allowed flag (show_ipv4 a b c d) \<longleftrightarrow> flag \<or> a = 127) \<and>
    (insecure_tls_allowed flag (show_ipv4 a b c d) \<longleftrightarrow> flag \<or> a = 127)"
proof -
  let ?s = "show_ipv4 a b c d"
  have dig: "is_digit x \<Longrightarrow> x \<noteq> CHR ''['' \<and> x \<noteq> CHR '']'' \<and> to_lower x \<noteq> CHR ''l''" for x
    by (auto simp: is_digit_def to_lower_def)
  have "rev (dropWhile (\<lambda>c. c = CHR '']'') (rev (dropWhile (\<lambda>c. c = CHR ''['') ?s))) = ?s"
    using show_ipv4_ends dig by (intro digit_ends_no_brackets) blast+
  moreover have "map to_lower ?s \<noteq> ''localhost''"
  proof
    assume "map to_lower ?s = ''localhost''"
    then have "to_lower (hd ?s) = CHR ''l''" using show_ipv4_ends(1) by (metis hd_map list.sel(1))
    with show_ipv4_ends(2) dig show False by blast
  qed
  ultimately have "is_loopback_host ?s \<longleftrightarrow> a = 127"
    using parse_ip_show_ipv4 [OF assms] v4_word_octet [OF assms]
    by (simp add: is_loopback_host_def Let_def ip_is_loopback_def)
  then show ?thesis
    by (simp add: plaintext_allowed_def insecure_ssh_allowed_def insecure_tls_allowed_def)
qed

end
