(* ===== verification/Caller_Scope.thy ===== *)
theory Caller_Scope
  imports Scope "HOL-Library.Monad_Syntax"
begin

text \<open>
  How the JS engine finds the packages whose code is running: \<open>crates/js/src/caller_scope.rs\<close>.
  V8 is outside: what the code reads of it is the list of script names of the stack frames
  (\<open>None\<close> for a frame without one), and a promise is a number that carries the private tag the
  hook stores in it. \<open>SAVED\<close> is the stack of inherited scopes that the reactions interrupt.
\<close>

section \<open>Package of a script\<close>

text \<open>\<open>&path[path.rfind(p)? + p.len()..]\<close>.\<close>

fun after_last :: "string \<Rightarrow> string \<Rightarrow> string option" where
  "after_last p [] = None"
| "after_last p (c # s) =
     (case after_last p s of
        Some r \<Rightarrow> Some r
      | None \<Rightarrow> if prefix p (c # s) then Some (drop (length p) (c # s)) else None)"

definition package_scope :: "string \<Rightarrow> string option" where
  "package_scope p = do {
     let path = map (\<lambda>c. if c = CHR 0x5C then CHR ''/'' else c) p;
     rest \<leftarrow> after_last ''/node_modules/'' path;
     (case split CHR ''/'' rest of
        first # parts \<Rightarrow>
          if first = [] then None
          else if starts_with first ''@'' then
            (case parts of
               second # _ \<Rightarrow> if second = [] then None else Some (first @ ''/'' @ second)
             | [] \<Rightarrow> None)
          else Some first
      | [] \<Rightarrow> None) }"

definition push_scope :: "string option \<Rightarrow> string option \<Rightarrow> string list \<Rightarrow> string list" where
  "push_scope entry name out =
     (case name of
        None \<Rightarrow> out
      | Some n \<Rightarrow>
          (case package_scope n of
             Some pkg \<Rightarrow> if entry \<noteq> Some pkg \<and> pkg \<notin> set out then out @ [pkg] else out
           | None \<Rightarrow> out))"

definition frame_scopes :: "string option \<Rightarrow> string option list \<Rightarrow> string list" where
  "frame_scopes entry frames = foldl (\<lambda>out name. push_scope entry name out) [] frames"

section \<open>Promises\<close>

record js_scopes =
  scopes :: scope_state
  saved :: "string list list"
  tags :: "nat \<rightharpoonup> string"

datatype promise_event = Init nat "nat option" | Before nat | After | Resolve

abbreviation newline :: char where "newline \<equiv> CHR 0x0A"

definition read_tag :: "nat \<Rightarrow> js_scopes \<Rightarrow> string list" where
  "read_tag p s = (case tags s p of Some t \<Rightarrow> split newline t | None \<Rightarrow> [])"

fun promise_hook :: "promise_event \<Rightarrow> js_scopes \<Rightarrow> js_scopes" where
  "promise_hook ev s =
     (if \<not> scoped_rules_active (scopes s) then s
      else (case ev of
        After \<Rightarrow>
          (case saved s of
             prev # rest \<Rightarrow> s\<lparr>scopes := snd (set_inherited_scopes prev (scopes s)), saved := rest\<rparr>
           | [] \<Rightarrow> s)
      | Resolve \<Rightarrow> s
      | Init p parent \<Rightarrow>
          let sc = deny_scopes (scopes s);
              sc1 = sc @ (case parent of Some q \<Rightarrow> read_tag q s | None \<Rightarrow> []);
              sc2 = sort_dedup sc1
          in if sc2 \<noteq> [] then s\<lparr>tags := (tags s)(p \<mapsto> join [newline] sc2)\<rparr> else s
      | Before p \<Rightarrow>
          let (prev, sc) = set_inherited_scopes (read_tag p s) (scopes s)
          in s\<lparr>scopes := sc, saved := prev # saved s\<rparr>))"

section \<open>Bound functions\<close>

definition caller_scopes_tag :: "scope_state \<Rightarrow> string" where
  "caller_scopes_tag s = (if \<not> scoped_rules_active s then [] else join [newline] (deny_scopes s))"

text \<open>The call of the bound function is a parameter that may change the scope state.\<close>

definition run_with_scopes ::
  "string \<Rightarrow> (scope_state \<Rightarrow> 'r \<times> scope_state) \<Rightarrow> scope_state \<Rightarrow> 'r \<times> scope_state" where
  "run_with_scopes tag target s =
     (let (prev, s1) = set_inherited_scopes [] s;
          merged = prev @ filter (\<lambda>x. x \<noteq> []) (split newline tag);
          s2 = snd (set_inherited_scopes merged s1);
          (result, s3) = target s2
      in (result, snd (set_inherited_scopes prev s3)))"

definition bound_call ::
  "string \<Rightarrow> (scope_state \<Rightarrow> 'r \<times> scope_state) \<Rightarrow> scope_state \<Rightarrow> 'r \<times> scope_state" where
  "bound_call tag target s = (if tag = [] then target s else run_with_scopes tag target s)"

section \<open>Lemmas\<close>

lemma after_last_None: "p \<noteq> [] \<Longrightarrow> after_last p s = None \<longleftrightarrow> \<not> contains s p"
  by (induction s) (auto split: option.splits)

lemma after_last_append:
  assumes "p \<noteq> []" and "\<not> contains (tl (p @ r)) p"
  shows "after_last p (a @ p @ r) = Some r"
proof (induction a)
  case Nil
  obtain c q where p: "p = c # q" using assms(1) by (cases p) auto
  have "after_last p (q @ r) = None" using assms p by (simp add: after_last_None)
  then show ?case by (simp add: p)
qed simp

text \<open>A package name as it stands in a path: one component, or a scope and a name.\<close>

definition plain_name :: "string \<Rightarrow> bool" where
  "plain_name n \<longleftrightarrow> n \<noteq> [] \<and> CHR ''/'' \<notin> set n \<and> CHR 0x5C \<notin> set n \<and> hd n \<noteq> CHR ''@''"

lemma map_no_backslash: "CHR 0x5C \<notin> set s \<Longrightarrow> map (\<lambda>c. if c = CHR 0x5C then CHR ''/'' else c) s = s"
  by (induction s) auto

lemma package_scope_plain:
  assumes "plain_name pkg" and "CHR 0x5C \<notin> set (a @ rest)"
    and "\<not> contains (''node_modules/'' @ pkg @ ''/'' @ rest) ''/node_modules/''"
  shows "package_scope (a @ ''/node_modules/'' @ pkg @ ''/'' @ rest) = Some pkg"
proof -
  let ?path = "a @ ''/node_modules/'' @ pkg @ ''/'' @ rest"
  have m: "map (\<lambda>c. if c = CHR 0x5C then CHR ''/'' else c) ?path = ?path"
    using assms(1,2) by (intro map_no_backslash) (auto simp: plain_name_def)
  have al: "after_last ''/node_modules/'' ?path = Some (pkg @ CHR ''/'' # rest)"
    using after_last_append [of "''/node_modules/''" "pkg @ ''/'' @ rest" a] assms(3) by simp
  have sp: "split CHR ''/'' (pkg @ CHR ''/'' # rest) = pkg # split CHR ''/'' rest"
    using assms(1) by (intro split_append_sep) (simp add: plain_name_def)
  have "\<not> starts_with pkg ''@''" using assms(1) by (cases pkg) (auto simp: plain_name_def starts_with_def)
  then show ?thesis using assms(1) unfolding package_scope_def Let_def m al by (simp add: sp plain_name_def)
qed

lemma package_scope_at:
  assumes "plain_name sc" and "plain_name pkg" and "CHR 0x5C \<notin> set (a @ rest)"
    and "\<not> contains (''node_modules/@'' @ sc @ ''/'' @ pkg @ ''/'' @ rest) ''/node_modules/''"
  shows "package_scope (a @ ''/node_modules/@'' @ sc @ ''/'' @ pkg @ ''/'' @ rest) = Some (''@'' @ sc @ ''/'' @ pkg)"
proof -
  let ?path = "a @ ''/node_modules/@'' @ sc @ ''/'' @ pkg @ ''/'' @ rest"
  have m: "map (\<lambda>c. if c = CHR 0x5C then CHR ''/'' else c) ?path = ?path"
    using assms(1-3) by (intro map_no_backslash) (auto simp: plain_name_def)
  have al: "after_last ''/node_modules/'' ?path = Some (CHR ''@'' # sc @ CHR ''/'' # pkg @ CHR ''/'' # rest)"
    using after_last_append [of "''/node_modules/''" "CHR ''@'' # sc @ ''/'' @ pkg @ ''/'' @ rest" a] assms(4) by simp
  have "split CHR ''/'' ((CHR ''@'' # sc) @ CHR ''/'' # pkg @ CHR ''/'' # rest) =
      (CHR ''@'' # sc) # pkg # split CHR ''/'' rest"
    using assms(1,2) by (subst split_append_sep; simp add: plain_name_def split_append_sep)
  then show ?thesis using assms(1,2) unfolding package_scope_def Let_def m al
    by (simp add: plain_name_def starts_with_def)
qed

lemma set_foldl_push:
  "set (foldl (\<lambda>out name. push_scope entry name out) acc frames) =
     set acc \<union> {pkg. \<exists>n. Some n \<in> set frames \<and> package_scope n = Some pkg \<and> entry \<noteq> Some pkg}"
  by (induction frames arbitrary: acc) (auto simp: push_scope_def split: option.splits)

lemma set_frame_scopes:
  "set (frame_scopes entry frames) =
     {pkg. \<exists>n. Some n \<in> set frames \<and> package_scope n = Some pkg \<and> entry \<noteq> Some pkg}"
  by (simp add: frame_scopes_def set_foldl_push)

text \<open>Tags survive the trip through one string.\<close>

definition tag_safe :: "string list \<Rightarrow> bool" where
  "tag_safe ns \<longleftrightarrow> (\<forall>n\<in>set ns. newline \<notin> set n)"

lemma split_tag: "ns \<noteq> [] \<Longrightarrow> tag_safe ns \<Longrightarrow> split newline (join [newline] ns) = ns"
  by (rule split_join) (simp_all add: tag_safe_def)

lemma tag_safe_split: "tag_safe (split newline t)"
  by (auto simp: tag_safe_def dest: split_piece)

lemma tag_safe_append [simp]: "tag_safe (a @ b) \<longleftrightarrow> tag_safe a \<and> tag_safe b"
  by (auto simp: tag_safe_def)

lemma tag_safe_sort_dedup [simp]: "tag_safe (sort_dedup xs) = tag_safe xs"
  by (simp add: tag_safe_def)

lemma sort_dedup_Nil_iff: "sort_dedup xs = [] \<longleftrightarrow> xs = []"
  by (metis set_empty set_sort_dedup)

lemma read_tag_safe: "tag_safe (read_tag p s)"
  by (auto simp: read_tag_def tag_safe_split split: option.split) (simp add: tag_safe_def)

lemma init_tag:
  assumes "rules_active (scopes s)" and "tag_safe (deny_scopes (scopes s))"
    and "s' = promise_hook (Init p parent) s"
  shows "set (deny_scopes (scopes s)) \<union> (case parent of Some q \<Rightarrow> set (read_tag q s) | None \<Rightarrow> {}) \<subseteq> set (read_tag p s')"
proof -
  define sc where "sc = sort_dedup (deny_scopes (scopes s) @ (case parent of Some q \<Rightarrow> read_tag q s | None \<Rightarrow> []))"
  have "tag_safe sc" using assms(2) by (cases parent) (simp_all add: sc_def read_tag_safe tag_safe_def [of "[]"])
  then have "sc \<noteq> [] \<Longrightarrow> split newline (join [newline] sc) = sc" by (rule split_tag [rotated])
  moreover have s': "s' = (if sc \<noteq> [] then s\<lparr>tags := (tags s)(p \<mapsto> join [newline] sc)\<rparr> else s)"
    using assms(1,3) by (simp add: scoped_rules_active_def Let_def sc_def)
  ultimately have "set sc \<subseteq> set (read_tag p s')" by (simp add: read_tag_def)
  then show ?thesis by (cases parent) (auto simp: sc_def)
qed

lemma before_inherits:
  assumes "rules_active (scopes s)"
  shows "set (read_tag p s) \<subseteq> set (deny_scopes (scopes (promise_hook (Before p) s)))"
  using assms by (auto simp: scoped_rules_active_def set_inherited_scopes_def Let_def set_deny_scopes
      set_package_scopes split: option.splits)

lemma after_restores:
  assumes "rules_active (scopes s)" and "s1 = promise_hook (Before p) s"
    and "saved s2 = saved s1" and "rules_active (scopes s2)"
  shows "inherited_scopes (scopes (promise_hook After s2)) = inherited_scopes (scopes s)"
    and "saved (promise_hook After s2) = saved s"
  using assms by (simp_all add: scoped_rules_active_def set_inherited_scopes_def Let_def)

lemma bound_call_inherits:
  assumes "rules_active binder" and "tag_safe (deny_scopes binder)" and "[] \<notin> set (deny_scopes binder)"
    and "p \<in> set (deny_scopes binder)"
  shows "\<exists>s'. fst (bound_call (caller_scopes_tag binder) target s) = fst (target s') \<and>
    inherited_scopes (snd (bound_call (caller_scopes_tag binder) target s)) = inherited_scopes s \<and>
    stack_resolver s' = stack_resolver s \<and> p \<in> set (deny_scopes s')"
proof -
  let ?D = "deny_scopes binder"
  have D: "?D \<noteq> []" using assms(4) by auto
  then have t: "split newline (caller_scopes_tag binder) = ?D"
    using assms(1,2) by (simp add: caller_scopes_tag_def scoped_rules_active_def split_tag)
  then have ne: "caller_scopes_tag binder \<noteq> []" using D assms(3) by (cases ?D) auto
  have f: "filter (\<lambda>x. x \<noteq> []) ?D = ?D" using assms(3) by (auto intro: filter_True)
  let ?s' = "s\<lparr>inherited_scopes := inherited_scopes s @ ?D\<rparr>"
  have "p \<in> set (deny_scopes ?s')"
    using assms(4) by (auto simp: set_deny_scopes set_package_scopes split: option.splits)
  moreover have "bound_call (caller_scopes_tag binder) target s = run_with_scopes (caller_scopes_tag binder) target s"
    using ne by (simp add: bound_call_def)
  ultimately show ?thesis
    by (intro exI [of _ ?s']) (simp add: run_with_scopes_def t f set_inherited_scopes_def split: prod.split)
qed

text \<open>
  The package of a script is the innermost one of its path: whatever
  directories (other \<open>node_modules\<close> included) come before, the name after the last
  \<open>node_modules\<close> is found, together with its scope when it has one.
\<close>
theorem package_scope_innermost:
  assumes "plain_name pkg" and "CHR 0x5C \<notin> set (a @ rest)" and "sc = [] \<or> plain_name sc"
    and "name = (if sc = [] then pkg else ''@'' @ sc @ ''/'' @ pkg)"
    and "\<not> contains (''node_modules/'' @ name @ ''/'' @ rest) ''/node_modules/''"
  shows "package_scope (a @ ''/node_modules/'' @ name @ ''/'' @ rest) = Some name"
  using assms package_scope_plain [of pkg a rest] package_scope_at [of sc pkg a rest]
  by (cases "sc = []") simp_all

end
