(* ===== verification/Forwarded.thy ===== *)
theory Forwarded
  imports Ip_Addr
begin

text \<open>
  Trusted reverse proxies: \<open>ProxyRule\<close> and \<open>resolve_forwarded_for\<close> of
  \<open>crates/firewall/src/lib.rs\<close>. The lemmas show that a rule matches exactly the addresses that
  agree with it on the prefix, and what an \<open>X-Forwarded-For\<close> header can and cannot do.
\<close>

unbundle bit_operations_syntax

section \<open>Definitions\<close>

record proxy_rule =
  rule_addr :: ip_addr
  rule_prefix :: nat

definition family_bits :: "ip_addr \<Rightarrow> nat" where
  "family_bits ip = (case ip of V4 _ \<Rightarrow> 32 | V6 _ \<Rightarrow> 128)"

definition proxy_rule_parse :: "string \<Rightarrow> proxy_rule option" where
  "proxy_rule_parse s = do {
     (ip_part, pfx) \<leftarrow>
       (case split_once CHR ''/'' s of
          Some (ip, p) \<Rightarrow> map_option (Pair ip) (parse_uint u8_max p)
        | None \<Rightarrow> (case parse_ip s of Some ip \<Rightarrow> Some (s, family_bits ip) | None \<Rightarrow> None));
     addr \<leftarrow> parse_ip (trim ip_part);
     if pfx > family_bits addr then None
     else Some \<lparr>rule_addr = addr, rule_prefix = pfx\<rparr> }"

fun prefix_matches :: "ip_addr \<Rightarrow> nat \<Rightarrow> ip_addr \<Rightarrow> bool" where
  "prefix_matches (V4 base) n (V4 other) =
     (if n = 0 then True
      else let mask = push_bit (32 - n) (-1) in base AND mask = other AND mask)"
| "prefix_matches (V6 base) n (V6 other) =
     (if n = 0 then True
      else let mask = push_bit (128 - n) (-1) in base AND mask = other AND mask)"
| "prefix_matches _ _ _ = False"

definition proxy_rule_matches :: "proxy_rule \<Rightarrow> ip_addr \<Rightarrow> bool" where
  "proxy_rule_matches r ip = prefix_matches (rule_addr r) (rule_prefix r) ip"

definition trusts :: "proxy_rule list \<Rightarrow> ip_addr \<Rightarrow> bool" where
  "trusts trusted ip = list_ex (\<lambda>r. proxy_rule_matches r ip) trusted"

text \<open>The right-to-left walk over the entries: the first untrusted address; \<open>None\<close> when the walk
  ends without one, at a malformed entry or at the left end.\<close>

fun xff_walk :: "proxy_rule list \<Rightarrow> string list \<Rightarrow> ip_addr option" where
  "xff_walk trusted [] = None"
| "xff_walk trusted (part # parts) =
     (case parse_ip part of
        Some a \<Rightarrow> if \<not> trusts trusted a then Some a else xff_walk trusted parts
      | None \<Rightarrow> None)"

definition xff_entries :: "string \<Rightarrow> string list" where
  "xff_entries xff = map trim (split CHR '','' xff)"

definition resolve_forwarded_for :: "ip_addr \<Rightarrow> string \<Rightarrow> proxy_rule list \<Rightarrow> ip_addr option" where
  "resolve_forwarded_for peer xff trusted =
     (if \<not> trusts trusted peer then None
      else let entries = xff_entries xff
           in case xff_walk trusted (rev entries) of
                Some a \<Rightarrow> Some a
              | None \<Rightarrow> (case entries of e # _ \<Rightarrow> parse_ip e | [] \<Rightarrow> None))"

section \<open>Prefixes\<close>

lemma mask_eq_iff:
  fixes a b :: "'n::len word"
  shows "a AND NOT (mask n) = b AND NOT (mask n) \<longleftrightarrow> drop_bit n a = drop_bit n b"
proof
  assume h: "a AND NOT (mask n) = b AND NOT (mask n)"
  show "drop_bit n a = drop_bit n b"
  proof (rule bit_word_eqI)
    fix i assume "i < LENGTH('n)"
    show "bit (drop_bit n a) i = bit (drop_bit n b) i"
    proof (cases "n + i < LENGTH('n)")
      case True
      have "bit (a AND NOT (mask n)) (n + i) = bit (b AND NOT (mask n)) (n + i)"
        by (simp only: h)
      with True show ?thesis by (simp add: bit_simps)
    next
      case False
      then show ?thesis by (auto simp: bit_simps dest: bit_imp_le_length)
    qed
  qed
next
  assume h: "drop_bit n a = drop_bit n b"
  show "a AND NOT (mask n) = b AND NOT (mask n)"
  proof (rule bit_word_eqI)
    fix i assume "i < LENGTH('n)"
    have "bit a i = bit b i" if "n \<le> i"
      using h that by (metis bit_drop_bit_eq comp_apply le_add_diff_inverse)
    then show "bit (a AND NOT (mask n)) i = bit (b AND NOT (mask n)) i"
      by (auto simp: bit_simps)
  qed
qed

text \<open>The specification: same family, and the same leading \<open>n\<close> bits.\<close>

fun same_leading_bits :: "nat \<Rightarrow> ip_addr \<Rightarrow> ip_addr \<Rightarrow> bool" where
  "same_leading_bits n (V4 a) (V4 b) = (drop_bit (32 - n) a = drop_bit (32 - n) b)"
| "same_leading_bits n (V6 a) (V6 b) = (drop_bit (128 - n) a = drop_bit (128 - n) b)"
| "same_leading_bits n _ _ = False"

lemma drop_bit_all: "drop_bit LENGTH('n) (a :: 'n::len word) = 0"
  by (rule bit_word_eqI) (auto simp: bit_simps dest: bit_imp_le_length)

lemma prefix_matches_iff: "prefix_matches a n b \<longleftrightarrow> same_leading_bits n a b"
  using drop_bit_all [where 'n = 32] drop_bit_all [where 'n = 128]
  by (cases "(a, n, b)" rule: prefix_matches.cases) (auto simp: mask_eq_iff Let_def)

lemma proxy_rule_parse_valid:
  "proxy_rule_parse s = Some r \<Longrightarrow> rule_prefix r \<le> family_bits (rule_addr r)"
  by (auto simp: proxy_rule_parse_def bind_eq_Some_conv split: option.splits prod.splits if_splits)

section \<open>The header\<close>

lemma split_append: "split c (a @ c # b) = split c a @ split c b"
proof (induction a)
  case (Cons x a)
  then show ?case by (cases "split c a") (auto)
qed simp

lemma xff_entries_append: "xff_entries (a @ '','' @ b) = xff_entries a @ xff_entries b"
  by (simp add: xff_entries_def split_append)

lemma xff_entries_not_Nil [simp]: "xff_entries s \<noteq> []"
  by (simp add: xff_entries_def)

lemma xff_walk_append:
  "xff_walk trusted ps = Some a \<Longrightarrow> xff_walk trusted (ps @ qs) = Some a"
  by (induction ps) (auto split: option.splits if_splits)

lemma xff_walk_trusted:
  "(\<And>p. p \<in> set ps \<Longrightarrow> \<exists>a. parse_ip p = Some a \<and> trusts trusted a) \<Longrightarrow>
     xff_walk trusted (ps @ qs) = xff_walk trusted qs"
  by (induction ps) fastforce+

lemma xff_walk_untrusted: "xff_walk trusted ps = Some a \<Longrightarrow> \<not> trusts trusted a"
  by (induction ps) (auto split: option.splits if_splits)

section \<open>Properties\<close>

text \<open>
  A trusted-proxy rule matches exactly the addresses of its own family
  that agree with it on the leading \<open>prefix\<close> bits, from \<open>/0\<close> (the whole family) to a single
  host.
\<close>
theorem proxy_rule_matches_prefix:
  "proxy_rule_matches r ip \<longleftrightarrow> same_leading_bits (rule_prefix r) (rule_addr r) ip"
  by (simp add: proxy_rule_matches_def prefix_matches_iff)

text \<open>
  Claim C32 (safety). A client behind a trusted proxy cannot choose its address: whatever text it
  puts in front of the entries that the proxies appended, if the walk over those entries finds an
  untrusted address, that address is the answer, and it is never a trusted one.
\<close>
theorem forwarded_for_spoof_resistant:
  assumes "trusts trusted peer" and "xff_walk trusted (rev (xff_entries real)) = Some a"
  shows "resolve_forwarded_for peer (spoofed @ '','' @ real) trusted = Some a \<and> \<not> trusts trusted a"
proof
  have "xff_walk trusted (rev (xff_entries (spoofed @ '','' @ real))) = Some a"
    using assms(2) by (simp only: xff_entries_append rev_append xff_walk_append)
  then show "resolve_forwarded_for peer (spoofed @ '','' @ real) trusted = Some a"
    using assms(1) by (simp add: resolve_forwarded_for_def Let_def)
  show "\<not> trusts trusted a" using assms(2) by (rule xff_walk_untrusted)
qed

definition demo_rules :: "proxy_rule list" where
  "demo_rules = [\<lparr>rule_addr = V4 167772160, rule_prefix = 8\<rparr>]"

lemma demo_parse:
  "parse_ip ''6.6.6.6'' = Some (V4 101058054)" "parse_ip ''10.0.0.2'' = Some (V4 167772162)"
  "parse_ip ''8.8.8.8'' = Some (V4 134744072)" "parse_ip ''unknown'' = None"
  by code_simp+

lemma demo_trusts:
  "trusts demo_rules (V4 167772161)" "trusts demo_rules (V4 167772162)"
  "\<not> trusts demo_rules (V4 101058054)" "\<not> trusts demo_rules (V4 134744072)"
  by code_simp+

theorem forwarded_for_spoof_resistant_witness:
  "resolve_forwarded_for (V4 167772161) (''6.6.6.6'' @ '','' @ '' 8.8.8.8'') demo_rules =
     Some (V4 134744072)"
proof -
  have "rev (xff_entries '' 8.8.8.8'') = [''8.8.8.8'']" by code_simp
  then have "xff_walk demo_rules (rev (xff_entries '' 8.8.8.8'')) = Some (V4 134744072)"
    by (simp add: demo_parse demo_trusts)
  with demo_trusts(1) show ?thesis using forwarded_for_spoof_resistant by blast
qed

text \<open>
  A malformed entry hands the choice back to the client: when the entries to
  the right of a malformed one are all trusted proxies, the walk stops there and the left-most
  entry is returned if it is an address, although the walk never reached it and it need not be a
  trusted proxy.
\<close>
theorem forwarded_for_malformed_falls_left:
  assumes "trusts trusted peer"
    and "xff_entries xff = e # mid @ [bad] @ proxies"
    and "\<And>p. p \<in> set proxies \<Longrightarrow> \<exists>a. parse_ip p = Some a \<and> trusts trusted a"
    and "parse_ip bad = None"
  shows "resolve_forwarded_for peer xff trusted = parse_ip e"
proof -
  have "xff_walk trusted (rev proxies @ bad # rev (e # mid)) = xff_walk trusted (bad # rev (e # mid))"
    using assms(3) by (intro xff_walk_trusted) simp
  then have "xff_walk trusted (rev (xff_entries xff)) = None" using assms(2,4) by simp
  then show ?thesis using assms(1,2) by (simp add: resolve_forwarded_for_def Let_def)
qed

end
