(* ===== verification/F64.thy ===== *)
theory F64
  imports Complex_Main
begin

text \<open>
  \<open>f64\<close> arithmetic as the firewall uses it. An \<open>f64\<close> operation is the exact operation on reals
  followed by rounding; the rounding is an argument \<open>fl\<close> of the definitions that compute with
  \<open>f64\<close>. The locale \<open>f64_rounding\<close> states what the lemmas need of it: it is monotone on the
  non-negative numbers and exact on the integers up to \<open>2^53\<close>. It is interpreted twice: for
  \<open>fl64\<close>, rounding to nearest, ties to even, with a 53-bit significand (the format's exponent
  range is not a bound for the values of the firewall, which are zero or between \<open>2^-40\<close> and
  \<open>2^80\<close>), and for exact arithmetic, in which the counting theorems are stated.
\<close>

section \<open>The interface\<close>

locale f64_rounding =
  fixes fl :: "real \<Rightarrow> real"
  assumes fl_mono: "0 \<le> x \<Longrightarrow> x \<le> y \<Longrightarrow> fl x \<le> fl y"
    and fl_nat: "n \<le> 2 ^ 53 \<Longrightarrow> fl (real n) = real n"
begin

lemma fl_0: "fl 0 = 0"
  using fl_nat [of 0] by simp

lemma fl_nonneg: "0 \<le> x \<Longrightarrow> 0 \<le> fl x"
  using fl_mono [of 0 x] by (simp add: fl_0)

lemma fl_le_nat: "0 \<le> x \<Longrightarrow> x \<le> real n \<Longrightarrow> n \<le> 2 ^ 53 \<Longrightarrow> fl x \<le> real n"
  using fl_mono [of x "real n"] by (simp add: fl_nat)

lemma fl_ge_nat: "real n \<le> x \<Longrightarrow> n \<le> 2 ^ 53 \<Longrightarrow> real n \<le> fl x"
  using fl_mono [of "real n" x] by (simp add: fl_nat)

end

section \<open>Exact arithmetic\<close>

definition exact :: "real \<Rightarrow> real" where
  "exact x = x"

interpretation exact_f64: f64_rounding exact
  by unfold_locales (simp_all add: exact_def)

section \<open>Rounding to nearest, ties to even\<close>

definition round_half_even :: "real \<Rightarrow> int" where
  "round_half_even x =
     (let f = \<lfloor>x\<rfloor>; r = x - of_int f
      in if r < 1 / 2 then f else if r > 1 / 2 then f + 1 else if even f then f else f + 1)"

definition ulp_exp :: "real \<Rightarrow> int" where
  "ulp_exp x = \<lfloor>log 2 \<bar>x\<bar>\<rfloor> - 52"

definition fl64 :: "real \<Rightarrow> real" where
  "fl64 x = (if x = 0 then 0
     else of_int (round_half_even (x / 2 powi ulp_exp x)) * 2 powi ulp_exp x)"

lemma round_half_even_bounds: "\<lfloor>x\<rfloor> \<le> round_half_even x" "round_half_even x \<le> \<lfloor>x\<rfloor> + 1"
  by (auto simp: round_half_even_def Let_def)

lemma round_half_even_int [simp]: "round_half_even (of_int n) = n"
  by (simp add: round_half_even_def)

lemma round_half_even_mono: "x \<le> y \<Longrightarrow> round_half_even x \<le> round_half_even y"
proof -
  assume xy: "x \<le> y"
  show ?thesis
  proof (cases "\<lfloor>x\<rfloor> = \<lfloor>y\<rfloor>")
    case True
    with xy show ?thesis by (auto simp: round_half_even_def Let_def)
  next
    case False
    then have "\<lfloor>x\<rfloor> + 1 \<le> \<lfloor>y\<rfloor>" using floor_mono [OF xy] by linarith
    then show ?thesis
      using round_half_even_bounds [of x] round_half_even_bounds [of y] by linarith
  qed
qed

lemma round_half_even_le_int: "x \<le> of_int n \<Longrightarrow> round_half_even x \<le> n"
  using round_half_even_mono [of x "of_int n"] by simp

lemma round_half_even_ge_int: "of_int n \<le> x \<Longrightarrow> n \<le> round_half_even x"
  using round_half_even_mono [of "of_int n" x] by simp

lemma powi_floor_log:
  assumes "0 < (x::real)"
  shows "2 powi \<lfloor>log 2 x\<rfloor> \<le> x" and "x < 2 powi (\<lfloor>log 2 x\<rfloor> + 1)"
proof -
  have x: "x = 2 powr (log 2 x)" using assms by simp
  have "2 powr of_int \<lfloor>log 2 x\<rfloor> \<le> 2 powr (log 2 x)" by simp
  then show "2 powi \<lfloor>log 2 x\<rfloor> \<le> x" using assms by (simp add: powr_real_of_int')
  have "2 powr (log 2 x) < 2 powr of_int (\<lfloor>log 2 x\<rfloor> + 1)"
    by (simp only: powr_less_cancel_iff one_less_numeral_iff semiring_norm) linarith
  also have "(2::real) powr of_int (\<lfloor>log 2 x\<rfloor> + 1) = 2 powi (\<lfloor>log 2 x\<rfloor> + 1)"
    by (rule powr_real_of_int') simp_all
  finally show "x < 2 powi (\<lfloor>log 2 x\<rfloor> + 1)" using assms by simp
qed

lemma powi_split: "(2::real) powi (a + b) = 2 powi a * 2 powi b"
  by (rule power_int_add) simp

lemma fl64_lower:
  assumes "0 < x" shows "2 powi \<lfloor>log 2 x\<rfloor> \<le> fl64 x"
proof -
  let ?k = "\<lfloor>log 2 x\<rfloor>" and ?u = "(2::real) powi ulp_exp x"
  have u: "0 < ?u" by simp
  have e: "(2::real) powi ?k = 2 ^ 52 * ?u"
    using powi_split [of 52 "ulp_exp x"] assms by (simp add: ulp_exp_def)
  have "2 ^ 52 * ?u \<le> x" using powi_floor_log(1) [OF assms] e by simp
  then have "of_int (2 ^ 52) \<le> x / ?u" using u by (simp add: le_divide_eq)
  then have "2 ^ 52 \<le> round_half_even (x / ?u)" by (rule round_half_even_ge_int)
  then have "(2 ^ 52 :: real) \<le> of_int (round_half_even (x / ?u))"
    by (metis of_int_le_iff of_int_numeral of_int_power)
  then have "2 ^ 52 * ?u \<le> of_int (round_half_even (x / ?u)) * ?u"
    using u by (intro mult_right_mono) simp_all
  then show ?thesis using assms e by (simp add: fl64_def)
qed

lemma fl64_upper:
  assumes "0 < x" shows "fl64 x \<le> 2 powi (\<lfloor>log 2 x\<rfloor> + 1)"
proof -
  let ?k = "\<lfloor>log 2 x\<rfloor>" and ?u = "(2::real) powi ulp_exp x"
  have u: "0 < ?u" by simp
  have e: "(2::real) powi (?k + 1) = 2 ^ 53 * ?u"
    using powi_split [of 53 "ulp_exp x"] assms by (simp add: ulp_exp_def add.commute)
  have "x \<le> 2 ^ 53 * ?u" using powi_floor_log(2) [OF assms] e by simp
  then have "x / ?u \<le> of_int (2 ^ 53)" using u by (simp add: divide_le_eq)
  then have "round_half_even (x / ?u) \<le> 2 ^ 53" by (rule round_half_even_le_int)
  then have "of_int (round_half_even (x / ?u)) \<le> (2 ^ 53 :: real)"
    by (metis of_int_le_iff of_int_numeral of_int_power)
  then have "of_int (round_half_even (x / ?u)) * ?u \<le> 2 ^ 53 * ?u"
    using u by (intro mult_right_mono) simp_all
  then show ?thesis using assms e by (simp add: fl64_def)
qed

lemma fl64_mono:
  assumes "0 \<le> x" and "x \<le> y" shows "fl64 x \<le> fl64 y"
proof (cases "x = 0")
  case True
  show ?thesis
  proof (cases "y = 0")
    case False
    then have "0 < y" using assms by simp
    then have "2 powi \<lfloor>log 2 y\<rfloor> \<le> fl64 y" by (rule fl64_lower)
    moreover have "(0::real) < 2 powi \<lfloor>log 2 y\<rfloor>" by simp
    moreover have "fl64 x = 0" using True by (simp add: fl64_def)
    ultimately show ?thesis by linarith
  qed (simp add: True)
next
  case False
  with assms have x: "0 < x" and y: "0 < y" by simp_all
  have "log 2 x \<le> log 2 y" using x assms(2) by simp
  then have le: "\<lfloor>log 2 x\<rfloor> \<le> \<lfloor>log 2 y\<rfloor>" by (rule floor_mono)
  show ?thesis
  proof (cases "\<lfloor>log 2 x\<rfloor> = \<lfloor>log 2 y\<rfloor>")
    case True
    then have u: "ulp_exp x = ulp_exp y" using x y by (simp add: ulp_exp_def)
    have "x / 2 powi ulp_exp y \<le> y / 2 powi ulp_exp y" using assms(2) by (simp add: divide_right_mono)
    then have "round_half_even (x / 2 powi ulp_exp y) \<le> round_half_even (y / 2 powi ulp_exp y)"
      by (rule round_half_even_mono)
    then show ?thesis using x y by (simp add: fl64_def u mult_right_mono)
  next
    case False
    then have "\<lfloor>log 2 x\<rfloor> + 1 \<le> \<lfloor>log 2 y\<rfloor>" using le by simp
    then have "(2::real) powi (\<lfloor>log 2 x\<rfloor> + 1) \<le> 2 powi \<lfloor>log 2 y\<rfloor>"
      by (intro power_int_increasing) simp_all
    then show ?thesis using fl64_upper [OF x] fl64_lower [OF y] by linarith
  qed
qed

lemma fl64_scaled_int:
  "x \<noteq> 0 \<Longrightarrow> x = of_int m * 2 powi ulp_exp x \<Longrightarrow> fl64 x = x"
proof -
  assume x: "x \<noteq> 0" and m: "x = of_int m * 2 powi ulp_exp x"
  have "x / 2 powi ulp_exp x = of_int m" by (subst m) simp
  then have "fl64 x = of_int m * 2 powi ulp_exp x" using x by (simp add: fl64_def)
  then show ?thesis using m by simp
qed

lemma fl64_nat:
  assumes "n \<le> 2 ^ 53" shows "fl64 (real n) = real n"
proof (cases "n = 0")
  case False
  then have n: "0 < real n" by simp
  let ?k = "\<lfloor>log 2 (real n)\<rfloor>"
  have "real n \<le> 2 powi 53"
    using assms by (metis of_nat_le_iff of_nat_numeral of_nat_power power_int_of_nat)
  then have "2 powi ?k \<le> (2::real) powi 53" using powi_floor_log(1) [OF n] by linarith
  then have k: "?k \<le> 53" by (rule power_int_le_imp_le_exp [rotated]) simp_all
  have u: "ulp_exp (real n) = ?k - 52" by (simp add: ulp_exp_def)
  show ?thesis
  proof (cases "?k = 53")
    case True
    then have "2 powi 53 \<le> real n" using powi_floor_log(1) [OF n] by simp
    with \<open>real n \<le> 2 powi 53\<close> have "real n = 2 powi 53" by simp
    then have "real n = of_int (2 ^ 52) * 2 powi ulp_exp (real n)" using True u by simp
    then show ?thesis by (rule fl64_scaled_int [rotated]) (use n in simp)
  next
    case False
    then have "ulp_exp (real n) \<le> 0" using k unfolding u by linarith
    then obtain j where j: "ulp_exp (real n) = - int j" by (metis nonpos_int_cases)
    have "real n = of_int (int n * 2 ^ j) * 2 powi (- int j)"
      by (simp add: power_int_minus)
    then have "real n = of_int (int n * 2 ^ j) * 2 powi ulp_exp (real n)" unfolding j .
    then show ?thesis by (rule fl64_scaled_int [rotated]) (use n in simp)
  qed
qed (simp add: fl64_def)

interpretation ieee_f64: f64_rounding fl64
  by unfold_locales (rule fl64_mono fl64_nat; assumption)+

end
