(* ===== verification/Rust_Time.thy ===== *)
theory Rust_Time
  imports Rust_Std
begin

text \<open>
  Instants, durations and machine counters of the components that read the clock. Instants and
  durations are counted in nanoseconds; \<open>Instant + Duration\<close> panics where the sum is not
  representable (64-bit signed seconds), which is \<open>None\<close> here; \<open>duration_since\<close> saturates at
  zero, as the subtraction of natural numbers does. Counters wrap around at their width, as the
  release profile does.
\<close>

type_synonym instant = nat
type_synonym clock = "nat \<Rightarrow> instant"

abbreviation ns_per_sec :: nat where "ns_per_sec \<equiv> 1000000000"
abbreviation ns_per_ms :: nat where "ns_per_ms \<equiv> 1000000"

definition inc32 :: "nat \<Rightarrow> nat" where
  "inc32 n = (n + 1) mod 2 ^ 32"

definition inc64 :: "nat \<Rightarrow> nat" where
  "inc64 n = (n + 1) mod 2 ^ 64"

definition sat_mul64 :: "nat \<Rightarrow> nat \<Rightarrow> nat" where
  "sat_mul64 a b = min (a * b) u64_max"

definition instant_add :: "instant \<Rightarrow> nat \<Rightarrow> instant option" where
  "instant_add t d = (if t + d < 2 ^ 63 * ns_per_sec then Some (t + d) else None)"

end
