(* ===== verification/Firewall.thy ===== *)
theory Firewall
  imports Forwarded F64 Rust_Time
begin

text \<open>
  The HTTP firewall: \<open>FirewallConfig\<close>, the token bucket, the blocklist with its escalating
  durations and the connection accounting of \<open>crates/firewall/src/lib.rs\<close>.

  Instants and counters are those of \<open>Rust_Time\<close>: an operation that panics on an unrepresentable
  \<open>Instant + Duration\<close> returns \<open>None\<close>. Every call of \<open>Instant::now()\<close> in an
  operation is one reading of the clock; an operation that reads it several times takes the
  sequence \<open>t\<close> of its readings, in the order of the calls. \<open>f64\<close> operations round
  with the argument \<open>fl\<close> (\<open>F64\<close>). Each mutex guards one field; an operation here runs without
  interleaving, and the order of several operations is a sequence of steps.
\<close>

section \<open>Configuration\<close>

record firewall_config =
  enabled :: bool
  rate_limit_rps :: nat
  rate_limit_burst :: nat
  auto_block_threshold :: nat
  block_duration_secs :: nat
  block_escalation_factor :: nat
  max_block_duration_secs :: nat
  strike_decay_secs :: nat
  max_connections_per_ip :: nat
  max_connections_total :: nat
  header_timeout_ms :: nat
  body_timeout_ms :: nat
  max_header_count :: nat
  max_header_bytes :: nat
  max_body_bytes :: nat
  min_body_rate_bps :: nat
  keepalive_timeout_ms :: nat
  max_requests_per_conn :: nat
  adaptive_rate_limit :: bool
  ewma_alpha_pct :: nat
  trusted_proxies :: "string list"

definition default_config :: firewall_config where
  "default_config = \<lparr>
     enabled = True, rate_limit_rps = 100, rate_limit_burst = 200, auto_block_threshold = 10,
     block_duration_secs = 300, block_escalation_factor = 2, max_block_duration_secs = 3600,
     strike_decay_secs = 3600, max_connections_per_ip = 50, max_connections_total = 10000,
     header_timeout_ms = 10000, body_timeout_ms = 30000, max_header_count = 100,
     max_header_bytes = 16384, max_body_bytes = 0, min_body_rate_bps = 100,
     keepalive_timeout_ms = 5000, max_requests_per_conn = 1000, adaptive_rate_limit = False,
     ewma_alpha_pct = 20, trusted_proxies = []\<rparr>"

text \<open>The widths of the numeric fields.\<close>

definition config_ok :: "firewall_config \<Rightarrow> bool" where
  "config_ok c \<longleftrightarrow>
     rate_limit_rps c \<le> u32_max \<and> rate_limit_burst c \<le> u32_max \<and> auto_block_threshold c \<le> u32_max \<and>
     block_duration_secs c \<le> u64_max \<and> block_escalation_factor c \<le> u32_max \<and>
     max_block_duration_secs c \<le> u64_max \<and> max_connections_per_ip c \<le> u32_max \<and>
     max_connections_total c \<le> u32_max \<and> ewma_alpha_pct c \<le> u32_max"

section \<open>Adaptive rate limiting\<close>

definition ewma_update :: "(real \<Rightarrow> real) \<Rightarrow> real \<Rightarrow> real \<Rightarrow> nat \<Rightarrow> real" where
  "ewma_update fl prev sample alpha_pct =
     (let alpha = fl (real (min alpha_pct 100) / 100)
      in fl (fl (alpha * sample) + fl (fl (1 - alpha) * prev)))"

definition compute_effective_rps :: "(real \<Rightarrow> real) \<Rightarrow> nat \<Rightarrow> real option \<Rightarrow> bool \<Rightarrow> real" where
  "compute_effective_rps fl static_rps ewma adaptive =
     (let base = real static_rps
      in if \<not> adaptive then base
         else let baseline = (case ewma of Some e \<Rightarrow> e | None \<Rightarrow> 0);
                  adapted = of_int \<lceil>fl (baseline * (3 / 2))\<rceil>
              in min (max adapted base) (fl (base * 4)))"

section \<open>Token bucket\<close>

record token_bucket =
  capacity :: real
  tokens :: real
  rate :: real
  last_refill :: instant
  violations :: nat
  ewma_per_window :: "real option"
  window_count :: nat
  window_start :: "instant option"

definition bucket_new :: "nat \<Rightarrow> nat \<Rightarrow> instant \<Rightarrow> token_bucket" where
  "bucket_new rate_rps burst now =
     \<lparr>capacity = real burst, tokens = real burst, rate = real rate_rps, last_refill = now,
      violations = 0, ewma_per_window = None, window_count = 0, window_start = None\<rparr>"

definition note_request_at :: "(real \<Rightarrow> real) \<Rightarrow> instant \<Rightarrow> nat \<Rightarrow> token_bucket \<Rightarrow> token_bucket" where
  "note_request_at fl now alpha_pct b =
     (let b1 =
        (case window_start b of
           None \<Rightarrow> b\<lparr>window_start := Some now\<rparr>
         | Some start \<Rightarrow>
             if now - start \<ge> 1 * ns_per_sec then
               let sample = real (window_count b)
               in b\<lparr>ewma_per_window := Some (case ewma_per_window b of
                        None \<Rightarrow> sample
                      | Some prev \<Rightarrow> ewma_update fl prev sample alpha_pct),
                    window_count := 0, window_start := Some now\<rparr>
             else b)
      in b1\<lparr>window_count := inc32 (window_count b1)\<rparr>)"

definition as_secs_f64 :: "(real \<Rightarrow> real) \<Rightarrow> nat \<Rightarrow> real" where
  "as_secs_f64 fl d = fl (fl (real (d div ns_per_sec)) + fl (real (d mod ns_per_sec) / 1000000000))"

definition consume :: "(real \<Rightarrow> real) \<Rightarrow> instant \<Rightarrow> token_bucket \<Rightarrow> bool \<times> token_bucket" where
  "consume fl now b =
     (let elapsed = as_secs_f64 fl (now - last_refill b);
          b1 = b\<lparr>tokens := min (fl (tokens b + fl (elapsed * rate b))) (capacity b), last_refill := now\<rparr>
      in if tokens b1 \<ge> 1 then
           (True, b1\<lparr>tokens := fl (tokens b1 - 1),
                     violations := (if violations b1 > 0 then violations b1 - 1 else violations b1)\<rparr>)
         else (False, b1\<lparr>violations := inc32 (violations b1)\<rparr>))"

definition is_idle :: "instant \<Rightarrow> nat \<Rightarrow> token_bucket \<Rightarrow> bool" where
  "is_idle now threshold b \<longleftrightarrow> now - last_refill b > threshold"

section \<open>Blocklist and decisions\<close>

datatype block_reason = RateLimitViolation | ManualBlock

record block_entry =
  expires :: instant
  block_reason :: block_reason

record strike_record =
  strike_count :: nat
  last_strike :: instant

abbreviation MAX_STRIKES :: nat where "MAX_STRIKES \<equiv> 16"

datatype firewall_decision =
    Allowed
  | RateLimited nat
  | Blocked block_reason nat
  | ConnectionLimitReached

definition is_allowed :: "firewall_decision \<Rightarrow> bool" where
  "is_allowed d \<longleftrightarrow> d = Allowed"

fun http_status :: "firewall_decision \<Rightarrow> nat" where
  "http_status Allowed = 200"
| "http_status (RateLimited _) = 429"
| "http_status (Blocked _ _) = 403"
| "http_status ConnectionLimitReached = 503"

fun decision_message :: "firewall_decision \<Rightarrow> string" where
  "decision_message Allowed = ''OK''"
| "decision_message (RateLimited _) = ''Too Many Requests''"
| "decision_message (Blocked _ _) = ''Forbidden''"
| "decision_message ConnectionLimitReached = ''Service Unavailable''"

record firewall =
  config :: firewall_config
  buckets :: "ip_addr \<rightharpoonup> token_bucket"
  blocklist :: "ip_addr \<rightharpoonup> block_entry"
  strikes :: "ip_addr \<rightharpoonup> strike_record"
  conn_per_ip :: "ip_addr \<rightharpoonup> nat"
  conn_total :: nat

definition firewall_new :: "firewall_config \<Rightarrow> firewall" where
  "firewall_new c = \<lparr>config = c, buckets = Map.empty, blocklist = Map.empty, strikes = Map.empty,
     conn_per_ip = Map.empty, conn_total = 0\<rparr>"

definition trusted_rules :: "firewall_config \<Rightarrow> proxy_rule list" where
  "trusted_rules c = List.map_filter proxy_rule_parse (trusted_proxies c)"

definition client_ip_from_xff :: "firewall_config \<Rightarrow> ip_addr \<Rightarrow> string option \<Rightarrow> ip_addr" where
  "client_ip_from_xff c peer xff =
     (case xff of
        None \<Rightarrow> peer
      | Some h \<Rightarrow>
          let rules = trusted_rules c
          in if rules = [] then peer
             else (case resolve_forwarded_for peer h rules of Some a \<Rightarrow> a | None \<Rightarrow> peer))"

definition is_trusted_proxy :: "firewall_config \<Rightarrow> ip_addr \<Rightarrow> bool" where
  "is_trusted_proxy c ip = list_ex (\<lambda>r. proxy_rule_matches r ip) (trusted_rules c)"

definition check_blocklist :: "instant \<Rightarrow> ip_addr \<Rightarrow> firewall \<Rightarrow> firewall_decision option" where
  "check_blocklist now ip fw =
     (case blocklist fw ip of
        Some entry \<Rightarrow>
          if expires entry > now
          then Some (Blocked (block_reason entry) ((expires entry - now) div 1000000 mod 2 ^ 64))
          else None
      | None \<Rightarrow> None)"

definition check_connection_behind_proxy :: "instant \<Rightarrow> ip_addr \<Rightarrow> firewall \<Rightarrow> firewall_decision" where
  "check_connection_behind_proxy now peer fw =
     (if \<not> enabled (config fw) then Allowed
      else (case check_blocklist now peer fw of
              Some decision \<Rightarrow> decision
            | None \<Rightarrow>
                if conn_total fw \<ge> max_connections_total (config fw) then ConnectionLimitReached
                else Allowed))"

definition check_connection :: "instant \<Rightarrow> ip_addr \<Rightarrow> firewall \<Rightarrow> firewall_decision" where
  "check_connection now ip fw =
     (if \<not> enabled (config fw) then Allowed
      else (case check_blocklist now ip fw of
              Some decision \<Rightarrow> decision
            | None \<Rightarrow>
                if conn_total fw \<ge> max_connections_total (config fw) then ConnectionLimitReached
                else if (case conn_per_ip fw ip of Some n \<Rightarrow> n | None \<Rightarrow> 0)
                          \<ge> max_connections_per_ip (config fw) then ConnectionLimitReached
                else Allowed))"

section \<open>Blocking\<close>

definition block_ip ::
  "instant \<Rightarrow> ip_addr \<Rightarrow> nat \<Rightarrow> block_reason \<Rightarrow> firewall \<Rightarrow> firewall option" where
  "block_ip now ip duration reason fw = do {
     e \<leftarrow> instant_add now duration;
     Some (fw\<lparr>blocklist := (blocklist fw)(ip \<mapsto> \<lparr>expires = e, block_reason = reason\<rparr>)\<rparr>) }"

definition unblock_ip :: "ip_addr \<Rightarrow> firewall \<Rightarrow> firewall" where
  "unblock_ip ip fw = fw\<lparr>blocklist := (blocklist fw)(ip := None)\<rparr>"

definition is_blocked :: "instant \<Rightarrow> ip_addr \<Rightarrow> firewall \<Rightarrow> bool" where
  "is_blocked now ip fw =
     (case blocklist fw ip of Some entry \<Rightarrow> expires entry > now | None \<Rightarrow> False)"

fun escalate :: "nat \<Rightarrow> nat \<Rightarrow> nat \<Rightarrow> nat \<Rightarrow> nat" where
  "escalate 0 factor cap dur = dur"
| "escalate (Suc n) factor cap dur =
     (let dur' = min (sat_mul64 dur factor) cap
      in if dur' \<ge> cap then dur' else escalate n factor cap dur')"

definition block_duration_secs_for :: "firewall_config \<Rightarrow> nat \<Rightarrow> nat" where
  "block_duration_secs_for c n =
     (let base = block_duration_secs c;
          factor = max (block_escalation_factor c) 1;
          cap = max (max_block_duration_secs c) base
      in escalate (min n MAX_STRIKES - 1) factor cap base)"

definition record_auto_block :: "clock \<Rightarrow> ip_addr \<Rightarrow> firewall \<Rightarrow> (nat \<times> firewall) option" where
  "record_auto_block t ip fw =
     (let rec = (case strikes fw ip of
                   Some r \<Rightarrow> r | None \<Rightarrow> \<lparr>strike_count = 0, last_strike = t 0\<rparr>);
          rec' = \<lparr>strike_count = min (min (strike_count rec + 1) u32_max) MAX_STRIKES, last_strike = t 1\<rparr>;
          fw1 = fw\<lparr>strikes := (strikes fw)(ip \<mapsto> rec')\<rparr>;
          duration_secs = block_duration_secs_for (config fw) (strike_count rec')
      in do {
           fw2 \<leftarrow> block_ip (t 2) ip (duration_secs * ns_per_sec) RateLimitViolation fw1;
           Some (duration_secs, fw2) })"

section \<open>Requests\<close>

text \<open>\<open>(1000.0 / rps as f64) as u64\<close>: a division by zero is infinite, and the cast saturates.\<close>

definition retry_after_ms :: "(real \<Rightarrow> real) \<Rightarrow> firewall_config \<Rightarrow> nat" where
  "retry_after_ms fl c =
     (if rate_limit_rps c = 0 then u64_max else nat \<lfloor>fl (1000 / real (rate_limit_rps c))\<rfloor>)"

definition effective_bucket_rate :: "(real \<Rightarrow> real) \<Rightarrow> firewall_config \<Rightarrow> token_bucket \<Rightarrow> real" where
  "effective_bucket_rate fl c b =
     compute_effective_rps fl (rate_limit_rps c) (ewma_per_window b) (adaptive_rate_limit c)"

definition check_request ::
  "(real \<Rightarrow> real) \<Rightarrow> clock \<Rightarrow> ip_addr \<Rightarrow> firewall \<Rightarrow> (firewall_decision \<times> firewall) option" where
  "check_request fl t ip fw =
     (let c = config fw
      in if \<not> enabled c then Some (Allowed, fw)
         else (case check_blocklist (t 0) ip fw of
           Some decision \<Rightarrow> Some (decision, fw)
         | None \<Rightarrow>
             let b0 = (case buckets fw ip of
                         Some b \<Rightarrow> b
                       | None \<Rightarrow> bucket_new (rate_limit_rps c) (rate_limit_burst c) (t 1));
                 b1 = note_request_at fl (t 2) (ewma_alpha_pct c) b0;
                 b2 = b1\<lparr>rate := effective_bucket_rate fl c b1\<rparr>;
                 (ok, b3) = consume fl (t 3) b2;
                 fw1 = fw\<lparr>buckets := (buckets fw)(ip \<mapsto> b3)\<rparr>
             in if ok then Some (Allowed, fw1)
                else if is_trusted_proxy c ip then Some (RateLimited (retry_after_ms fl c), fw1)
                else if violations b3 \<ge> auto_block_threshold c then do {
                  (duration_secs, fw2) \<leftarrow> record_auto_block (\<lambda>i. t (4 + i)) ip fw1;
                  Some (Blocked RateLimitViolation (duration_secs * 1000 mod 2 ^ 64), fw2) }
                else Some (RateLimited (retry_after_ms fl c), fw1)))"

section \<open>Connections\<close>

definition on_connect :: "ip_addr \<Rightarrow> firewall \<Rightarrow> firewall" where
  "on_connect ip fw =
     (if \<not> enabled (config fw) then fw
      else fw\<lparr>conn_per_ip := (conn_per_ip fw)(ip \<mapsto> inc32 (case conn_per_ip fw ip of Some n \<Rightarrow> n | None \<Rightarrow> 0)),
              conn_total := inc32 (conn_total fw)\<rparr>)"

definition on_disconnect :: "ip_addr \<Rightarrow> firewall \<Rightarrow> firewall" where
  "on_disconnect ip fw =
     (if \<not> enabled (config fw) then fw
      else
        let per_ip = (case conn_per_ip fw ip of
                        Some n \<Rightarrow> (let n' = n - 1
                          in if n' = 0 then (conn_per_ip fw)(ip := None) else (conn_per_ip fw)(ip \<mapsto> n'))
                      | None \<Rightarrow> conn_per_ip fw)
        in fw\<lparr>conn_per_ip := per_ip, conn_total := conn_total fw - 1\<rparr>)"

definition on_connect_unattributed :: "firewall \<Rightarrow> firewall" where
  "on_connect_unattributed fw =
     (if \<not> enabled (config fw) then fw else fw\<lparr>conn_total := inc32 (conn_total fw)\<rparr>)"

definition on_disconnect_unattributed :: "firewall \<Rightarrow> firewall" where
  "on_disconnect_unattributed fw =
     (if \<not> enabled (config fw) then fw else fw\<lparr>conn_total := conn_total fw - 1\<rparr>)"

section \<open>Cleanup\<close>

definition retain :: "('k \<Rightarrow> 'v \<Rightarrow> bool) \<Rightarrow> ('k \<rightharpoonup> 'v) \<Rightarrow> ('k \<rightharpoonup> 'v)" where
  "retain keep m = (\<lambda>k. case m k of Some v \<Rightarrow> if keep k v then Some v else None | None \<Rightarrow> None)"

text \<open>\<open>tb ip\<close> and \<open>ts ip\<close> are the readings made when the bucket and the strikes of \<open>ip\<close> are visited.\<close>

definition cleanup ::
  "instant \<Rightarrow> (ip_addr \<Rightarrow> instant) \<Rightarrow> (ip_addr \<Rightarrow> instant) \<Rightarrow> firewall \<Rightarrow> firewall" where
  "cleanup now tb ts fw =
     fw\<lparr>blocklist := retain (\<lambda>_ e. expires e > now) (blocklist fw),
        buckets := retain (\<lambda>ip b. \<not> is_idle (tb ip) (300 * ns_per_sec) b) (buckets fw),
        strikes := retain (\<lambda>ip r. ts ip - last_strike r \<le> strike_decay_secs (config fw) * ns_per_sec)
                     (strikes fw)\<rparr>"

end
