(* ===== verification/Firewall_Limits.thy ===== *)
theory Firewall_Limits
  imports Firewall Step_System
begin

text \<open>
  What the firewall promises about request rates: the token bucket stays within its capacity
  under \<open>f64\<close> rounding, the adaptive rate stays between the configured rate and four times it,
  and the number of admitted requests of an address is bounded by the burst plus the refill.
  The closed form of the escalating block duration is here too.
\<close>

section \<open>One bucket\<close>

definition bucket_ok :: "firewall_config \<Rightarrow> token_bucket \<Rightarrow> bool" where
  "bucket_ok c b \<longleftrightarrow>
     capacity b = real (rate_limit_burst c) \<and> 0 \<le> tokens b \<and> tokens b \<le> capacity b \<and>
     real (rate_limit_rps c) \<le> rate b \<and> rate b \<le> 4 * real (rate_limit_rps c) \<and>
     (\<forall>e. ewma_per_window b = Some e \<longrightarrow> 0 \<le> e)"

text \<open>The bucket part of \<open>check_request\<close>: note the request, set the rate, consume.\<close>

definition serve ::
  "(real \<Rightarrow> real) \<Rightarrow> firewall_config \<Rightarrow> clock \<Rightarrow> token_bucket \<Rightarrow> bool \<times> token_bucket" where
  "serve fl c t b =
     (let b1 = note_request_at fl (t 2) (ewma_alpha_pct c) b
      in consume fl (t 3) (b1\<lparr>rate := effective_bucket_rate fl c b1\<rparr>))"

definition bucket_at :: "firewall \<Rightarrow> clock \<Rightarrow> ip_addr \<Rightarrow> token_bucket" where
  "bucket_at fw t ip = (case buckets fw ip of
     Some b \<Rightarrow> b
   | None \<Rightarrow> bucket_new (rate_limit_rps (config fw)) (rate_limit_burst (config fw)) (t 1))"

lemma bucket_ok_new: "bucket_ok c (bucket_new (rate_limit_rps c) (rate_limit_burst c) now)"
  by (simp add: bucket_ok_def bucket_new_def)

lemma note_request_frame [simp]:
  "tokens (note_request_at fl now a b) = tokens b"
  "capacity (note_request_at fl now a b) = capacity b"
  "rate (note_request_at fl now a b) = rate b"
  "last_refill (note_request_at fl now a b) = last_refill b"
  "violations (note_request_at fl now a b) = violations b"
  by (simp_all add: note_request_at_def Let_def split: option.split)

lemma consume_frame [simp]:
  "capacity (snd (consume fl now b)) = capacity b"
  "rate (snd (consume fl now b)) = rate b"
  "last_refill (snd (consume fl now b)) = now"
  "ewma_per_window (snd (consume fl now b)) = ewma_per_window b"
  by (simp_all add: consume_def Let_def)

lemma config_ok_small:
  assumes "config_ok c"
  shows "rate_limit_rps c * 4 \<le> 2 ^ 53" "rate_limit_burst c \<le> 2 ^ 53"
  using assms by (simp_all add: config_ok_def)

context f64_rounding
begin

lemma ewma_nonneg:
  assumes "0 \<le> prev" and "0 \<le> sample"
  shows "0 \<le> ewma_update fl prev sample alpha"
proof -
  let ?a = "fl (real (min alpha 100) / 100)"
  have "?a \<le> real 1" by (rule fl_le_nat) auto
  moreover have "0 \<le> ?a" by (rule fl_nonneg) simp
  ultimately show ?thesis using assms
    by (simp add: ewma_update_def Let_def fl_nonneg)
qed

lemma effective_rate_bounds:
  assumes "rps * 4 \<le> 2 ^ 53"
  shows "real rps \<le> compute_effective_rps fl rps ewma adaptive"
    and "compute_effective_rps fl rps ewma adaptive \<le> 4 * real rps"
proof -
  have "fl (real (rps * 4)) = real (rps * 4)" using assms by (rule fl_nat)
  then have four: "fl (real rps * 4) = 4 * real rps" by simp
  show "real rps \<le> compute_effective_rps fl rps ewma adaptive"
    by (simp add: compute_effective_rps_def Let_def four)
  show "compute_effective_rps fl rps ewma adaptive \<le> 4 * real rps"
    by (simp add: compute_effective_rps_def Let_def four)
qed

lemma note_request_ewma_nonneg:
  assumes "\<forall>e. ewma_per_window b = Some e \<longrightarrow> 0 \<le> e"
    and "ewma_per_window (note_request_at fl now a b) = Some e"
  shows "0 \<le> e"
  using assms by (auto simp: note_request_at_def Let_def ewma_nonneg split: option.splits if_splits)

lemma as_secs_nonneg: "0 \<le> as_secs_f64 fl d"
  by (simp add: as_secs_f64_def fl_nonneg)

lemma consume_tokens:
  assumes "0 \<le> tokens b" "0 \<le> rate b" "capacity b = real k" "k \<le> 2 ^ 53"
  shows "0 \<le> tokens (snd (consume fl now b))" and "tokens (snd (consume fl now b)) \<le> real k"
proof -
  let ?x = "min (fl (tokens b + fl (as_secs_f64 fl (now - last_refill b) * rate b))) (real k)"
  have x: "0 \<le> ?x" using assms by (simp add: fl_nonneg as_secs_nonneg)
  show "0 \<le> tokens (snd (consume fl now b))"
    using x assms(3) by (auto simp: consume_def Let_def fl_nonneg)
  have "?x \<ge> 1 \<Longrightarrow> fl (?x - 1) \<le> real k" by (rule fl_le_nat) (use assms(4) in auto)
  then show "tokens (snd (consume fl now b)) \<le> real k"
    using assms(3) by (auto simp: consume_def Let_def)
qed

lemma bucket_ok_serve:
  assumes c: "config_ok c" and b: "bucket_ok c b"
  shows "bucket_ok c (snd (serve fl c t b))"
proof -
  define b1 where "b1 = note_request_at fl (t 2) (ewma_alpha_pct c) b"
  let ?b2 = "b1\<lparr>rate := effective_bucket_rate fl c b1\<rparr>"
  note small = config_ok_small [OF c]
  have r: "real (rate_limit_rps c) \<le> rate ?b2" "rate ?b2 \<le> 4 * real (rate_limit_rps c)"
    using effective_rate_bounds [OF small(1)] by (simp_all add: effective_bucket_rate_def)
  then have "0 \<le> rate ?b2" using of_nat_0_le_iff order_trans by blast
  then have t: "0 \<le> tokens (snd (consume fl (t 3) ?b2))"
      "tokens (snd (consume fl (t 3) ?b2)) \<le> real (rate_limit_burst c)"
    using b small(2) by (intro consume_tokens; simp add: bucket_ok_def b1_def)+
  have "\<forall>e. ewma_per_window b1 = Some e \<longrightarrow> 0 \<le> e"
    using b note_request_ewma_nonneg unfolding b1_def bucket_ok_def by blast
  then show ?thesis using r t b by (simp add: serve_def bucket_ok_def b1_def Let_def)
qed

end

section \<open>Requests\<close>

lemma check_request_serve:
  assumes "serve fl (config fw) t (bucket_at fw t ip) = (ok, b3)"
  defines "fw1 \<equiv> fw\<lparr>buckets := (buckets fw)(ip \<mapsto> b3)\<rparr>"
  shows "check_request fl t ip fw =
     (if \<not> enabled (config fw) then Some (Allowed, fw)
      else case check_blocklist (t 0) ip fw of
        Some decision \<Rightarrow> Some (decision, fw)
      | None \<Rightarrow>
          if ok then Some (Allowed, fw1)
          else if is_trusted_proxy (config fw) ip then Some (RateLimited (retry_after_ms fl (config fw)), fw1)
          else if violations b3 \<ge> auto_block_threshold (config fw) then do {
            (secs, fw2) \<leftarrow> record_auto_block (\<lambda>i. t (4 + i)) ip fw1;
            Some (Blocked RateLimitViolation (secs * 1000 mod 2 ^ 64), fw2) }
          else Some (RateLimited (retry_after_ms fl (config fw)), fw1))"
  unfolding check_request_def Let_def
  using assms(1) unfolding serve_def Let_def bucket_at_def fw1_def
  by (cases "buckets fw ip"; simp split: option.split)

lemma check_request_cases:
  assumes "check_request fl t ip fw = Some (d, fw')"
  obtains (off) "\<not> enabled (config fw)" "d = Allowed" "fw' = fw"
    | (listed) "enabled (config fw)" "check_blocklist (t 0) ip fw = Some d" "fw' = fw"
    | (ok) "enabled (config fw)" "check_blocklist (t 0) ip fw = None"
        "fst (serve fl (config fw) t (bucket_at fw t ip))" "d = Allowed"
        "fw' = fw\<lparr>buckets := (buckets fw)(ip \<mapsto> snd (serve fl (config fw) t (bucket_at fw t ip)))\<rparr>"
    | (limited) "enabled (config fw)" "check_blocklist (t 0) ip fw = None"
        "\<not> fst (serve fl (config fw) t (bucket_at fw t ip))" "d = RateLimited (retry_after_ms fl (config fw))"
        "fw' = fw\<lparr>buckets := (buckets fw)(ip \<mapsto> snd (serve fl (config fw) t (bucket_at fw t ip)))\<rparr>"
    | (auto) secs where "enabled (config fw)" "check_blocklist (t 0) ip fw = None"
        "\<not> fst (serve fl (config fw) t (bucket_at fw t ip))" "\<not> is_trusted_proxy (config fw) ip"
        "d = Blocked RateLimitViolation (secs * 1000 mod 2 ^ 64)"
        "record_auto_block (\<lambda>i. t (4 + i)) ip
           (fw\<lparr>buckets := (buckets fw)(ip \<mapsto> snd (serve fl (config fw) t (bucket_at fw t ip)))\<rparr>) =
         Some (secs, fw')"
proof -
  define b where "b = bucket_at fw t ip"
  obtain ok b3 where s: "serve fl (config fw) t b = (ok, b3)" by (cases "serve fl (config fw) t b")
  define fw1 where "fw1 = fw\<lparr>buckets := (buckets fw)(ip \<mapsto> b3)\<rparr>"
  note eq = check_request_serve [OF s [unfolded b_def], folded fw1_def]
  consider "\<not> enabled (config fw)"
    | dd where "enabled (config fw)" "check_blocklist (t 0) ip fw = Some dd"
    | "enabled (config fw)" "check_blocklist (t 0) ip fw = None" by fastforce
  then show thesis
  proof cases
    case 1
    then show ?thesis using assms eq by (intro off) auto
  next
    case 2
    then show ?thesis using assms eq by (intro listed) auto
  next
    case 3
    show ?thesis
    proof (cases ok)
      case True
      then show ?thesis using assms eq 3 s by (intro ok) (auto simp: b_def fw1_def)
    next
      case False
      show ?thesis
      proof (cases "d = RateLimited (retry_after_ms fl (config fw))")
        case True
        then show ?thesis using assms eq 3 s False
          by (intro limited) (auto simp: b_def fw1_def bind_eq_Some_conv split: if_splits)
      next
        case no: False
        then obtain secs where "\<not> is_trusted_proxy (config fw) ip"
            "d = Blocked RateLimitViolation (secs * 1000 mod 2 ^ 64)"
            "record_auto_block (\<lambda>i. t (4 + i)) ip fw1 = Some (secs, fw')"
          using assms eq 3 False by (auto simp: bind_eq_Some_conv split: if_splits)
        then show ?thesis using 3 s False by (intro auto [of secs]) (auto simp: b_def fw1_def)
      qed
    qed
  qed
qed

lemma record_auto_block_Some:
  assumes "record_auto_block t ip fw = Some (secs, fw')"
  obtains e n where "fw' = fw\<lparr>strikes := (strikes fw)(ip \<mapsto> \<lparr>strike_count = n, last_strike = t 1\<rparr>),
        blocklist := (blocklist fw)(ip \<mapsto> \<lparr>expires = e, block_reason = RateLimitViolation\<rparr>)\<rparr>"
    and "secs = block_duration_secs_for (config fw) n" and "e = t 2 + secs * ns_per_sec"
    and "1 \<le> n" and "n \<le> MAX_STRIKES"
    and "n = min (case strikes fw ip of Some r \<Rightarrow> strike_count r + 1 | None \<Rightarrow> 1) MAX_STRIKES"
proof -
  define n where "n = min (case strikes fw ip of Some r \<Rightarrow> strike_count r + 1 | None \<Rightarrow> 1) MAX_STRIKES"
  define rec where "rec = (case strikes fw ip of Some r \<Rightarrow> r | None \<Rightarrow> \<lparr>strike_count = 0, last_strike = t 0\<rparr>)"
  have n': "min (min (strike_count rec + 1) u32_max) MAX_STRIKES = n"
    by (cases "strikes fw ip") (simp_all add: n_def rec_def)
  have n: "1 \<le> n" "n \<le> MAX_STRIKES" by (cases "strikes fw ip"; simp add: n_def)+
  from assms have "block_ip (t 2) ip (secs * ns_per_sec) RateLimitViolation
        (fw\<lparr>strikes := (strikes fw)(ip \<mapsto> \<lparr>strike_count = n, last_strike = t 1\<rparr>)\<rparr>) = Some fw'"
      and secs: "secs = block_duration_secs_for (config fw) n"
    unfolding record_auto_block_def Let_def rec_def [symmetric] n'
    by (auto simp only: bind_eq_Some_conv prod.inject option.inject strike_record.simps)
  then have "fw' = fw\<lparr>strikes := (strikes fw)(ip \<mapsto> \<lparr>strike_count = n, last_strike = t 1\<rparr>),
      blocklist := (blocklist fw)(ip \<mapsto> \<lparr>expires = t 2 + secs * ns_per_sec, block_reason = RateLimitViolation\<rparr>)\<rparr>"
    by (auto simp: block_ip_def bind_eq_Some_conv instant_add_def split: if_splits)
  then show thesis using secs refl n n_def by (rule that)
qed

section \<open>Runs\<close>

text \<open>
  The firewall under traffic: the state is the time and the firewall. Time only advances, every
  operation reads the clock between the time it starts and the time it ends, and any number of
  requests, connections and cleanups of any addresses follow each other in any order.
\<close>

inductive traffic_step :: "(real \<Rightarrow> real) \<Rightarrow> instant \<times> firewall \<Rightarrow> instant \<times> firewall \<Rightarrow> bool"
  for fl :: "real \<Rightarrow> real" where
  request: "mono t \<Longrightarrow> now \<le> t 0 \<Longrightarrow> t 6 \<le> now' \<Longrightarrow> check_request fl t ip fw = Some (d, fw') \<Longrightarrow>
    traffic_step fl (now, fw) (now', fw')"
| connect: "now \<le> now' \<Longrightarrow> traffic_step fl (now, fw) (now', on_connect ip fw)"
| disconnect: "now \<le> now' \<Longrightarrow> traffic_step fl (now, fw) (now', on_disconnect ip fw)"
| connect_unattributed: "now \<le> now' \<Longrightarrow> traffic_step fl (now, fw) (now', on_connect_unattributed fw)"
| disconnect_unattributed: "now \<le> now' \<Longrightarrow> traffic_step fl (now, fw) (now', on_disconnect_unattributed fw)"
| clean: "now \<le> tc \<Longrightarrow> tc \<le> now' \<Longrightarrow> \<forall>ip. tc \<le> tb ip \<and> tb ip \<le> now' \<and> tc \<le> ts ip \<and> ts ip \<le> now' \<Longrightarrow>
    traffic_step fl (now, fw) (now', cleanup tc tb ts fw)"

definition traffic_inv :: "instant \<times> firewall \<Rightarrow> bool" where
  "traffic_inv s \<longleftrightarrow> config_ok (config (snd s)) \<and>
     (\<forall>ip b. buckets (snd s) ip = Some b \<longrightarrow> bucket_ok (config (snd s)) b \<and> last_refill b \<le> fst s) \<and>
     (\<forall>ip r. strikes (snd s) ip = Some r \<longrightarrow> strike_count r \<in> {1..MAX_STRIKES})"

lemma retain_Some: "retain keep m k = Some v \<longleftrightarrow> m k = Some v \<and> keep k v"
  by (auto simp: retain_def split: option.splits)

lemma connection_frame [simp]:
  "config (on_connect ip fw) = config fw" "config (on_disconnect ip fw) = config fw"
  "config (on_connect_unattributed fw) = config fw" "config (on_disconnect_unattributed fw) = config fw"
  "buckets (on_connect ip fw) = buckets fw" "buckets (on_disconnect ip fw) = buckets fw"
  "buckets (on_connect_unattributed fw) = buckets fw" "buckets (on_disconnect_unattributed fw) = buckets fw"
  "strikes (on_connect ip fw) = strikes fw" "strikes (on_disconnect ip fw) = strikes fw"
  "strikes (on_connect_unattributed fw) = strikes fw" "strikes (on_disconnect_unattributed fw) = strikes fw"
  "blocklist (on_connect ip fw) = blocklist fw" "blocklist (on_disconnect ip fw) = blocklist fw"
  "blocklist (on_connect_unattributed fw) = blocklist fw"
  "blocklist (on_disconnect_unattributed fw) = blocklist fw"
  by (simp_all add: on_connect_def on_disconnect_def on_connect_unattributed_def
      on_disconnect_unattributed_def Let_def)

lemma cleanup_frame [simp]: "config (cleanup tc tb ts fw) = config fw"
  by (simp add: cleanup_def)

lemma mono_reading: "mono (t :: clock) \<Longrightarrow> t 0 \<le> t n"
  by (simp add: monoD)

lemma traffic_inv_later:
  assumes "traffic_inv (now, fw)" and "now \<le> now'" and "config fw' = config fw"
    and "buckets fw' \<subseteq>\<^sub>m buckets fw" and "strikes fw' \<subseteq>\<^sub>m strikes fw"
  shows "traffic_inv (now', fw')"
proof -
  have "buckets fw ip = Some b" if "buckets fw' ip = Some b" for ip b
    using assms(4) that by (metis domI map_le_def)
  moreover have "strikes fw ip = Some r" if "strikes fw' ip = Some r" for ip r
    using assms(5) that by (metis domI map_le_def)
  ultimately show ?thesis using assms(1-3) unfolding traffic_inv_def
    by (metis fst_conv order_trans snd_conv)
qed

lemma retain_le: "retain keep m \<subseteq>\<^sub>m m"
  by (auto simp: map_le_def retain_def split: option.splits)

context f64_rounding
begin

lemma check_request_inv:
  assumes inv: "traffic_inv (now, fw)" and t: "mono t" "now \<le> t 0" "t 6 \<le> now'"
    and req: "check_request fl t ip fw = Some (d, fw')"
  shows "traffic_inv (now', fw')"
proof -
  let ?b = "snd (serve fl (config fw) t (bucket_at fw t ip))"
  let ?fw1 = "fw\<lparr>buckets := (buckets fw)(ip \<mapsto> ?b)\<rparr>"
  have t3: "t 3 \<le> now'" "now \<le> now'"
    using monoD [OF t(1), of 3 6] mono_reading [OF t(1), of 6] t(2,3) by simp_all
  have "bucket_ok (config fw) (bucket_at fw t ip)"
    using inv by (auto simp: traffic_inv_def bucket_at_def bucket_ok_new split: option.split)
  then have "bucket_ok (config fw) ?b"
    using inv by (intro bucket_ok_serve) (simp_all add: traffic_inv_def)
  moreover have "last_refill ?b = t 3" by (simp add: serve_def Let_def)
  ultimately have inv1: "traffic_inv (now', ?fw1)"
    using traffic_inv_later [OF inv t3(2), of fw] t3(1) by (auto simp: traffic_inv_def)
  from req show ?thesis
  proof (cases rule: check_request_cases)
    case (auto secs)
    from auto(6) show ?thesis
      by (rule record_auto_block_Some) (use inv1 in \<open>auto simp: traffic_inv_def\<close>)
  qed (use traffic_inv_later [OF inv t3(2), of fw] inv1 in simp_all)
qed

lemma traffic_step_inv:
  assumes "traffic_inv s" and "traffic_step fl s s'"
  shows "traffic_inv s'"
  using assms(2,1)
proof cases
  case (request t now now' ip fw d fw')
  then show ?thesis using assms(1) check_request_inv by simp
next
  case (clean now tc now' tb ts fw)
  then show ?thesis using assms(1) traffic_inv_later [of now fw now' "cleanup tc tb ts fw"]
    by (simp add: cleanup_def retain_le)
qed (use assms(1) in \<open>auto elim: traffic_inv_later\<close>)

end

text \<open>A firewall just constructed, with a configuration whose numbers have their widths.\<close>

definition fresh_firewall :: "instant \<times> firewall \<Rightarrow> bool" where
  "fresh_firewall s \<longleftrightarrow> (\<exists>c. config_ok c \<and> snd s = firewall_new c)"

interpretation f64_traffic: step_invariant fresh_firewall "traffic_step fl64" traffic_inv
proof unfold_locales
  show "fresh_firewall s \<Longrightarrow> traffic_inv s" for s
    by (auto simp: fresh_firewall_def traffic_inv_def firewall_new_def)
qed (rule ieee_f64.traffic_step_inv)


definition demo_bucket :: token_bucket where
  "demo_bucket = \<lparr>capacity = 200, tokens = 199, rate = 100, last_refill = 0, violations = 0,
     ewma_per_window = None, window_count = 1, window_start = Some 0\<rparr>"

lemma demo_first_request:
  assumes "f64_rounding fl"
  shows "check_request fl (\<lambda>_. 0) ip (firewall_new default_config) =
    Some (Allowed, (firewall_new default_config)\<lparr>buckets := [ip \<mapsto> demo_bucket]\<rparr>)"
proof -
  have "fl 0 = 0" "fl 200 = 200" "fl 199 = 199"
    using f64_rounding.fl_nat [OF assms, of 0] f64_rounding.fl_nat [OF assms, of 200]
      f64_rounding.fl_nat [OF assms, of 199] by simp_all
  then show ?thesis
    by (simp add: check_request_def firewall_new_def default_config_def check_blocklist_def
        bucket_new_def note_request_at_def effective_bucket_rate_def compute_effective_rps_def
        consume_def as_secs_f64_def inc32_def demo_bucket_def Let_def)
qed

lemma default_config_ok: "config_ok default_config"
  by (simp add: config_ok_def default_config_def)


section \<open>How many requests get through\<close>

text \<open>The decisions of the requests of one address, one clock per request.\<close>

fun serve_all :: "(real \<Rightarrow> real) \<Rightarrow> clock list \<Rightarrow> ip_addr \<Rightarrow> firewall \<Rightarrow> (firewall_decision list \<times> firewall) option" where
  "serve_all fl [] ip fw = Some ([], fw)"
| "serve_all fl (t # ts) ip fw = do {
     (d, fw1) \<leftarrow> check_request fl t ip fw;
     (ds, fw2) \<leftarrow> serve_all fl ts ip fw1;
     Some (d # ds, fw2) }"

text \<open>Consecutive requests read a clock that only advances, from \<open>start\<close> to \<open>finish\<close>.\<close>

fun clocks_between :: "instant \<Rightarrow> clock list \<Rightarrow> instant \<Rightarrow> bool" where
  "clocks_between start [] finish \<longleftrightarrow> start \<le> finish"
| "clocks_between start (t # ts) finish \<longleftrightarrow> start \<le> t 0 \<and> mono t \<and> clocks_between (t 6) ts finish"

definition max_rate :: "firewall_config \<Rightarrow> nat" where
  "max_rate c = (if adaptive_rate_limit c then 4 else 1) * rate_limit_rps c"

text \<open>What an address can still be granted until \<open>finish\<close>: its tokens and the refill.\<close>

definition allowance :: "instant \<Rightarrow> instant \<Rightarrow> ip_addr \<Rightarrow> firewall \<Rightarrow> real" where
  "allowance start finish ip fw =
     (case buckets fw ip of
        Some b \<Rightarrow> tokens b + real (max_rate (config fw)) * ((real finish - real (last_refill b)) / 1000000000)
      | None \<Rightarrow> real (rate_limit_burst (config fw)) +
                real (max_rate (config fw)) * ((real finish - real start) / 1000000000))"

lemma as_secs_exact: "as_secs_f64 exact d = real d / 1000000000"
proof -
  have "real d = real (d div ns_per_sec * ns_per_sec + d mod ns_per_sec)" by simp
  then show ?thesis unfolding as_secs_f64_def exact_def of_nat_add of_nat_mult
    by (simp add: field_simps)
qed

lemma effective_rate_le_max: "effective_bucket_rate exact c b \<le> real (max_rate c)"
  by (auto simp: effective_bucket_rate_def compute_effective_rps_def max_rate_def exact_def Let_def)

lemma serve_allowance:
  assumes "last_refill b \<le> t 3" and "bucket_ok c b"
  shows "tokens (snd (serve exact c t b)) + of_bool (fst (serve exact c t b)) \<le>
    tokens b + real (max_rate c) * ((real (t 3) - real (last_refill b)) / 1000000000)"
proof -
  define b1 where "b1 = note_request_at exact (t 2) (ewma_alpha_pct c) b"
  define r where "r = effective_bucket_rate exact c b1"
  define dt where "dt = real (t 3 - last_refill b) / 1000000000"
  have dt: "dt = (real (t 3) - real (last_refill b)) / 1000000000" "0 \<le> dt"
    using assms(1) by (simp_all add: dt_def of_nat_diff)
  have "dt * r \<le> dt * real (max_rate c)"
    using dt(2) by (intro mult_left_mono) (simp_all add: r_def effective_rate_le_max)
  moreover have "tokens (snd (serve exact c t b)) + of_bool (fst (serve exact c t b)) \<le> tokens b + dt * r"
    by (simp add: serve_def consume_def Let_def as_secs_exact exact_def flip: b1_def r_def)
      (simp add: b1_def dt_def)
  ultimately show ?thesis by (simp add: dt(1) mult.commute)
qed

lemma check_blocklist_not_allowed: "check_blocklist now ip fw \<noteq> Some Allowed"
  by (simp add: check_blocklist_def split: option.split)

lemma check_request_config:
  assumes "check_request fl t ip fw = Some (d, fw')" shows "config fw' = config fw"
  using assms by (cases rule: check_request_cases) (auto elim: record_auto_block_Some)

lemma allowance_later: "start \<le> start' \<Longrightarrow> allowance start' finish ip fw \<le> allowance start finish ip fw"
  by (auto simp: allowance_def divide_right_mono mult_left_mono split: option.split)

lemma request_allowance:
  assumes req: "check_request exact t ip fw = Some (d, fw')" and inv: "traffic_inv (start, fw)"
    and t: "mono t" "start \<le> t 0" and on: "enabled (config fw)"
  shows "allowance (t 6) finish ip fw' + of_bool (d = Allowed) \<le> allowance start finish ip fw"
proof -
  define b where "b = bucket_at fw t ip"
  define s where "s = serve exact (config fw) t b"
  let ?R = "real (max_rate (config fw))"
  have order: "start \<le> t 1" "start \<le> t 3" "t 1 \<le> t 3" "start \<le> t 6"
    using t monoD [OF t(1), of 0 1] monoD [OF t(1), of 1 3] monoD [OF t(1), of 3 6] by simp_all
  have "tokens b + ?R * ((real finish - real (last_refill b)) / 1000000000) \<le> allowance start finish ip fw"
    using order by (cases "buckets fw ip")
      (auto simp: b_def bucket_at_def bucket_new_def allowance_def divide_right_mono mult_left_mono)
  moreover have "last_refill b \<le> t 3 \<and> bucket_ok (config fw) b"
  proof (cases "buckets fw ip")
    case None
    then show ?thesis using order(3) by (simp add: b_def bucket_at_def bucket_ok_new) (simp add: bucket_new_def)
  next
    case (Some b')
    then have "last_refill b' \<le> start" "bucket_ok (config fw) b'" using inv by (simp_all add: traffic_inv_def)
    then show ?thesis using Some order(2) by (simp add: b_def bucket_at_def)
  qed
  then have "tokens (snd s) + of_bool (fst s) \<le>
      tokens b + ?R * ((real (t 3) - real (last_refill b)) / 1000000000)"
    unfolding s_def by (intro serve_allowance) simp_all
  moreover have "?R * ((real finish - real (last_refill b)) / 1000000000) =
      ?R * ((real (t 3) - real (last_refill b)) / 1000000000) + ?R * ((real finish - real (t 3)) / 1000000000)"
    by (simp add: field_simps)
  ultimately have step: "tokens (snd s) + ?R * ((real finish - real (t 3)) / 1000000000) + of_bool (fst s) \<le>
      allowance start finish ip fw" by linarith
  have served: "allowance (t 6) finish ip fw'' =
      tokens (snd s) + ?R * ((real finish - real (t 3)) / 1000000000)"
    if "buckets fw'' = (buckets fw)(ip \<mapsto> snd s)" "config fw'' = config fw" for fw''
    using that by (simp add: allowance_def s_def serve_def Let_def)
  from req show ?thesis
  proof (cases rule: check_request_cases)
    case off then show ?thesis using on by simp
  next
    case listed
    then show ?thesis using allowance_later [OF order(4)] check_blocklist_not_allowed by auto
  next
    case ok
    then show ?thesis using step served [of fw'] by (simp add: s_def b_def)
  next
    case limited
    then show ?thesis using step served [of fw'] by (simp add: s_def b_def)
  next
    case (auto secs)
    have "buckets fw' = (buckets fw)(ip \<mapsto> snd s)" "config fw' = config fw"
      using auto(6) by (rule record_auto_block_Some; simp add: s_def b_def)+
    then show ?thesis using step auto(3,5) served [of fw'] by (simp add: s_def b_def)
  qed
qed

lemma allowance_nonneg:
  assumes "traffic_inv (start, fw)" and "start \<le> finish" shows "0 \<le> allowance start finish ip fw"
proof (cases "buckets fw ip")
  case (Some b)
  then have "last_refill b \<le> start" "bucket_ok (config fw) b" using assms(1) by (simp_all add: traffic_inv_def)
  then show ?thesis using Some assms(2) by (simp add: allowance_def bucket_ok_def)
qed (use assms(2) in \<open>simp add: allowance_def\<close>)

lemma serve_all_allowance:
  assumes "serve_all exact ts ip fw = Some (ds, fw')" and "traffic_inv (start, fw)"
    and "clocks_between start ts finish" and "enabled (config fw)"
  shows "real (count_list ds Allowed) \<le> allowance start finish ip fw"
  using assms
proof (induction ts arbitrary: start fw ds)
  case Nil
  then show ?case by (simp add: allowance_nonneg)
next
  case (Cons t ts)
  then obtain d fw1 ds1 where r: "check_request exact t ip fw = Some (d, fw1)"
    and rest: "serve_all exact ts ip fw1 = Some (ds1, fw')" "ds = d # ds1"
    by (auto simp: bind_eq_Some_conv)
  have t: "mono t" "start \<le> t 0" "clocks_between (t 6) ts finish" using Cons.prems by simp_all
  have "traffic_inv (t 6, fw1)"
    using Cons.prems(2) t(1,2) order_refl r by (rule exact_f64.check_request_inv)
  then have "real (count_list ds1 Allowed) \<le> allowance (t 6) finish ip fw1"
    using Cons.prems(4) check_request_config [OF r] t(3) rest(1) by (intro Cons.IH) simp_all
  moreover have "allowance (t 6) finish ip fw1 + of_bool (d = Allowed) \<le> allowance start finish ip fw"
    using r Cons.prems(2) t(1,2) Cons.prems(4) by (rule request_allowance)
  ultimately show ?case by (cases "d = Allowed") (simp_all add: rest(2))
qed



section \<open>Escalation\<close>

lemma escalate_closed:
  assumes "1 \<le> factor" and "cap \<le> u64_max" and "dur \<le> cap"
  shows "escalate n factor cap dur = min cap (dur * factor ^ n)"
  using assms(3)
proof (induction n arbitrary: dur)
  case (Suc n)
  have d: "min (sat_mul64 dur factor) cap = min cap (dur * factor)"
    using assms(2) by (auto simp: sat_mul64_def)
  have grow: "dur * factor \<le> dur * factor * factor ^ n" using assms(1) by simp
  show ?case
  proof (cases "cap \<le> dur * factor")
    case True
    then have "cap \<le> dur * factor * factor ^ n" using grow by (rule order_trans)
    then show ?thesis using True by (simp add: d Let_def mult.assoc)
  next
    case False
    then show ?thesis using Suc.IH [of "dur * factor"] by (simp add: d Let_def mult.assoc)
  qed
qed simp

text \<open>
  The saturating loop that escalates a block computes the closed form: the
  n-th block (\<open>n\<close> capped at \<open>MAX_STRIKES\<close>) lasts \<open>base * factor ^ (n - 1)\<close> seconds cut at
  the configured maximum; no \<open>u64\<close> overflow changes it, and a maximum below the base duration
  never shortens the first block.
\<close>
theorem block_duration_closed_form:
  assumes "config_ok c"
  shows "block_duration_secs_for c n =
    min (max (max_block_duration_secs c) (block_duration_secs c))
        (block_duration_secs c * max (block_escalation_factor c) 1 ^ (min n MAX_STRIKES - 1))"
  using assms unfolding block_duration_secs_for_def Let_def
  by (intro escalate_closed) (simp_all add: config_ok_def)

end
