(* ===== verification/Firewall_Blocks.thy ===== *)
theory Firewall_Blocks
  imports Firewall_Limits
begin

text \<open>
  What the firewall promises about blocked addresses: an automatic block is enforced for at least
  the configured duration whatever traffic follows, and traffic through a trusted proxy never
  blocks the proxy itself. Both are relations between two states of a run that every step keeps.
\<close>

section \<open>Blocks outlast traffic\<close>

definition blocks_kept :: "instant \<times> firewall \<Rightarrow> instant \<times> firewall \<Rightarrow> bool" where
  "blocks_kept s s' \<longleftrightarrow> fst s \<le> fst s' \<and> config (snd s') = config (snd s) \<and>
     (\<forall>ip e. blocklist (snd s) ip = Some e \<longrightarrow> fst s' < expires e \<longrightarrow> blocklist (snd s') ip = Some e)"

lemma check_request_blocklist:
  assumes "check_request fl t ip fw = Some (d, fw')"
    and "blocklist fw' ip' \<noteq> blocklist fw ip'"
  obtains "ip' = ip" "check_blocklist (t 0) ip fw = None" "\<not> is_trusted_proxy (config fw) ip"
  using assms(1)
proof (cases rule: check_request_cases)
  case (auto secs)
  from auto(6) show ?thesis
    by (rule record_auto_block_Some) (use assms(2) auto that in \<open>auto split: if_splits\<close>)
qed (use assms(2) in auto)

lemma blocks_kept_step:
  assumes "traffic_step fl s s'"
  shows "blocks_kept s s'"
  using assms
proof cases
  case (request t now now' ip fw d fw')
  have t: "now \<le> t 0" "t 0 \<le> now'"
    using request mono_reading [of t 6] by simp_all
  have "blocklist fw' ip' = Some e" if "blocklist fw ip' = Some e" "now' < expires e" for ip' e
  proof (rule ccontr)
    assume "blocklist fw' ip' \<noteq> Some e"
    with that have "blocklist fw' ip' \<noteq> blocklist fw ip'" by simp
    with request(6) show False
      by (rule check_request_blocklist) (use that t in \<open>auto simp: check_blocklist_def\<close>)
  qed
  then show ?thesis using request t check_request_config [OF request(6)]
    by (simp add: blocks_kept_def)
next
  case (clean now tc now' tb ts fw)
  then show ?thesis by (auto simp: blocks_kept_def cleanup_def retain_Some)
qed (auto simp: blocks_kept_def)

interpretation traffic_blocks: step_relation "traffic_step fl" blocks_kept for fl
proof unfold_locales
  show "blocks_kept s u" if "blocks_kept s t" "blocks_kept t u" for s t u
    using that unfolding blocks_kept_def by (metis order_le_less_trans order_trans)
qed (simp add: blocks_kept_def, rule blocks_kept_step)

lemma block_duration_at_least_base:
  assumes "config_ok c" shows "block_duration_secs c \<le> block_duration_secs_for c n"
proof -
  let ?f = "max (block_escalation_factor c) 1" and ?cap = "max (max_block_duration_secs c) (block_duration_secs c)"
  have "block_duration_secs_for c n = min ?cap (block_duration_secs c * ?f ^ (min n MAX_STRIKES - 1))"
    using assms unfolding block_duration_secs_for_def Let_def
    by (intro escalate_closed) (simp_all add: config_ok_def)
  moreover have "block_duration_secs c * 1 \<le> block_duration_secs c * ?f ^ (min n MAX_STRIKES - 1)"
    by (intro mult_left_mono) simp_all
  ultimately show ?thesis by simp
qed

lemma fresh_block_entry:
  assumes "check_request fl t ip fw = Some (Blocked r ms, fw1)"
    and "check_blocklist (t 0) ip fw = None" and "config_ok (config fw)"
  obtains e where "blocklist fw1 ip = Some e" "block_reason e = RateLimitViolation"
    "t 6 + block_duration_secs (config fw) * ns_per_sec \<le> expires e"
  using assms(1)
proof (cases rule: check_request_cases)
  case (auto secs)
  from auto(6) obtain e n where
    "blocklist fw1 ip = Some \<lparr>expires = e, block_reason = RateLimitViolation\<rparr>"
    "secs = block_duration_secs_for (config fw) n" "e = t 6 + secs * ns_per_sec"
    by (rule record_auto_block_Some) simp
  moreover from this(2) have "block_duration_secs (config fw) \<le> secs"
    using block_duration_at_least_base [OF assms(3)] by simp
  ultimately show ?thesis
    by (intro that [of "\<lparr>expires = e, block_reason = RateLimitViolation\<rparr>"]) simp_all
qed (use assms(2) in simp_all)

text \<open>
  Claim C30 (safety). An automatic block is enforced: once \<open>check_request\<close> has blocked an address
  that was not on the blocklist, then whatever requests, connections and cleanups follow, until
  the configured block duration has passed every request and every connection of that address is
  refused with that block, and the refused request changes nothing.
\<close>
theorem auto_block_enforced:
  assumes "config_ok (config fw)" and "enabled (config fw)"
    and "check_request fl t ip fw = Some (Blocked r ms, fw1)" and "check_blocklist (t 0) ip fw = None"
    and "(traffic_step fl)\<^sup>*\<^sup>* (t 6, fw1) (now, fw2)" and "now \<le> u 0"
    and "u 0 < t 6 + block_duration_secs (config fw) * ns_per_sec"
  shows "\<exists>ms'. check_request fl u ip fw2 = Some (Blocked RateLimitViolation ms', fw2) \<and>
    check_connection (u 0) ip fw2 = Blocked RateLimitViolation ms'"
proof -
  obtain e where e: "blocklist fw1 ip = Some e" "block_reason e = RateLimitViolation"
    "t 6 + block_duration_secs (config fw) * ns_per_sec \<le> expires e"
    using assms(3,4,1) by (rule fresh_block_entry)
  have kept: "blocks_kept (t 6, fw1) (now, fw2)" using assms(5) by (rule traffic_blocks.steps_rel)
  then have "blocklist fw2 ip = Some e" and "enabled (config fw2)"
    using e assms(2,6,7) check_request_config [OF assms(3)] by (auto simp: blocks_kept_def)
  moreover have "u 0 < expires e" using e(3) assms(7) by simp
  ultimately show ?thesis
    using e(2) by (simp add: check_request_def check_connection_def check_blocklist_def)
qed

definition strict_config :: firewall_config where
  "strict_config = default_config\<lparr>rate_limit_burst := 0, auto_block_threshold := 1,
     trusted_proxies := [''10.0.0.1'']\<rparr>"

lemma strict_config_ok: "config_ok strict_config"
  by (simp add: config_ok_def strict_config_def default_config_def)

lemma strict_trust:
  "\<not> is_trusted_proxy strict_config (V4 1)" "is_trusted_proxy strict_config (V4 167772161)"
proof -
  have "trusted_proxies strict_config = [''10.0.0.1'']" by (simp add: strict_config_def)
  moreover have "proxy_rule_parse ''10.0.0.1'' = Some \<lparr>rule_addr = V4 167772161, rule_prefix = 32\<rparr>"
    by code_simp
  ultimately have "trusted_rules strict_config = [\<lparr>rule_addr = V4 167772161, rule_prefix = 32\<rparr>]"
    by (simp add: trusted_rules_def List.map_filter_def)
  moreover have "\<not> proxy_rule_matches \<lparr>rule_addr = V4 167772161, rule_prefix = 32\<rparr> (V4 1)"
    "proxy_rule_matches \<lparr>rule_addr = V4 167772161, rule_prefix = 32\<rparr> (V4 167772161)" by code_simp+
  ultimately show "\<not> is_trusted_proxy strict_config (V4 1)" "is_trusted_proxy strict_config (V4 167772161)"
    by (simp_all add: is_trusted_proxy_def)
qed

lemma strict_first_request:
  "check_request exact (\<lambda>_. 0) (V4 1) (firewall_new strict_config) =
     Some (Blocked RateLimitViolation 300000,
       (firewall_new strict_config)\<lparr>
         buckets := [V4 1 \<mapsto> \<lparr>capacity = 0, tokens = 0, rate = 100, last_refill = 0, violations = 1,
            ewma_per_window = None, window_count = 1, window_start = Some 0\<rparr>],
         strikes := [V4 1 \<mapsto> \<lparr>strike_count = 1, last_strike = 0\<rparr>],
         blocklist := [V4 1 \<mapsto> \<lparr>expires = 300000000000, block_reason = RateLimitViolation\<rparr>]\<rparr>)"
  using strict_trust(1)
  by (simp add: check_request_def firewall_new_def check_blocklist_def
      bucket_new_def note_request_at_def effective_bucket_rate_def compute_effective_rps_def exact_def
      consume_def as_secs_f64_def inc32_def record_auto_block_def block_ip_def instant_add_def
      block_duration_secs_for_def Let_def)
    (simp add: strict_config_def default_config_def)

theorem auto_block_enforced_witness:
  "\<exists>ms fw1. check_request exact (\<lambda>_. 0) (V4 1) (firewall_new strict_config) = Some (Blocked RateLimitViolation ms, fw1) \<and>
     (\<exists>ms'. check_request exact (\<lambda>_. 299 * ns_per_sec) (V4 1) fw1 = Some (Blocked RateLimitViolation ms', fw1) \<and>
       check_connection (299 * ns_per_sec) (V4 1) fw1 = Blocked RateLimitViolation ms')"
proof -
  let ?fw = "firewall_new strict_config"
  have c: "config ?fw = strict_config" "enabled strict_config" "block_duration_secs strict_config = 300"
    by (simp_all add: firewall_new_def strict_config_def default_config_def)
  have "check_blocklist 0 (V4 1) ?fw = None" by (simp add: firewall_new_def check_blocklist_def)
  with auto_block_enforced [OF _ _ strict_first_request _ rtranclp.rtrancl_refl, of "\<lambda>_. 299 * ns_per_sec"]
  show ?thesis using strict_first_request strict_config_ok c by fastforce
qed

section \<open>Trusted proxies are never blocked by traffic\<close>

definition proxies_spared :: "instant \<times> firewall \<Rightarrow> instant \<times> firewall \<Rightarrow> bool" where
  "proxies_spared s s' \<longleftrightarrow> config (snd s') = config (snd s) \<and>
     (\<forall>ip. is_trusted_proxy (config (snd s)) ip \<longrightarrow>
        blocklist (snd s') ip \<in> {None, blocklist (snd s) ip} \<and>
        strikes (snd s') ip \<in> {None, strikes (snd s) ip})"

lemma check_request_spares:
  assumes "check_request fl t ip fw = Some (d, fw')" and "is_trusted_proxy (config fw) ip'"
  shows "blocklist fw' ip' = blocklist fw ip'" and "strikes fw' ip' = strikes fw ip'"
  using assms by (cases rule: check_request_cases; auto elim!: record_auto_block_Some)+

lemma proxies_spared_step:
  assumes "traffic_step fl s s'" shows "proxies_spared s s'"
  using assms
proof cases
  case (request t now now' ip fw d fw')
  then show ?thesis using check_request_spares check_request_config by (simp add: proxies_spared_def)
next
  case (clean now tc now' tb ts fw)
  then show ?thesis by (auto simp: proxies_spared_def cleanup_def retain_def split: option.splits)
qed (auto simp: proxies_spared_def)

interpretation traffic_proxies: step_relation "traffic_step fl" proxies_spared for fl
proof unfold_locales
  show "proxies_spared s u" if "proxies_spared s t" "proxies_spared t u" for s t u
    using that unfolding proxies_spared_def by (metis insert_iff singletonD)
qed (simp add: proxies_spared_def, rule proxies_spared_step)

text \<open>
  The address of a trusted reverse proxy, which all its clients share, is never
  put on the blocklist by traffic: a proxy that no operator blocked is not blocked after any run,
  however many requests were refused, and it collects no strikes.
\<close>
theorem trusted_proxy_never_auto_blocked:
  assumes "(traffic_step fl)\<^sup>*\<^sup>* (now, firewall_new c) (now', fw)" and "is_trusted_proxy c ip"
  shows "\<not> is_blocked instant ip fw \<and> strikes fw ip = None"
proof -
  have "proxies_spared (now, firewall_new c) (now', fw)" using assms(1) by (rule traffic_proxies.steps_rel)
  then show ?thesis using assms(2) by (auto simp: proxies_spared_def firewall_new_def is_blocked_def)
qed

end
