(* ===== verification/Http_Accounting.thy ===== *)
theory Http_Accounting
  imports Firewall_Blocks "HOL-Library.Multiset"
begin

text \<open>
  How the HTTP server accounts its connections with the firewall: the accept loop of
  \<open>inject_http_server\<close>, the per-request accounting and the release at the end of
  \<open>handle_connection\<close> in \<open>crates/js/src/builtins/http_server.rs\<close>, for a server that has a
  firewall installed (without one nothing is counted). Parsing, timeouts and the answer itself
  only decide when the loop ends and are not modelled: a connection is the sequence of its
  requests, each a list of lower-case header names and values.
\<close>

record http_conn =
  peer :: ip_addr
  account_ip :: "ip_addr option"
  account_global_only :: bool

definition accept_connection ::
  "instant \<Rightarrow> ip_addr \<Rightarrow> firewall \<Rightarrow> firewall_decision \<times> http_conn option \<times> firewall" where
  "accept_connection now ip fw =
     (let trusted_proxy = is_trusted_proxy (config fw) ip;
          decision = (if trusted_proxy then check_connection_behind_proxy now ip fw
                      else check_connection now ip fw)
      in if decision = Allowed
         then (decision,
               Some \<lparr>peer = ip, account_ip = (if trusted_proxy then None else Some ip),
                     account_global_only = False\<rparr>,
               if \<not> trusted_proxy then on_connect ip fw else fw)
         else (decision, None, fw))"

text \<open>The deferred accounting of a connection that no address is known for yet.\<close>

definition account_connection ::
  "instant \<Rightarrow> bool \<Rightarrow> ip_addr \<Rightarrow> http_conn \<Rightarrow> firewall \<Rightarrow> firewall_decision \<times> http_conn \<times> firewall" where
  "account_connection now xff_present req_ip conn fw =
     (if account_ip conn \<noteq> None then (Allowed, conn, fw)
      else if \<not> xff_present then
        (let decision = check_connection_behind_proxy now (peer conn) fw
         in if decision = Allowed
            then (Allowed, conn\<lparr>account_global_only := True\<rparr>, on_connect_unattributed fw)
            else (decision, conn, fw))
      else
        (let decision = check_connection now req_ip fw
         in if decision = Allowed
            then (Allowed, conn\<lparr>account_ip := Some req_ip\<rparr>, on_connect req_ip fw)
            else (decision, conn, fw)))"

text \<open>One request: a decision other than \<open>Allowed\<close> is answered and ends the connection.\<close>

definition account_request ::
  "(real \<Rightarrow> real) \<Rightarrow> clock \<Rightarrow> (string \<times> string) list \<Rightarrow> http_conn \<Rightarrow> firewall \<Rightarrow>
     (firewall_decision \<times> http_conn \<times> firewall) option" where
  "account_request fl t headers conn fw =
     (let xff = map_of headers ''x-forwarded-for'';
          req_ip = client_ip_from_xff (config fw) (peer conn) xff
      in case account_connection (t 0) (xff \<noteq> None) req_ip conn fw of (decision, conn1, fw1) \<Rightarrow>
           if decision \<noteq> Allowed then Some (decision, conn1, fw1)
           else do {
             (d, fw2) \<leftarrow> check_request fl (\<lambda>i. t (Suc i)) req_ip fw1;
             Some (d, conn1, fw2) })"

definition close_connection :: "http_conn \<Rightarrow> firewall \<Rightarrow> firewall" where
  "close_connection conn fw =
     (case account_ip conn of
        Some ip \<Rightarrow> on_disconnect ip fw
      | None \<Rightarrow> if account_global_only conn then on_disconnect_unattributed fw else fw)"

section \<open>The server\<close>

inductive server_step ::
  "(real \<Rightarrow> real) \<Rightarrow> firewall \<times> http_conn multiset \<Rightarrow> firewall \<times> http_conn multiset \<Rightarrow> bool"
  for fl :: "real \<Rightarrow> real" where
  accept: "accept_connection now ip fw = (d, Some conn, fw') \<Longrightarrow>
    server_step fl (fw, conns) (fw', add_mset conn conns)"
| refuse: "accept_connection now ip fw = (d, None, fw') \<Longrightarrow> server_step fl (fw, conns) (fw', conns)"
| serve: "conn \<in># conns \<Longrightarrow> account_request fl t headers conn fw = Some (d, conn', fw') \<Longrightarrow>
    server_step fl (fw, conns) (fw', add_mset conn' (conns - {#conn#}))"
| close: "conn \<in># conns \<Longrightarrow> server_step fl (fw, conns) (close_connection conn fw, conns - {#conn#})"

definition held_by :: "ip_addr \<Rightarrow> http_conn multiset \<Rightarrow> nat" where
  "held_by ip conns = size (filter_mset (\<lambda>c. account_ip c = Some ip) conns)"

definition counted :: "http_conn multiset \<Rightarrow> nat" where
  "counted conns = size (filter_mset (\<lambda>c. account_ip c \<noteq> None \<or> account_global_only c) conns)"

definition per_ip_exact :: "firewall \<Rightarrow> http_conn multiset \<Rightarrow> bool" where
  "per_ip_exact fw conns \<longleftrightarrow> (\<forall>ip. conn_per_ip fw ip =
     (if held_by ip conns = 0 then None else Some (held_by ip conns)) \<and>
     held_by ip conns \<le> max_connections_per_ip (config fw))"

definition server_inv :: "firewall_config \<Rightarrow> firewall \<times> http_conn multiset \<Rightarrow> bool" where
  "server_inv c s \<longleftrightarrow> (case s of (fw, conns) \<Rightarrow>
     config fw = c \<and> per_ip_exact fw conns \<and>
     counted conns \<le> conn_total fw \<and> conn_total fw \<le> max_connections_total c \<and>
     (trusted_rules c = [] \<longrightarrow> conn_total fw = size conns \<and> (\<forall>conn \<in># conns. account_ip conn \<noteq> None)))"


lemma held_by_add [simp]:
  "held_by ip (add_mset conn conns) = (if account_ip conn = Some ip then Suc (held_by ip conns) else held_by ip conns)"
  "held_by ip {#} = 0"
  by (simp_all add: held_by_def)

lemma counted_add [simp]:
  "counted (add_mset conn conns) =
     (if account_ip conn \<noteq> None \<or> account_global_only conn then Suc (counted conns) else counted conns)"
  "counted {#} = 0"
  by (simp_all add: counted_def)

lemma check_connection_Allowed:
  assumes "check_connection now ip fw = Allowed" and "enabled (config fw)"
  shows "conn_total fw < max_connections_total (config fw)"
    and "(case conn_per_ip fw ip of Some n \<Rightarrow> n | None \<Rightarrow> 0) < max_connections_per_ip (config fw)"
  using assms check_blocklist_not_allowed
  by (auto simp: check_connection_def not_le split: option.splits if_splits)

lemma check_behind_proxy_Allowed:
  assumes "check_connection_behind_proxy now ip fw = Allowed" and "enabled (config fw)"
  shows "conn_total fw < max_connections_total (config fw)"
  using assms check_blocklist_not_allowed
  by (auto simp: check_connection_behind_proxy_def not_le split: option.splits if_splits)

lemma check_request_connections:
  assumes "check_request fl t ip fw = Some (d, fw')"
  shows "conn_per_ip fw' = conn_per_ip fw" and "conn_total fw' = conn_total fw"
  using assms by (cases rule: check_request_cases; auto elim!: record_auto_block_Some)+

text \<open>A connection is attributed: the address has one more, within its cap.\<close>

lemma connect_inv:
  assumes inv: "server_inv c (fw, conns)" and c: "config_ok c" "enabled c"
    and ok: "check_connection now ip fw = Allowed" and conn: "account_ip conn = Some ip"
  shows "server_inv c (on_connect ip fw, add_mset conn conns)"
proof -
  have fw: "config fw = c" "per_ip_exact fw conns" using inv by (simp_all add: server_inv_def)
  have total: "conn_total fw < max_connections_total c"
    and room: "(case conn_per_ip fw ip of Some n \<Rightarrow> n | None \<Rightarrow> 0) < max_connections_per_ip c"
    using check_connection_Allowed [OF ok] c fw by simp_all
  have n: "(case conn_per_ip fw ip of Some n \<Rightarrow> n | None \<Rightarrow> 0) = held_by ip conns"
    using fw(2) by (simp add: per_ip_exact_def)
  have inc: "inc32 (conn_total fw) = Suc (conn_total fw)" "inc32 (held_by ip conns) = Suc (held_by ip conns)"
    using total room c n by (simp_all add: inc32_def config_ok_def)
  have "per_ip_exact (on_connect ip fw) (add_mset conn conns)"
    using fw room n inc conn c by (auto simp: per_ip_exact_def on_connect_def)
  then show ?thesis using inv total inc conn c fw by (auto simp: server_inv_def on_connect_def)
qed

text \<open>A connection is counted against the global cap only.\<close>

lemma connect_unattributed_inv:
  assumes inv: "server_inv c (fw, add_mset conn conns)" and c: "config_ok c" "enabled c"
    and ok: "check_connection_behind_proxy now ip fw = Allowed" and conn: "account_ip conn = None"
  shows "server_inv c (on_connect_unattributed fw, add_mset (conn\<lparr>account_global_only := True\<rparr>) conns)"
proof -
  have fw: "config fw = c" using inv by (simp add: server_inv_def)
  have "conn_total fw < max_connections_total c" using check_behind_proxy_Allowed [OF ok] c fw by simp
  moreover from this have "inc32 (conn_total fw) = Suc (conn_total fw)"
    using c by (simp add: inc32_def config_ok_def)
  ultimately show ?thesis
    using inv conn c by (auto simp: server_inv_def on_connect_unattributed_def per_ip_exact_def split: if_splits)
qed

lemma close_inv:
  assumes inv: "server_inv c (fw, add_mset conn conns)" and c: "enabled c"
  shows "server_inv c (close_connection conn fw, conns)"
proof (cases "account_ip conn")
  case None
  then show ?thesis using inv c
    by (auto simp: server_inv_def close_connection_def on_disconnect_unattributed_def per_ip_exact_def split: if_splits)
next
  case (Some ip)
  have fw: "config fw = c" "per_ip_exact fw (add_mset conn conns)" using inv by (simp_all add: server_inv_def)
  then have n: "conn_per_ip fw ip = Some (Suc (held_by ip conns))" using Some by (simp add: per_ip_exact_def)
  have "per_ip_exact (on_disconnect ip fw) conns"
    using fw Some c n by (auto simp: per_ip_exact_def on_disconnect_def Let_def split: if_splits)
  then show ?thesis using inv Some c fw
    by (auto simp: server_inv_def close_connection_def on_disconnect_def Let_def)
qed

lemma server_inv_cong:
  assumes "config fw' = config fw" "conn_per_ip fw' = conn_per_ip fw" "conn_total fw' = conn_total fw"
  shows "server_inv c (fw', conns) = server_inv c (fw, conns)"
  using assms by (simp add: server_inv_def per_ip_exact_def)

lemma uncounted_inv:
  assumes "server_inv c (fw, add_mset conn conns)" and "account_ip conn = None" and "trusted_rules c \<noteq> []"
  shows "server_inv c (fw, conns)"
  using assms by (auto simp: server_inv_def per_ip_exact_def split: if_splits)

lemma account_connection_inv:
  assumes inv: "server_inv c (fw, add_mset conn conns)" and c: "config_ok c" "enabled c"
    and acc: "account_connection now xff ip conn fw = (d, conn', fw')"
  shows "server_inv c (fw', add_mset conn' conns)"
proof (cases "account_ip conn")
  case None
  then have "trusted_rules c \<noteq> []" using inv by (auto simp: server_inv_def)
  then have "server_inv c (fw, conns)" using inv None by (blast intro: uncounted_inv)
  note acc' = acc [unfolded account_connection_def Let_def]
  show ?thesis
  proof (cases "d = Allowed")
    case True
    show ?thesis
    proof (cases xff)
      case xff: True
      then have "check_connection now ip fw = Allowed" "conn' = conn\<lparr>account_ip := Some ip\<rparr>" "fw' = on_connect ip fw"
        using acc' None True by (auto split: if_splits)
      with \<open>server_inv c (fw, conns)\<close> c show ?thesis by (simp add: connect_inv)
    next
      case xff: False
      then have "check_connection_behind_proxy now (peer conn) fw = Allowed"
          "conn' = conn\<lparr>account_global_only := True\<rparr>" "fw' = on_connect_unattributed fw"
        using acc' None True by (auto split: if_splits)
      with inv c None show ?thesis by (simp add: connect_unattributed_inv)
    qed
  next
    case False
    then have "conn' = conn" "fw' = fw" using acc' None by (auto split: if_splits)
    then show ?thesis using inv by simp
  qed
qed (use inv acc in \<open>simp add: account_connection_def\<close>)

lemma account_request_Some:
  assumes "account_request fl t headers conn fw = Some (d, conn', fw')"
  obtains d1 fw1 xff ip where "account_connection (t 0) xff ip conn fw = (d1, conn', fw1)"
    and "fw' = fw1 \<or> (\<exists>u. check_request fl u ip fw1 = Some (d, fw'))"
  using assms
  by (auto simp: account_request_def Let_def bind_eq_Some_conv split: prod.splits if_splits) blast

lemma server_step_inv:
  assumes c: "config_ok c" "enabled c" and inv: "server_inv c s" and step: "server_step fl s s'"
  shows "server_inv c s'"
  using step
proof cases
  case (accept now ip fw d conn fw' conns)
  have cfg: "config fw = c" using inv accept by (simp add: server_inv_def)
  show ?thesis
  proof (cases "is_trusted_proxy c ip")
    case True
    then have "trusted_rules c \<noteq> []" by (auto simp: is_trusted_proxy_def)
    then show ?thesis using accept inv cfg True
      by (auto simp: accept_connection_def Let_def server_inv_def per_ip_exact_def split: if_splits)
  next
    case False
    then have "conn = \<lparr>peer = ip, account_ip = Some ip, account_global_only = False\<rparr>"
        "fw' = on_connect ip fw" "check_connection now ip fw = Allowed"
      using accept(3) cfg by (auto simp: accept_connection_def Let_def split: if_splits)
    then show ?thesis using connect_inv [of c fw conns now ip conn] inv accept c by simp
  qed
next
  case (refuse now ip fw d fw' conns)
  then show ?thesis using inv by (auto simp: accept_connection_def Let_def split: if_splits)
next
  case (serve conn conns t headers fw d conn' fw')
  obtain rest where conns: "conns = add_mset conn rest" using serve(3) by (rule multi_member_split [THEN exE])
  from serve(4) obtain d1 fw1 xff ip where a: "account_connection (t 0) xff ip conn fw = (d1, conn', fw1)"
    and last: "fw' = fw1 \<or> (\<exists>u. check_request fl u ip fw1 = Some (d, fw'))" by (rule account_request_Some)
  have "server_inv c (fw1, add_mset conn' rest)"
    using inv serve(1) conns c a account_connection_inv [of c fw conn rest] by simp
  moreover have "server_inv c (fw', add_mset conn' rest) = server_inv c (fw1, add_mset conn' rest)"
    using last server_inv_cong check_request_connections check_request_config by metis
  ultimately show ?thesis using serve(2) conns by simp
next
  case (close conn conns fw)
  obtain rest where "conns = add_mset conn rest" using close(3) by (rule multi_member_split [THEN exE])
  then show ?thesis using close inv close_inv [of c fw conn rest] c by simp
qed

text \<open>The server that a configuration starts, for each enabled configuration.\<close>

definition server_start :: "firewall_config \<Rightarrow> firewall \<times> http_conn multiset \<Rightarrow> bool" where
  "server_start c s \<longleftrightarrow> config_ok c \<and> enabled c \<and> s = (firewall_new c, {#})"

interpretation http_server: step_invariant "server_start c" "server_step fl"
  "\<lambda>s. config_ok c \<and> enabled c \<and> server_inv c s" for c fl
proof unfold_locales
  show "server_start c s \<Longrightarrow> config_ok c \<and> enabled c \<and> server_inv c s" for s
    by (simp add: server_start_def server_inv_def firewall_new_def per_ip_exact_def)
qed (blast intro: server_step_inv)


definition direct_conn :: http_conn where
  "direct_conn = \<lparr>peer = V4 1, account_ip = Some (V4 1), account_global_only = False\<rparr>"

lemma no_proxies: "\<not> is_trusted_proxy default_config ip"
  by (simp add: is_trusted_proxy_def trusted_rules_def default_config_def List.map_filter_def)


section \<open>The keep-alive leak\<close>

text \<open>The requests of one keep-alive connection, without an \<open>X-Forwarded-For\<close> header, all admitted.\<close>

fun keep_alive ::
  "(real \<Rightarrow> real) \<Rightarrow> clock list \<Rightarrow> http_conn \<Rightarrow> firewall \<Rightarrow> (http_conn \<times> firewall) option" where
  "keep_alive fl [] conn fw = Some (conn, fw)"
| "keep_alive fl (t # ts) conn fw =
     (case account_request fl t [] conn fw of
        Some (Allowed, conn1, fw1) \<Rightarrow> keep_alive fl ts conn1 fw1
      | _ \<Rightarrow> None)"

lemma unattributed_request:
  assumes "account_request fl t [] conn fw = Some (Allowed, conn', fw')"
    and "account_ip conn = None" and "enabled (config fw)" and "config_ok (config fw)"
  shows "conn' = conn\<lparr>account_global_only := True\<rparr>" and "conn_total fw' = Suc (conn_total fw)"
    and "config fw' = config fw"
proof -
  have ok: "check_connection_behind_proxy (t 0) (peer conn) fw = Allowed"
    and c: "conn' = conn\<lparr>account_global_only := True\<rparr>"
    and r: "\<exists>u ip. check_request fl u ip (on_connect_unattributed fw) = Some (Allowed, fw')"
    using assms(1,2)
    by (auto simp: account_request_def account_connection_def Let_def bind_eq_Some_conv split: if_splits)
  have "conn_total fw < max_connections_total (config fw)"
    using ok assms(3) by (rule check_behind_proxy_Allowed)
  then have "inc32 (conn_total fw) = Suc (conn_total fw)" using assms(4) by (simp add: inc32_def config_ok_def)
  then show "conn_total fw' = Suc (conn_total fw)" "config fw' = config fw"
    using r assms(3) check_request_connections check_request_config
    by (fastforce simp: on_connect_unattributed_def)+
  show "conn' = conn\<lparr>account_global_only := True\<rparr>" by (rule c)
qed

lemma keep_alive_total:
  assumes "keep_alive fl ts conn fw = Some (conn', fw')" and "account_ip conn = None"
    and "enabled (config fw)" and "config_ok (config fw)"
  shows "conn_total fw' = conn_total fw + length ts \<and> account_ip conn' = None \<and> config fw' = config fw \<and>
    (ts \<noteq> [] \<longrightarrow> account_global_only conn')"
  using assms
proof (induction ts arbitrary: conn fw)
  case (Cons t ts)
  obtain conn1 fw1 where r: "account_request fl t [] conn fw = Some (Allowed, conn1, fw1)"
    and k: "keep_alive fl ts conn1 fw1 = Some (conn', fw')"
    using Cons.prems(1) by (auto split: option.splits prod.splits firewall_decision.splits)
  note u = unattributed_request [OF r Cons.prems(2-4)]
  have "account_global_only conn'" if "ts = []" using that k u(1) by auto
  then show ?case using Cons.IH [OF k] Cons.prems u by auto
qed simp

text \<open>
  Keep-alive connections of a trusted proxy that sends no \<open>X-Forwarded-For\<close>
  are counted once per request and released once: after \<open>k\<close> admitted requests and the close, the
  global connection counter is \<open>k - 1\<close> higher than before the connection was accepted, so it
  climbs to the global cap although no connection is open.
\<close>
theorem proxy_keep_alive_leaks:
  assumes "config_ok (config fw)" and "enabled (config fw)" and "is_trusted_proxy (config fw) ip"
    and "accept_connection now ip fw = (Allowed, Some conn, fw0)"
    and "keep_alive fl ts conn fw0 = Some (conn', fw')" and "ts \<noteq> []"
  shows "conn_total (close_connection conn' fw') = conn_total fw + (length ts - 1)"
proof -
  have "fw0 = fw" "account_ip conn = None"
    using assms(3,4) by (auto simp: accept_connection_def Let_def split: if_splits)
  then have "conn_total fw' = conn_total fw + length ts" "account_ip conn' = None"
      "account_global_only conn'" "enabled (config fw')"
    using keep_alive_total [OF assms(5)] assms(1,2,6) by simp_all
  then show ?thesis using assms(6)
    by (cases ts) (simp_all add: close_connection_def on_disconnect_unattributed_def)
qed

definition proxied_config :: firewall_config where
  "proxied_config = default_config\<lparr>trusted_proxies := [''10.0.0.1'']\<rparr>"

lemma proxied_trust: "is_trusted_proxy proxied_config (V4 167772161)"
  using strict_trust(2) by (simp add: is_trusted_proxy_def trusted_rules_def proxied_config_def strict_config_def)

definition proxied_conn :: http_conn where
  "proxied_conn = \<lparr>peer = V4 167772161, account_ip = None, account_global_only = False\<rparr>"

lemma check_request_admits:
  assumes "enabled (config fw)" "blocklist fw ip = None" "tokens (bucket_at fw t ip) \<ge> 1"
    "capacity (bucket_at fw t ip) \<ge> 1"
  shows "\<exists>b. check_request exact t ip fw = Some (Allowed, fw\<lparr>buckets := (buckets fw)(ip \<mapsto> b)\<rparr>) \<and>
    capacity b = capacity (bucket_at fw t ip) \<and> tokens b \<ge> min (tokens (bucket_at fw t ip)) (capacity b) - 1"
proof -
  define b where "b = bucket_at fw t ip"
  define b1 where "b1 = note_request_at exact (t 2) (ewma_alpha_pct (config fw)) b"
  define r where "r = effective_bucket_rate exact (config fw) b1"
  define e where "e = as_secs_f64 exact (t 3 - last_refill b) * r"
  have "0 \<le> r" by (simp add: r_def effective_bucket_rate_def compute_effective_rps_def exact_def Let_def le_max_iff_disj)
  then have e: "0 \<le> e" by (simp add: e_def as_secs_exact)
  have b1: "tokens b1 = tokens b" "capacity b1 = capacity b" "last_refill b1 = last_refill b"
    by (simp_all add: b1_def)
  obtain ok b3 where s: "serve exact (config fw) t b = (ok, b3)" by (cases "serve exact (config fw) t b")
  have "fst (serve exact (config fw) t b)"
    "tokens (snd (serve exact (config fw) t b)) \<ge> min (tokens b) (capacity b) - 1"
    "capacity (snd (serve exact (config fw) t b)) = capacity b"
    using e assms(3,4) b1 unfolding serve_def Let_def b1_def [symmetric] r_def [symmetric] b_def [symmetric]
    by (auto simp: consume_def exact_def Let_def simp flip: e_def b_def)
  then show ?thesis
    using assms(1,2) s check_request_serve [OF s [unfolded b_def]]
    by (intro exI [of _ b3]) (simp add: check_blocklist_def b_def)
qed

lemma proxied_request:
  assumes "enabled (config fw)" "blocklist fw = Map.empty" "conn_total fw < max_connections_total (config fw)"
    "account_ip conn = None" "\<forall>ip. tokens (bucket_at fw (\<lambda>_. 0) ip) \<ge> 1" "\<forall>ip. capacity (bucket_at fw (\<lambda>_. 0) ip) \<ge> 1"
  shows "\<exists>b. account_request exact (\<lambda>_. 0) [] conn fw =
    Some (Allowed, conn\<lparr>account_global_only := True\<rparr>,
      (on_connect_unattributed fw)\<lparr>buckets := (buckets fw)(peer conn \<mapsto> b)\<rparr>) \<and>
    capacity b = capacity (bucket_at fw (\<lambda>_. 0) (peer conn)) \<and>
    tokens b \<ge> min (tokens (bucket_at fw (\<lambda>_. 0) (peer conn))) (capacity b) - 1"
proof -
  have b: "bucket_at (on_connect_unattributed fw) (\<lambda>_. 0) ip = bucket_at fw (\<lambda>_. 0) ip" for ip
    by (cases "buckets fw ip") (simp_all add: bucket_at_def)
  show ?thesis
    using check_request_admits [of "on_connect_unattributed fw" "peer conn" "\<lambda>_. 0"] assms
    by (auto simp: b account_request_def account_connection_def client_ip_from_xff_def
        check_connection_behind_proxy_def check_blocklist_def Let_def)
qed

lemma proxied_keep_alive:
  "\<exists>conn' fw'. keep_alive exact [\<lambda>_. 0, \<lambda>_. 0] proxied_conn (firewall_new proxied_config) = Some (conn', fw')"
proof -
  let ?fw = "firewall_new proxied_config" and ?ip = "peer proxied_conn"
  have f: "config ?fw = proxied_config" "blocklist ?fw = Map.empty" "conn_total ?fw = 0" "buckets ?fw = Map.empty"
    by (simp_all add: firewall_new_def)
  have c: "enabled proxied_config" "max_connections_total proxied_config = 10000" "rate_limit_burst proxied_config = 200"
    by (simp_all add: proxied_config_def default_config_def)
  have bk: "tokens (bucket_at ?fw (\<lambda>_. 0) ip) = 200" "capacity (bucket_at ?fw (\<lambda>_. 0) ip) = 200" for ip
    by (simp_all add: bucket_at_def f c bucket_new_def)
  obtain b where b: "account_request exact (\<lambda>_. 0) [] proxied_conn ?fw =
      Some (Allowed, proxied_conn\<lparr>account_global_only := True\<rparr>,
        (on_connect_unattributed ?fw)\<lparr>buckets := (buckets ?fw)(?ip \<mapsto> b)\<rparr>)"
    "capacity b = 200" "tokens b \<ge> 199"
    using proxied_request [of ?fw proxied_conn] bk by (auto simp: f c proxied_conn_def)
  let ?fw1 = "(on_connect_unattributed ?fw)\<lparr>buckets := (buckets ?fw)(?ip \<mapsto> b)\<rparr>"
  have "tokens (bucket_at ?fw1 (\<lambda>_. 0) ip) \<ge> 199 \<and> capacity (bucket_at ?fw1 (\<lambda>_. 0) ip) = 200" for ip
    using b(2,3) by (simp add: bucket_at_def f bucket_new_def c)
  then have "\<forall>ip. 1 \<le> tokens (bucket_at ?fw1 (\<lambda>_. 0) ip)" "\<forall>ip. 1 \<le> capacity (bucket_at ?fw1 (\<lambda>_. 0) ip)"
    by (smt (verit))+
  moreover have "enabled (config ?fw1)" "blocklist ?fw1 = Map.empty"
      "conn_total ?fw1 < max_connections_total (config ?fw1)"
    by (simp_all add: f c) (simp add: on_connect_unattributed_def f c inc32_def)
  ultimately have "\<exists>r. account_request exact (\<lambda>_. 0) [] (proxied_conn\<lparr>account_global_only := True\<rparr>) ?fw1 = Some (Allowed, r)"
    using proxied_request [of ?fw1 "proxied_conn\<lparr>account_global_only := True\<rparr>"] by (auto simp: proxied_conn_def)
  then show ?thesis using b(1) by auto
qed

end
