(* ===== verification/Task_Queue.thy ===== *)
theory Task_Queue
  imports Rust_Time "HOL-Library.Multiset" "HOL-Library.Product_Lexorder"
begin

text \<open>
  The task queue of \<open>crates/core/src/task_queue.rs\<close>: three deques by priority and a heap of
  delayed tasks. The join handle of a task is not modelled. \<open>BinaryHeap\<close> is the standard
  library's: it is the list of its elements in the order in which \<open>pop\<close> returns them, by due
  time and then by id (the reversed \<open>Ord\<close> of \<open>DelayedTask\<close>); elements with equal keys are
  interchangeable for that order.
\<close>

section \<open>State and operations\<close>

datatype task_type = UserTask | InternalTask | IoTask | DelayedTask | PromiseTask

record task =
  task_id :: nat
  task_type :: task_type

record delayed_task =
  delayed_id :: nat
  due_at :: instant
  delayed_task :: task

definition heap_key :: "delayed_task \<Rightarrow> instant \<times> nat" where
  "heap_key d = (due_at d, delayed_id d)"

record task_queue =
  high_priority :: "task list"
  normal_priority :: "task list"
  low_priority :: "task list"
  delayed :: "delayed_task list"
  next_task_id :: nat

definition queue_new :: task_queue where
  "queue_new = \<lparr>high_priority = [], normal_priority = [], low_priority = [], delayed = [], next_task_id = 0\<rparr>"

definition next_id :: "task_queue \<Rightarrow> nat \<times> task_queue" where
  "next_id q = (next_task_id q, q\<lparr>next_task_id := inc64 (next_task_id q)\<rparr>)"

definition push :: "task \<Rightarrow> task_queue \<Rightarrow> task_queue" where
  "push t q =
     (case task_type t of
        PromiseTask \<Rightarrow> q\<lparr>high_priority := high_priority q @ [t]\<rparr>
      | InternalTask \<Rightarrow> q\<lparr>high_priority := high_priority q @ [t]\<rparr>
      | UserTask \<Rightarrow> q\<lparr>normal_priority := normal_priority q @ [t]\<rparr>
      | IoTask \<Rightarrow> q\<lparr>normal_priority := normal_priority q @ [t]\<rparr>
      | DelayedTask \<Rightarrow> q\<lparr>low_priority := low_priority q @ [t]\<rparr>)"

definition push_delayed :: "instant \<Rightarrow> nat \<Rightarrow> task \<Rightarrow> task_queue \<Rightarrow> task_queue option" where
  "push_delayed now delay t q =
     map_option (\<lambda>at. q\<lparr>delayed := insort_key heap_key
         \<lparr>delayed_id = task_id t, due_at = at, delayed_task = t\<rparr> (delayed q)\<rparr>)
       (instant_add now delay)"

definition pop_ready :: "task_queue \<Rightarrow> task option \<times> task_queue" where
  "pop_ready q =
     (case high_priority q of
        t # ts \<Rightarrow> (Some t, q\<lparr>high_priority := ts\<rparr>)
      | [] \<Rightarrow>
          (case normal_priority q of
             t # ts \<Rightarrow> (Some t, q\<lparr>normal_priority := ts\<rparr>)
           | [] \<Rightarrow>
               (case low_priority q of
                  t # ts \<Rightarrow> (Some t, q\<lparr>low_priority := ts\<rparr>)
                | [] \<Rightarrow> (None, q))))"

definition pop :: "instant \<Rightarrow> task_queue \<Rightarrow> task option \<times> task_queue" where
  "pop now q =
     (case delayed q of
        d # ds \<Rightarrow>
          if due_at d \<le> now then (Some (delayed_task d), q\<lparr>delayed := ds\<rparr>)
          else pop_ready q
      | [] \<Rightarrow> pop_ready q)"

definition queue_pending_count :: "task_queue \<Rightarrow> nat" where
  "queue_pending_count q =
     length (high_priority q) + length (normal_priority q) + length (low_priority q) + length (delayed q)"

definition has_ready_delayed :: "instant \<Rightarrow> task_queue \<Rightarrow> bool" where
  "has_ready_delayed now q = (case delayed q of d # _ \<Rightarrow> due_at d \<le> now | [] \<Rightarrow> False)"

definition next_delayed_duration :: "instant \<Rightarrow> task_queue \<Rightarrow> nat option" where
  "next_delayed_duration now q =
     (case delayed q of
        d # _ \<Rightarrow> Some (if due_at d > now then due_at d - now else 0)
      | [] \<Rightarrow> None)"

section \<open>The interface\<close>

text \<open>
  What a consumer of the queue sees: the items in the order in which they will be served. A new
  item goes behind the items of its own rank and before those of a higher one; taking an item
  takes the first. Served one after the other, items inserted into an empty queue come out in
  the order of a stable sort by rank.
\<close>

locale priority_source =
  fixes items :: "'q \<Rightarrow> 'a list"
    and put :: "'a \<Rightarrow> 'q \<Rightarrow> 'q"
    and serve :: "'q \<Rightarrow> 'a option \<times> 'q"
    and rank :: "'a \<Rightarrow> nat"
    and wf :: "'q \<Rightarrow> bool"
  assumes put_wf: "wf q \<Longrightarrow> wf (put x q)"
    and serve_wf: "wf q \<Longrightarrow> wf (snd (serve q))"
    and put_items: "wf q \<Longrightarrow> items (put x q) =
      takeWhile (\<lambda>y. rank y \<le> rank x) (items q) @ x # dropWhile (\<lambda>y. rank y \<le> rank x) (items q)"
    and serve_empty: "wf q \<Longrightarrow> items q = [] \<Longrightarrow> fst (serve q) = None"
    and serve_first: "wf q \<Longrightarrow> items q = x # xs \<Longrightarrow> fst (serve q) = Some x \<and> items (snd (serve q)) = xs"
begin

lemma put_all_wf: "wf q \<Longrightarrow> wf (foldl (\<lambda>q x. put x q) q xs)"
  by (induction xs arbitrary: q) (simp_all add: put_wf)

lemma stable_insert_sort:
  assumes "ys = sort_key rank zs"
  shows "takeWhile (\<lambda>y. rank y \<le> rank x) ys @ x # dropWhile (\<lambda>y. rank y \<le> rank x) ys = sort_key rank (zs @ [x])"
proof -
  let ?r = "takeWhile (\<lambda>y. rank y \<le> rank x) ys @ x # dropWhile (\<lambda>y. rank y \<le> rank x) ys"
  let ?d = "dropWhile (\<lambda>y. rank y \<le> rank x) ys"
  have sorted: "sorted (map rank ys)" using assms by simp
  have split: "ys = takeWhile (\<lambda>y. rank y \<le> rank x) ys @ ?d" by simp
  have s2: "sorted (map rank (takeWhile (\<lambda>y. rank y \<le> rank x) ys)) \<and> sorted (map rank ?d)"
    using sorted split by (metis map_append sorted_append)
  have big: "rank x < rank y" if "y \<in> set ?d" for y
  proof -
    obtain z zs' where d: "?d = z # zs'" using \<open>y \<in> set ?d\<close> by (cases ?d) auto
    have "\<not> rank z \<le> rank x" using hd_dropWhile [of "\<lambda>y. rank y \<le> rank x" ys] d by simp
    moreover have "rank z \<le> rank y" using s2 d that by auto
    ultimately show ?thesis by simp
  qed
  have small: "rank y \<le> rank x" if "y \<in> set (takeWhile (\<lambda>y. rank y \<le> rank x) ys)" for y
    using that by (auto dest: set_takeWhileD)
  have "sorted (map rank ?r)"
    using s2 big small by (fastforce simp: sorted_append)
  moreover have "filter (\<lambda>y. k = rank y) ?r = filter (\<lambda>y. k = rank y) (zs @ [x])" for k
  proof -
    have "filter (\<lambda>y. k = rank y) ys = filter (\<lambda>y. k = rank y) zs"
      using assms sort_key_stable [of rank k zs] by (simp add: eq_commute [of k])
    moreover have "filter (\<lambda>y. k = rank y) ys = filter (\<lambda>y. k = rank y) (takeWhile (\<lambda>y. rank y \<le> rank x) ys) @
        filter (\<lambda>y. k = rank y) ?d" by (metis split filter_append)
    moreover have "k = rank x \<Longrightarrow> filter (\<lambda>y. k = rank y) ?d = []" by (auto simp: filter_empty_conv dest: big)
    ultimately show ?thesis by auto
  qed
  moreover have "mset ?r = mset (zs @ [x])"
  proof -
    have "mset ys = mset (takeWhile (\<lambda>y. rank y \<le> rank x) ys) + mset ?d" by (metis split mset_append)
    then show ?thesis using assms by simp
  qed
  ultimately show ?thesis by (intro properties_for_sort_key [symmetric])
qed

lemma items_put_all:
  assumes "wf q" and "items q = []"
  shows "items (foldl (\<lambda>q x. put x q) q xs) = sort_key rank xs"
proof (induction xs rule: rev_induct)
  case (snoc x xs)
  have "items (foldl (\<lambda>q x. put x q) q (xs @ [x])) = takeWhile (\<lambda>y. rank y \<le> rank x) (sort_key rank xs) @
      x # dropWhile (\<lambda>y. rank y \<le> rank x) (sort_key rank xs)"
    using put_items [OF put_all_wf [OF assms(1), of xs], of x] snoc by simp
  then show ?case using stable_insert_sort by simp
qed (simp add: assms(2))

end

section \<open>The queue implements it\<close>

definition task_rank :: "task \<Rightarrow> nat" where
  "task_rank t = (case task_type t of
     PromiseTask \<Rightarrow> 0 | InternalTask \<Rightarrow> 0 | UserTask \<Rightarrow> 1 | IoTask \<Rightarrow> 1 | DelayedTask \<Rightarrow> 2)"

definition ready_tasks :: "task_queue \<Rightarrow> task list" where
  "ready_tasks q = high_priority q @ normal_priority q @ low_priority q"

definition deques_typed :: "task_queue \<Rightarrow> bool" where
  "deques_typed q \<longleftrightarrow> (\<forall>t\<in>set (high_priority q). task_rank t = 0) \<and>
     (\<forall>t\<in>set (normal_priority q). task_rank t = 1) \<and> (\<forall>t\<in>set (low_priority q). task_rank t = 2)"

definition none_due :: "instant \<Rightarrow> task_queue \<Rightarrow> bool" where
  "none_due now q \<longleftrightarrow> (\<forall>d\<in>set (delayed q). now < due_at d)"

lemma takeWhile_dropWhile_append:
  "(\<And>x. x \<in> set xs \<Longrightarrow> P x) \<Longrightarrow> takeWhile P (xs @ ys) = xs @ takeWhile P ys"
  "(\<And>x. x \<in> set xs \<Longrightarrow> P x) \<Longrightarrow> dropWhile P (xs @ ys) = dropWhile P ys"
  by (simp_all add: takeWhile_append2 dropWhile_append2)

lemma takeWhile_none: "(\<And>x. x \<in> set xs \<Longrightarrow> \<not> P x) \<Longrightarrow> takeWhile P xs = [] \<and> dropWhile P xs = xs"
  by (cases xs) auto

lemma push_ready:
  assumes "deques_typed q"
  shows "ready_tasks (push t q) =
    takeWhile (\<lambda>y. task_rank y \<le> task_rank t) (ready_tasks q) @ t #
    dropWhile (\<lambda>y. task_rank y \<le> task_rank t) (ready_tasks q)"
proof -
  let ?P = "\<lambda>y. task_rank y \<le> task_rank t"
  have h: "x \<in> set (high_priority q) \<Longrightarrow> task_rank x = 0" for x using assms by (simp add: deques_typed_def)
  have n: "x \<in> set (normal_priority q) \<Longrightarrow> task_rank x = 1" for x using assms by (simp add: deques_typed_def)
  have l: "x \<in> set (low_priority q) \<Longrightarrow> task_rank x = 2" for x using assms by (simp add: deques_typed_def)
  have high: "x \<in> set (high_priority q) \<Longrightarrow> ?P x" for x using h by simp
  consider (0) "task_rank t = 0" | (1) "task_rank t = 1" | (2) "task_rank t = 2"
    by (cases "task_type t") (auto simp: task_rank_def)
  then show ?thesis
  proof cases
    case 0
    have "takeWhile ?P (normal_priority q @ low_priority q) = [] \<and>
        dropWhile ?P (normal_priority q @ low_priority q) = normal_priority q @ low_priority q"
      by (rule takeWhile_none) (auto simp: 0 dest: n l)
    moreover have "push t q = q\<lparr>high_priority := high_priority q @ [t]\<rparr>"
      using 0 by (auto simp: push_def task_rank_def split: task_type.splits)
    ultimately show ?thesis by (simp add: ready_tasks_def takeWhile_dropWhile_append high)
  next
    case 1
    have "takeWhile ?P (low_priority q) = [] \<and> dropWhile ?P (low_priority q) = low_priority q"
      by (rule takeWhile_none) (auto simp: 1 dest: l)
    moreover have "x \<in> set (normal_priority q) \<Longrightarrow> ?P x" for x using n 1 by simp
    moreover have "push t q = q\<lparr>normal_priority := normal_priority q @ [t]\<rparr>"
      using 1 by (auto simp: push_def task_rank_def split: task_type.splits)
    ultimately show ?thesis by (simp add: ready_tasks_def takeWhile_dropWhile_append high)
  next
    case 2
    have "?P x" if "x \<in> set (ready_tasks q)" for x using that h n l 2 by (auto simp: ready_tasks_def)
    then have "takeWhile ?P (ready_tasks q) = ready_tasks q" "dropWhile ?P (ready_tasks q) = []" by simp_all
    moreover have "push t q = q\<lparr>low_priority := low_priority q @ [t]\<rparr>"
      using 2 by (auto simp: push_def task_rank_def split: task_type.splits)
    then have "ready_tasks (push t q) = ready_tasks q @ [t]" by (simp add: ready_tasks_def)
    ultimately show ?thesis by (simp only:)
  qed
qed

lemma pop_none_due: "none_due now q \<Longrightarrow> pop now q = pop_ready q"
  by (auto simp: pop_def none_due_def split: list.split)

lemma pop_ready_first:
  "ready_tasks q = x # xs \<Longrightarrow> fst (pop_ready q) = Some x \<and> ready_tasks (snd (pop_ready q)) = xs"
  by (auto simp: pop_ready_def ready_tasks_def split: list.splits)

lemma pop_ready_wf:
  "deques_typed q \<Longrightarrow> deques_typed (snd (pop_ready q))" "delayed (snd (pop_ready q)) = delayed q"
  by (auto simp: pop_ready_def deques_typed_def split: list.splits)

lemma push_wf:
  "deques_typed q \<Longrightarrow> deques_typed (push t q)" "delayed (push t q) = delayed q"
  by (cases "task_type t"; auto simp: push_def deques_typed_def task_rank_def)+

interpretation task_queue: priority_source ready_tasks push "pop now" task_rank
  "\<lambda>q. deques_typed q \<and> none_due now q" for now
proof unfold_locales
  fix q x xs
  assume wf: "deques_typed q \<and> none_due now q"
  show "deques_typed (push x q) \<and> none_due now (push x q)" using wf by (simp add: push_wf none_due_def)
  show "deques_typed (snd (pop now q)) \<and> none_due now (snd (pop now q))"
    using wf by (simp add: pop_none_due pop_ready_wf none_due_def)
  show "ready_tasks (push x q) = takeWhile (\<lambda>y. task_rank y \<le> task_rank x) (ready_tasks q) @ x #
      dropWhile (\<lambda>y. task_rank y \<le> task_rank x) (ready_tasks q)" using wf by (simp add: push_ready)
  show "fst (pop now q) = None" if "ready_tasks q = []"
    using wf that by (simp add: pop_none_due) (simp add: pop_ready_def ready_tasks_def)
  show "fst (pop now q) = Some x \<and> ready_tasks (snd (pop now q)) = xs" if "ready_tasks q = x # xs"
    using wf that by (simp add: pop_none_due pop_ready_first)
qed

section \<open>Serving\<close>

text \<open>\<open>n\<close> calls of \<open>pop\<close>, one clock reading each.\<close>

fun pop_many :: "nat \<Rightarrow> clock \<Rightarrow> task_queue \<Rightarrow> task option list" where
  "pop_many 0 t q = []"
| "pop_many (Suc n) t q = (let (x, q') = pop (t 0) q in x # pop_many n (\<lambda>i. t (Suc i)) q')"

lemma pop_many_ready:
  assumes "deques_typed q" and "delayed q = []"
  shows "pop_many (length (ready_tasks q) + k) t q = map Some (ready_tasks q) @ replicate k None"
  using assms
proof (induction "ready_tasks q" arbitrary: q t)
  case Nil
  have "fst (pop now q) = None \<and> snd (pop now q) = q" for now
    using Nil by (simp add: pop_def pop_ready_def ready_tasks_def)
  then have "pop_many k t q = replicate k None" for t
    by (induction k arbitrary: t) (simp_all add: split_beta)
  then show ?case using Nil by simp
next
  case (Cons x xs)
  have p: "pop (t 0) q = pop_ready q" using Cons.prems by (simp add: pop_none_due none_due_def)
  obtain q' where q': "pop_ready q = (Some x, q')" "ready_tasks q' = xs"
    using pop_ready_first [of q x xs] Cons.hyps(2) by (cases "pop_ready q") auto
  then have "deques_typed q'" "delayed q' = []" using pop_ready_wf [of q] Cons.prems by simp_all
  then have "pop_many (length (ready_tasks q') + k) (\<lambda>i. t (Suc i)) q' = map Some (ready_tasks q') @ replicate k None"
    using Cons.hyps(1) [of q'] q'(2) by simp
  then show ?case using q' p Cons.hyps(2) by (simp flip: Cons.hyps(2))
qed

text \<open>
  Claim C38 (refinement). The three deques implement one priority list: tasks pushed in any order
  are served in the order of a stable sort by class, promises and internal tasks first, then user
  and I/O tasks, then delayed ones, each class first in first out; no task is lost or served
  twice, and a further \<open>pop\<close> returns nothing.
\<close>
theorem tasks_served_by_priority:
  "pop_many (length ts + k) t (foldl (\<lambda>q x. push x q) queue_new ts) =
     map Some (sort_key task_rank ts) @ replicate k None"
proof -
  let ?q = "foldl (\<lambda>q x. push x q) queue_new ts"
  have new: "deques_typed queue_new \<and> none_due now queue_new" "ready_tasks queue_new = []" for now
    by (simp_all add: queue_new_def deques_typed_def none_due_def ready_tasks_def)
  have "deques_typed ?q" using task_queue.put_all_wf [OF new(1)] by blast
  moreover have "delayed (foldl (\<lambda>q x. push x q) q ts) = delayed q" for q
    by (induction ts arbitrary: q) (simp_all add: push_wf)
  then have "delayed ?q = []" by (simp add: queue_new_def)
  moreover have "ready_tasks ?q = sort_key task_rank ts"
    using new by (rule task_queue.items_put_all)
  ultimately show ?thesis using pop_many_ready [of ?q k t] by simp
qed

text \<open>A delayed task that is due goes before every ready task, the earliest one first.\<close>

definition heap_ok :: "task_queue \<Rightarrow> bool" where
  "heap_ok q \<longleftrightarrow> sorted (map heap_key (delayed q))"

lemma heap_ok_push_delayed: "heap_ok q \<Longrightarrow> push_delayed now d t q = Some q' \<Longrightarrow> heap_ok q'"
  by (auto simp: heap_ok_def push_delayed_def sorted_insort_key)

lemma pop_due_first:
  assumes "heap_ok q" and "d \<in> set (delayed q)" and "due_at d \<le> now"
  obtains e where "fst (pop now q) = Some (delayed_task e)" "e \<in> set (delayed q)"
    "heap_key e \<le> heap_key d" "due_at e \<le> now"
proof -
  obtain e es where e: "delayed q = e # es" using assms(2) by (cases "delayed q") auto
  have le: "heap_key e \<le> heap_key d" using assms(1,2) e by (auto simp: heap_ok_def)
  then have "due_at e \<le> now" using assms(3) by (auto simp: heap_key_def less_eq_prod_simp)
  then show ?thesis using e le by (intro that [of e]) (simp_all add: pop_def)
qed

end
