(* ===== verification/Timer_Wheel.thy ===== *)
theory Timer_Wheel
  imports Rust_Time "HOL-Library.Multiset" "HOL-Library.Monad_Syntax"
begin

text \<open>
  The timer wheels of \<open>crates/core/src/timer.rs\<close>: six deques by distance. A callback is a value of
  any type (what calling it does is the caller's business). \<open>poll\<close> reads the clock for every
  timer it looks at; the readings of one \<open>poll\<close> are taken to be one instant \<open>now\<close>. Scheduling
  reads the clock twice, for the due time and for the wheel.
\<close>

section \<open>State and operations\<close>

record 'cb timer =
  timer_id :: nat
  callback :: 'cb
  scheduled_at :: instant
  repeating :: bool
  interval :: "nat option"

definition timer_new :: "instant \<Rightarrow> nat \<Rightarrow> 'cb \<Rightarrow> nat \<Rightarrow> 'cb timer option" where
  "timer_new now i cb delay =
     map_option (\<lambda>at. \<lparr>timer_id = i, callback = cb, scheduled_at = at, repeating = False, interval = None\<rparr>)
       (instant_add now delay)"

definition timer_interval :: "instant \<Rightarrow> nat \<Rightarrow> 'cb \<Rightarrow> nat \<Rightarrow> 'cb timer option" where
  "timer_interval now i cb every =
     map_option (\<lambda>at. \<lparr>timer_id = i, callback = cb, scheduled_at = at, repeating = True, interval = Some every\<rparr>)
       (instant_add now every)"

definition is_ready :: "instant \<Rightarrow> 'cb timer \<Rightarrow> bool" where
  "is_ready now t \<longleftrightarrow> scheduled_at t \<le> now"

definition reschedule :: "instant \<Rightarrow> 'cb timer \<Rightarrow> 'cb timer option" where
  "reschedule now t =
     (case interval t of
        Some d \<Rightarrow> map_option (\<lambda>at. t\<lparr>scheduled_at := at\<rparr>) (instant_add now d)
      | None \<Rightarrow> Some t)"

record 'cb timer_wheel =
  wheel_ms :: "'cb timer list"
  wheel_s :: "'cb timer list"
  wheel_m :: "'cb timer list"
  wheel_h :: "'cb timer list"
  wheel_d :: "'cb timer list"
  wheel_large :: "'cb timer list"
  next_timer :: nat

definition wheel_new :: "'cb timer_wheel" where
  "wheel_new = \<lparr>wheel_ms = [], wheel_s = [], wheel_m = [], wheel_h = [], wheel_d = [], wheel_large = [],
     next_timer = 0\<rparr>"

definition next_timer_id :: "'cb timer_wheel \<Rightarrow> nat \<times> 'cb timer_wheel" where
  "next_timer_id w = (next_timer w, w\<lparr>next_timer := inc64 (next_timer w)\<rparr>)"

definition add_timer :: "instant \<Rightarrow> 'cb timer \<Rightarrow> 'cb timer_wheel \<Rightarrow> 'cb timer_wheel" where
  "add_timer now t w =
     (let delay = scheduled_at t - now
      in if delay div ns_per_ms < 64 then w\<lparr>wheel_ms := wheel_ms w @ [t]\<rparr>
         else if delay div ns_per_sec < 4 then w\<lparr>wheel_s := wheel_s w @ [t]\<rparr>
         else if delay div ns_per_sec < 240 then w\<lparr>wheel_m := wheel_m w @ [t]\<rparr>
         else if delay div ns_per_sec < 14400 then w\<lparr>wheel_h := wheel_h w @ [t]\<rparr>
         else if delay div ns_per_sec < 345600 then w\<lparr>wheel_d := wheel_d w @ [t]\<rparr>
         else w\<lparr>wheel_large := wheel_large w @ [t]\<rparr>)"

definition schedule_with_callback ::
  "clock \<Rightarrow> nat \<Rightarrow> 'cb \<Rightarrow> 'cb timer_wheel \<Rightarrow> (nat \<times> 'cb timer_wheel) option" where
  "schedule_with_callback t delay cb w =
     (let (i, w1) = next_timer_id w
      in do { timer \<leftarrow> timer_new (t 0) i cb delay; Some (i, add_timer (t 1) timer w1) })"

text \<open>\<open>schedule\<close> is the same with a callback that does nothing.\<close>

definition schedule :: "'cb \<Rightarrow> clock \<Rightarrow> nat \<Rightarrow> 'cb timer_wheel \<Rightarrow> (nat \<times> 'cb timer_wheel) option" where
  "schedule noop t delay w =
     (let (i, w1) = next_timer_id w
      in do { timer \<leftarrow> timer_new (t 0) i noop delay; Some (i, add_timer (t 1) timer w1) })"

definition schedule_interval_with_callback ::
  "clock \<Rightarrow> nat \<Rightarrow> 'cb \<Rightarrow> 'cb timer_wheel \<Rightarrow> (nat \<times> 'cb timer_wheel) option" where
  "schedule_interval_with_callback t every cb w =
     (let (i, w1) = next_timer_id w
      in do { timer \<leftarrow> timer_interval (t 0) i cb every; Some (i, add_timer (t 1) timer w1) })"

fun poll_wheel :: "bool \<Rightarrow> instant \<Rightarrow> 'cb timer list \<Rightarrow> ('cb timer list \<times> 'cb timer list) option" where
  "poll_wheel repeating_ok now [] = Some ([], [])"
| "poll_wheel repeating_ok now (t # wheel) =
     (if is_ready now t then do {
        t' \<leftarrow> (if repeating_ok \<and> repeating t then reschedule now t else Some t);
        (ready, rest) \<leftarrow> poll_wheel repeating_ok now wheel;
        Some (t' # ready, rest) }
      else Some ([], t # wheel))"

definition poll :: "instant \<Rightarrow> 'cb timer_wheel \<Rightarrow> ('cb timer list \<times> 'cb timer_wheel) option" where
  "poll now w = do {
     (r1, ms) \<leftarrow> poll_wheel True now (wheel_ms w);
     (r2, s) \<leftarrow> poll_wheel True now (wheel_s w);
     (r3, m) \<leftarrow> poll_wheel True now (wheel_m w);
     (r4, h) \<leftarrow> poll_wheel True now (wheel_h w);
     (r5, d) \<leftarrow> poll_wheel True now (wheel_d w);
     (r6, large) \<leftarrow> poll_wheel False now (wheel_large w);
     Some (r1 @ r2 @ r3 @ r4 @ r5 @ r6,
       w\<lparr>wheel_ms := ms, wheel_s := s, wheel_m := m, wheel_h := h, wheel_d := d, wheel_large := large\<rparr>) }"

fun remove_id :: "nat \<Rightarrow> 'cb timer list \<Rightarrow> 'cb timer list option" where
  "remove_id i [] = None"
| "remove_id i (t # wheel) = (if timer_id t = i then Some wheel else map_option (Cons t) (remove_id i wheel))"

definition cancel :: "nat \<Rightarrow> 'cb timer_wheel \<Rightarrow> bool \<times> 'cb timer_wheel" where
  "cancel i w =
     (case remove_id i (wheel_ms w) of Some x \<Rightarrow> (True, w\<lparr>wheel_ms := x\<rparr>)
      | None \<Rightarrow> case remove_id i (wheel_s w) of Some x \<Rightarrow> (True, w\<lparr>wheel_s := x\<rparr>)
      | None \<Rightarrow> case remove_id i (wheel_m w) of Some x \<Rightarrow> (True, w\<lparr>wheel_m := x\<rparr>)
      | None \<Rightarrow> case remove_id i (wheel_h w) of Some x \<Rightarrow> (True, w\<lparr>wheel_h := x\<rparr>)
      | None \<Rightarrow> case remove_id i (wheel_d w) of Some x \<Rightarrow> (True, w\<lparr>wheel_d := x\<rparr>)
      | None \<Rightarrow> case remove_id i (wheel_large w) of Some x \<Rightarrow> (True, w\<lparr>wheel_large := x\<rparr>)
      | None \<Rightarrow> (False, w))"

definition all_timers :: "'cb timer_wheel \<Rightarrow> 'cb timer list" where
  "all_timers w = wheel_ms w @ wheel_s w @ wheel_m w @ wheel_h w @ wheel_d w @ wheel_large w"

definition wheel_pending_count :: "'cb timer_wheel \<Rightarrow> nat" where
  "wheel_pending_count w =
     length (wheel_ms w) + length (wheel_s w) + length (wheel_m w) + length (wheel_h w) +
     length (wheel_d w) + length (wheel_large w)"

definition next_duration :: "instant \<Rightarrow> 'cb timer_wheel \<Rightarrow> nat option" where
  "next_duration now w =
     (case map (\<lambda>t. scheduled_at t - now) (all_timers w) of
        [] \<Rightarrow> None
      | d # ds \<Rightarrow> Some (foldl min d ds))"

section \<open>One wheel\<close>

lemma reschedule_frame:
  "reschedule now t = Some t' \<Longrightarrow> timer_id t' = timer_id t \<and> callback t' = callback t \<and>
     repeating t' = repeating t \<and> interval t' = interval t"
  by (auto simp: reschedule_def split: option.splits)

text \<open>What firing leaves of a timer: everything but the due time.\<close>

definition same_timer :: "'cb timer \<Rightarrow> 'cb timer \<Rightarrow> bool" where
  "same_timer t t' \<longleftrightarrow> timer_id t' = timer_id t \<and> callback t' = callback t \<and>
     repeating t' = repeating t \<and> interval t' = interval t"

lemma poll_wheel_shape:
  assumes "poll_wheel ok now wheel = Some (ready, rest)"
  shows "rest = dropWhile (is_ready now) wheel \<and>
    list_all2 same_timer (takeWhile (is_ready now) wheel) ready"
  using assms
  by (induction wheel arbitrary: ready)
    (auto simp: bind_eq_Some_conv same_timer_def split: if_splits dest: reschedule_frame)

lemma list_all2_same_map:
  "list_all2 same_timer ts us \<Longrightarrow> (\<And>t u. same_timer t u \<Longrightarrow> f t = f u) \<Longrightarrow> map f us = map f ts"
  by (induction rule: list_all2_induct) auto

definition due_timers :: "instant \<Rightarrow> 'cb timer_wheel \<Rightarrow> 'cb timer list" where
  "due_timers now w = concat (map (takeWhile (is_ready now))
     [wheel_ms w, wheel_s w, wheel_m w, wheel_h w, wheel_d w, wheel_large w])"

lemma poll_shape:
  assumes "poll now w = Some (ready, w')"
  shows "list_all2 same_timer (due_timers now w) ready"
    and "w' = w\<lparr>wheel_ms := dropWhile (is_ready now) (wheel_ms w), wheel_s := dropWhile (is_ready now) (wheel_s w),
      wheel_m := dropWhile (is_ready now) (wheel_m w), wheel_h := dropWhile (is_ready now) (wheel_h w),
      wheel_d := dropWhile (is_ready now) (wheel_d w), wheel_large := dropWhile (is_ready now) (wheel_large w)\<rparr>"
  using assms unfolding poll_def due_timers_def
  by (auto simp: bind_eq_Some_conv dest!: poll_wheel_shape intro!: list_all2_appendI)

lemma mset_take_drop: "mset (takeWhile P xs) + mset (dropWhile P xs) = mset xs"
  by (metis mset_append takeWhile_dropWhile_id)

lemma poll_mset:
  assumes "poll now w = Some (ready, w')"
  shows "mset (due_timers now w) + mset (all_timers w') = mset (all_timers w)"
proof -
  have "mset (due_timers now w) + mset (all_timers w') =
      (mset (takeWhile (is_ready now) (wheel_ms w)) + mset (dropWhile (is_ready now) (wheel_ms w))) +
      (mset (takeWhile (is_ready now) (wheel_s w)) + mset (dropWhile (is_ready now) (wheel_s w))) +
      (mset (takeWhile (is_ready now) (wheel_m w)) + mset (dropWhile (is_ready now) (wheel_m w))) +
      (mset (takeWhile (is_ready now) (wheel_h w)) + mset (dropWhile (is_ready now) (wheel_h w))) +
      (mset (takeWhile (is_ready now) (wheel_d w)) + mset (dropWhile (is_ready now) (wheel_d w))) +
      (mset (takeWhile (is_ready now) (wheel_large w)) + mset (dropWhile (is_ready now) (wheel_large w)))"
    unfolding poll_shape(2) [OF assms] by (simp add: due_timers_def all_timers_def ac_simps)
  then show ?thesis unfolding mset_take_drop by (simp add: all_timers_def ac_simps)
qed

text \<open>
  One \<open>poll\<close> fires no timer early, loses none and fires none twice: what it
  returns are timers that were due, each with its id, callback and interval, what it leaves are
  the others, and when every wheel is in the order of its due times no due timer is left behind.
\<close>
theorem poll_fires_due_timers:
  assumes "poll now w = Some (ready, w')"
  shows "mset (map timer_id ready) + mset (map timer_id (all_timers w')) = mset (map timer_id (all_timers w)) \<and>
    (\<forall>r\<in>set ready. \<exists>t\<in>set (all_timers w). same_timer t r \<and> scheduled_at t \<le> now) \<and>
    (list_all (\<lambda>x. sorted (map scheduled_at x)) [wheel_ms w, wheel_s w, wheel_m w, wheel_h w, wheel_d w, wheel_large w] \<longrightarrow>
      (\<forall>t\<in>set (all_timers w'). now < scheduled_at t))"
proof (intro conjI ballI impI)
  note shape = poll_shape [OF assms]
  have ids: "map timer_id ready = map timer_id (due_timers now w)"
    using shape(1) by (rule list_all2_same_map) (simp add: same_timer_def)
  show "mset (map timer_id ready) + mset (map timer_id (all_timers w')) = mset (map timer_id (all_timers w))"
    using poll_mset [OF assms] unfolding ids by (metis image_mset_union mset_map)
  fix r assume "r \<in> set ready"
  then obtain t where t: "t \<in> set (due_timers now w)" "same_timer t r"
    using shape(1) by (metis in_set_conv_nth list_all2_conv_all_nth)
  then have "is_ready now t" "t \<in> set (all_timers w)"
    unfolding due_timers_def all_timers_def by (auto dest: set_takeWhileD)
  then show "\<exists>t\<in>set (all_timers w). same_timer t r \<and> scheduled_at t \<le> now"
    using t(2) by (auto simp: is_ready_def)
next
  assume sorted: "list_all (\<lambda>x. sorted (map scheduled_at x))
    [wheel_ms w, wheel_s w, wheel_m w, wheel_h w, wheel_d w, wheel_large w]"
  have late: "now < scheduled_at t" if "sorted (map scheduled_at x)" "t \<in> set (dropWhile (is_ready now) x)" for t x
    using that by (induction x) (auto simp: is_ready_def split: if_splits)
  fix t assume "t \<in> set (all_timers w')"
  then have "\<exists>x \<in> {wheel_ms w, wheel_s w, wheel_m w, wheel_h w, wheel_d w, wheel_large w}.
      t \<in> set (dropWhile (is_ready now) x)"
    unfolding poll_shape(2) [OF assms] all_timers_def by auto
  then show "now < scheduled_at t" using sorted late by auto
qed

text \<open>A wheel that is not in the order of its due times holds a due timer back: \<open>poll\<close> only looks
  at the head of each wheel.\<close>

lemma poll_head_of_line_blocking:
  assumes "wheel_ms w = late # wheel" and "now < scheduled_at late" and "poll now w = Some (ready, w')"
  shows "wheel_ms w' = wheel_ms w"
  using poll_shape(2) [OF assms(3)] assms(1,2) by (simp add: is_ready_def)

section \<open>Cancelling\<close>

definition ids_ok :: "'cb timer_wheel \<Rightarrow> bool" where
  "ids_ok w \<longleftrightarrow> distinct (map timer_id (all_timers w)) \<and> (\<forall>t\<in>set (all_timers w). timer_id t < next_timer w)"

lemma remove_id_None: "remove_id i xs = None \<longleftrightarrow> i \<notin> timer_id ` set xs"
  by (induction xs) auto

lemma remove_id_Some:
  "remove_id i xs = Some ys \<Longrightarrow> \<exists>t. timer_id t = i \<and> mset xs = add_mset t (mset ys)"
  by (induction xs arbitrary: ys) (auto split: if_splits)

lemma cancel_mset:
  assumes "cancel i w = (b, w')"
  shows "if b then \<exists>t. timer_id t = i \<and> mset (all_timers w) = add_mset t (mset (all_timers w')) \<and> next_timer w' = next_timer w
    else w' = w \<and> i \<notin> timer_id ` set (all_timers w)"
  using assms unfolding cancel_def
  by (auto simp: all_timers_def remove_id_None image_Un dest!: remove_id_Some split: option.splits)

lemma cancel_removes:
  assumes "ids_ok w" and "cancel i w = (b, w')"
  shows "b \<longleftrightarrow> i \<in> timer_id ` set (all_timers w)" and "i \<notin> timer_id ` set (all_timers w')" and "ids_ok w'"
proof -
  have d: "distinct (map timer_id (all_timers w))" using assms(1) by (simp add: ids_ok_def)
  have "(b \<longleftrightarrow> i \<in> timer_id ` set (all_timers w)) \<and> i \<notin> timer_id ` set (all_timers w') \<and> ids_ok w'"
  proof (cases b)
    case True
    then obtain t where t: "timer_id t = i" "mset (all_timers w) = add_mset t (mset (all_timers w'))"
      "next_timer w' = next_timer w" using cancel_mset [OF assms(2)] by auto
    have s: "set (all_timers w) = insert t (set (all_timers w'))"
      using arg_cong [OF t(2), of set_mset] by simp
    have "mset (map timer_id (all_timers w)) = mset (timer_id t # map timer_id (all_timers w'))"
      using t(2) by simp
    then have "distinct (timer_id t # map timer_id (all_timers w'))"
      using d mset_eq_imp_distinct_iff by blast
    then show ?thesis using True t(1,3) s assms(1) by (auto simp: ids_ok_def)
  next
    case False
    then show ?thesis using cancel_mset [OF assms(2)] assms(1) by auto
  qed
  then show "b \<longleftrightarrow> i \<in> timer_id ` set (all_timers w)" "i \<notin> timer_id ` set (all_timers w')" "ids_ok w'" by simp_all
qed

lemma all_timers_add: "mset (all_timers (add_timer now t w)) = add_mset t (mset (all_timers w))"
  "next_timer (add_timer now t w) = next_timer w"
  by (simp_all add: add_timer_def all_timers_def Let_def)

end
