(* ===== verification/Event_Loop.thy ===== *)
theory Event_Loop
  imports Task_Queue Timer_Wheel Permissions
begin

text \<open>
  The event loop of \<open>crates/core/src/lib.rs\<close>: \<open>Runtime\<close> with its permission state, task queue and
  timer wheels. A callback takes no argument and cannot reach the runtime, so calling it is an
  entry in the log of the run. Yielding and sleeping let time pass and nothing else: iteration
  \<open>k\<close> of the loop reads the clock \<open>t k\<close>, first for the poll and then twice for every timer it
  schedules again. The loop is bounded by \<open>MAX_ITERS\<close>, as in the code.
\<close>

section \<open>The runtime\<close>

record 'cb runtime =
  rt_permissions :: perm_state
  rt_queue :: task_queue
  rt_wheel :: "'cb timer_wheel"

definition runtime_new :: "perm_state \<Rightarrow> 'cb runtime" where
  "runtime_new p = \<lparr>rt_permissions = p, rt_queue = queue_new, rt_wheel = wheel_new\<rparr>"

definition pending_task_count :: "'cb runtime \<Rightarrow> nat" where
  "pending_task_count rt = queue_pending_count (rt_queue rt) + wheel_pending_count (rt_wheel rt)"

definition next_timer_duration :: "instant \<Rightarrow> 'cb runtime \<Rightarrow> nat option" where
  "next_timer_duration now rt = next_duration now (rt_wheel rt)"

definition rearm :: "clock \<Rightarrow> 'cb timer \<Rightarrow> 'cb timer_wheel \<Rightarrow> 'cb timer_wheel option" where
  "rearm t timer w =
     (if repeating timer
      then (case interval timer of
              Some every \<Rightarrow> map_option snd (schedule_with_callback t every (callback timer) w)
            | None \<Rightarrow> Some w)
      else Some w)"

fun fire :: "clock \<Rightarrow> 'cb timer list \<Rightarrow> 'cb timer_wheel \<Rightarrow> ('cb list \<times> 'cb timer_wheel) option" where
  "fire t [] w = Some ([], w)"
| "fire t (timer # expired) w = do {
     w1 \<leftarrow> rearm t timer w;
     (log, w2) \<leftarrow> fire (\<lambda>i. t (i + 2)) expired w1;
     Some (callback timer # log, w2) }"

definition iteration :: "clock \<Rightarrow> 'cb runtime \<Rightarrow> ('cb list \<times> 'cb runtime) option" where
  "iteration t rt = do {
     (expired, w1) \<leftarrow> poll (t 0) (rt_wheel rt);
     (log, w2) \<leftarrow> fire (\<lambda>i. t (i + 1)) expired w1;
     Some (log, rt\<lparr>rt_wheel := w2\<rparr>) }"

fun run_loop :: "nat \<Rightarrow> (nat \<Rightarrow> clock) \<Rightarrow> 'cb runtime \<Rightarrow> ('cb list \<times> 'cb runtime) option" where
  "run_loop 0 t rt = Some ([], rt)"
| "run_loop (Suc n) t rt =
     (if pending_task_count rt > 0 then do {
        (log, rt1) \<leftarrow> iteration (t 0) rt;
        (log', rt2) \<leftarrow> run_loop n (\<lambda>k. t (Suc k)) rt1;
        Some (log @ log', rt2) }
      else Some ([], rt))"

definition MAX_ITERS :: nat where
  "MAX_ITERS = 100000"

definition run :: "(nat \<Rightarrow> clock) \<Rightarrow> 'cb runtime \<Rightarrow> ('cb list \<times> 'cb runtime) option" where
  "run t rt = run_loop MAX_ITERS t rt"

definition schedule_task :: "task_type \<Rightarrow> 'cb runtime \<Rightarrow> 'cb runtime" where
  "schedule_task ty rt =
     (let (i, q) = next_id (rt_queue rt) in rt\<lparr>rt_queue := push \<lparr>task_id = i, task_type = ty\<rparr> q\<rparr>)"

definition set_timeout :: "clock \<Rightarrow> nat \<Rightarrow> 'cb \<Rightarrow> 'cb runtime \<Rightarrow> (nat \<times> 'cb runtime) option" where
  "set_timeout t delay cb rt =
     map_option (\<lambda>(i, w). (i, rt\<lparr>rt_wheel := w\<rparr>)) (schedule_with_callback t delay cb (rt_wheel rt))"

definition set_interval :: "clock \<Rightarrow> nat \<Rightarrow> 'cb \<Rightarrow> 'cb runtime \<Rightarrow> (nat \<times> 'cb runtime) option" where
  "set_interval t every cb rt =
     map_option (\<lambda>(i, w). (i, rt\<lparr>rt_wheel := w\<rparr>)) (schedule_interval_with_callback t every cb (rt_wheel rt))"

definition clear_timeout :: "nat \<Rightarrow> 'cb runtime \<Rightarrow> bool \<times> 'cb runtime" where
  "clear_timeout i rt = (let (b, w) = cancel i (rt_wheel rt) in (b, rt\<lparr>rt_wheel := w\<rparr>))"

definition poll_timers :: "instant \<Rightarrow> 'cb runtime \<Rightarrow> ('cb timer list \<times> 'cb runtime) option" where
  "poll_timers now rt = map_option (\<lambda>(r, w). (r, rt\<lparr>rt_wheel := w\<rparr>)) (poll now (rt_wheel rt))"

section \<open>How often a callback runs\<close>

text \<open>
  The firings a timer is still good for: a one-shot timer one; a repeating timer two, because the
  loop schedules it again with \<open>schedule_with_callback\<close>, as a one-shot timer.
\<close>

definition credit :: "'cb \<Rightarrow> 'cb timer \<Rightarrow> nat" where
  "credit cb t = (if callback t \<noteq> cb then 0 else if repeating t \<and> interval t \<noteq> None then 2 else 1)"

definition credits :: "'cb \<Rightarrow> 'cb timer_wheel \<Rightarrow> nat" where
  "credits cb w = (\<Sum>t\<in>#mset (all_timers w). credit cb t)"

lemma schedule_credits:
  assumes "schedule_with_callback t delay cb' w = Some (i, w')"
  shows "credits cb w' = credits cb w + of_bool (cb' = cb)"
  using assms
  by (auto simp: schedule_with_callback_def next_timer_id_def timer_new_def bind_eq_Some_conv credits_def
      all_timers_add credit_def) (simp_all add: all_timers_def)

lemma fire_credits:
  assumes "fire t expired w = Some (log, w')"
  shows "count_list log cb + credits cb w' = credits cb w + (\<Sum>x\<leftarrow>expired. credit cb x)"
  using assms
proof (induction t expired w arbitrary: log rule: fire.induct)
  case (2 t timer expired w)
  then obtain w1 log1 where w1: "rearm t timer w = Some w1"
    and f: "fire (\<lambda>i. t (i + 2)) expired w1 = Some (log1, w')" and log: "log = callback timer # log1"
    by (auto simp: bind_eq_Some_conv)
  have c: "credits cb w1 + of_bool (callback timer = cb) = credits cb w + credit cb timer"
    using w1 schedule_credits [of t _ "callback timer" w _ w1 cb]
    by (auto simp: rearm_def credit_def split: if_splits option.splits)
  have "count_list log1 cb + credits cb w' = credits cb w1 + (\<Sum>x\<leftarrow>expired. credit cb x)"
    using 2(1) [OF w1 f] .
  then show ?case using c by (cases "callback timer = cb") (simp_all add: log)
qed simp

lemma poll_credits:
  assumes "poll now w = Some (ready, w')"
  shows "(\<Sum>x\<leftarrow>ready. credit cb x) + credits cb w' = credits cb w"
proof -
  have "map (credit cb) ready = map (credit cb) (due_timers now w)"
    using poll_shape(1) [OF assms] by (rule list_all2_same_map) (simp add: same_timer_def credit_def)
  then have "(\<Sum>x\<leftarrow>ready. credit cb x) = (\<Sum>t\<in>#mset (due_timers now w). credit cb t)"
    by (metis mset_map sum_mset_sum_list)
  then show ?thesis unfolding credits_def poll_mset [OF assms, symmetric] by simp
qed

lemma iteration_credits:
  assumes "iteration t rt = Some (log, rt')"
  shows "count_list log cb + credits cb (rt_wheel rt') = credits cb (rt_wheel rt)"
    and "rt_queue rt' = rt_queue rt"
proof -
  obtain expired w1 w2 where "poll (t 0) (rt_wheel rt) = Some (expired, w1)"
    "fire (\<lambda>i. t (i + 1)) expired w1 = Some (log, w2)" "rt' = rt\<lparr>rt_wheel := w2\<rparr>"
    using assms by (auto simp: iteration_def bind_eq_Some_conv)
  then show "count_list log cb + credits cb (rt_wheel rt') = credits cb (rt_wheel rt)" "rt_queue rt' = rt_queue rt"
    using poll_credits [of "t 0" "rt_wheel rt" expired w1 cb] fire_credits [of "\<lambda>i. t (i + 1)" expired w1 log w2 cb]
    by simp_all
qed

lemma run_loop_credits:
  assumes "run_loop n t rt = Some (log, rt')"
  shows "count_list log cb + credits cb (rt_wheel rt') = credits cb (rt_wheel rt)"
    and "rt_queue rt' = rt_queue rt"
proof -
  have "count_list log cb + credits cb (rt_wheel rt') = credits cb (rt_wheel rt) \<and> rt_queue rt' = rt_queue rt"
    using assms
  proof (induction n arbitrary: t rt log)
    case (Suc n)
    show ?case
    proof (cases "pending_task_count rt > 0")
      case True
      then obtain log1 rt1 log2 where "iteration (t 0) rt = Some (log1, rt1)"
        "run_loop n (\<lambda>k. t (Suc k)) rt1 = Some (log2, rt')" "log = log1 @ log2"
        using Suc.prems by (auto simp: bind_eq_Some_conv)
      then show ?thesis using Suc.IH [of "\<lambda>k. t (Suc k)" rt1 log2] iteration_credits [of "t 0" rt log1 rt1]
        by (metis (no_types, lifting) add.assoc count_list_append)
    qed (use Suc.prems in simp)
  qed simp
  then show "count_list log cb + credits cb (rt_wheel rt') = credits cb (rt_wheel rt)"
    "rt_queue rt' = rt_queue rt" by simp_all
qed

text \<open>
  An interval runs its callback at most twice: for every interval set on a fresh
  runtime, no run of the event loop, however long, calls the callback a third time, because the
  loop schedules a repeating timer again as a one-shot timer.
\<close>
theorem interval_fires_at_most_twice:
  assumes "set_interval t every cb (runtime_new p) = Some (i, rt)" and "run u rt = Some (log, rt')"
  shows "count_list log cb \<le> 2"
proof -
  have all_timers_new: "all_timers (wheel_new\<lparr>next_timer := k\<rparr>) = []" for k :: nat
    by (simp add: all_timers_def wheel_new_def)
  have "credits cb (rt_wheel rt) = 2"
    using assms(1)
    by (auto simp: set_interval_def schedule_interval_with_callback_def next_timer_id_def timer_interval_def
        bind_eq_Some_conv credits_def all_timers_add credit_def runtime_new_def all_timers_new)
  then show ?thesis using run_loop_credits(1) [OF assms(2) [unfolded run_def], of cb] by simp
qed

text \<open>The loop never takes a task from the queue: one scheduled task keeps it going until the
  iteration limit.\<close>

lemma run_never_pops_tasks: "run t rt = Some (log, rt') \<Longrightarrow> rt_queue rt' = rt_queue rt"
  by (simp add: run_def run_loop_credits(2))

end
