(* ===== verification/Semver.thy ===== *)
theory Semver
  imports Rust_Time "HOL-Library.Monad_Syntax" "HOL-Library.Char_ord" "HOL-Library.List_Lexorder"
    "HOL-Library.Product_Lexorder"
begin

text \<open>
  Versions and ranges of the package manager: \<open>crates/pm/src/semver.rs\<close>. Parsing works on strings
  as the code does (first hyphen, then dots, then plus signs); the numeric parts are \<open>u32\<close>, the
  numeric prerelease identifiers \<open>u64\<close>. The bound of a partial hyphen range adds one to a
  \<open>u32\<close>, which wraps around.
\<close>

section \<open>Versions\<close>

record semver =
  major :: nat
  minor :: nat
  patch :: nat
  prerelease :: string
  build :: string

definition release :: "nat \<Rightarrow> nat \<Rightarrow> nat \<Rightarrow> semver" where
  "release a b c = \<lparr>major = a, minor = b, patch = c, prerelease = [], build = []\<rparr>"

definition semver_parse :: "string \<Rightarrow> semver option" where
  "semver_parse s =
     (let version = trim s;
          (main, prerelease_build) = (case split_once CHR ''-'' version of
             Some (main, pb) \<Rightarrow> (main, Some pb) | None \<Rightarrow> (version, None));
          parts = split CHR ''.'' main
      in if length parts < 3 then None
         else do {
           a \<leftarrow> parse_u32 (parts ! 0);
           b \<leftarrow> parse_u32 (parts ! 1);
           c \<leftarrow> parse_u32 (hd (split CHR ''+'' (parts ! 2)));
           let (pre, bld) = (case prerelease_build of
             Some pb \<Rightarrow> (let ps = split CHR ''+'' pb in (hd ps, if 1 < length ps then ps ! 1 else []))
           | None \<Rightarrow> ([], []));
           Some \<lparr>major = a, minor = b, patch = c, prerelease = pre, build = bld\<rparr> })"

section \<open>Order\<close>

datatype ordering = Less | Equal | Greater

definition cmp_of :: "'a::linorder \<Rightarrow> 'a \<Rightarrow> ordering" where
  "cmp_of a b = (if a < b then Less else if a = b then Equal else Greater)"

definition cmp_identifier :: "string \<Rightarrow> string \<Rightarrow> ordering" where
  "cmp_identifier x y =
     (case (parse_u64 x, parse_u64 y) of
        (Some n, Some m) \<Rightarrow> cmp_of n m
      | (Some _, None) \<Rightarrow> Less
      | (None, Some _) \<Rightarrow> Greater
      | (None, None) \<Rightarrow> cmp_of x y)"

fun cmp_identifiers :: "string list \<Rightarrow> string list \<Rightarrow> ordering" where
  "cmp_identifiers [] [] = Equal"
| "cmp_identifiers [] (_ # _) = Less"
| "cmp_identifiers (_ # _) [] = Greater"
| "cmp_identifiers (x # xs) (y # ys) =
     (if cmp_identifier x y \<noteq> Equal then cmp_identifier x y else cmp_identifiers xs ys)"

definition cmp_prerelease :: "string \<Rightarrow> string \<Rightarrow> ordering" where
  "cmp_prerelease a b = cmp_identifiers (split CHR ''.'' a) (split CHR ''.'' b)"

definition semver_cmp :: "semver \<Rightarrow> semver \<Rightarrow> ordering" where
  "semver_cmp v w =
     (if cmp_of (major v) (major w) \<noteq> Equal then cmp_of (major v) (major w)
      else if cmp_of (minor v) (minor w) \<noteq> Equal then cmp_of (minor v) (minor w)
      else if cmp_of (patch v) (patch w) \<noteq> Equal then cmp_of (patch v) (patch w)
      else (case (prerelease v = [], prerelease w = []) of
              (True, False) \<Rightarrow> Greater
            | (False, True) \<Rightarrow> Less
            | (True, True) \<Rightarrow> Equal
            | (False, False) \<Rightarrow> cmp_prerelease (prerelease v) (prerelease w)))"

abbreviation semver_lt :: "semver \<Rightarrow> semver \<Rightarrow> bool" where "semver_lt v w \<equiv> semver_cmp v w = Less"
abbreviation semver_le :: "semver \<Rightarrow> semver \<Rightarrow> bool" where "semver_le v w \<equiv> semver_cmp v w \<noteq> Greater"

section \<open>Ranges\<close>

datatype semver_range =
    Exact semver
  | Caret semver
  | Tilde semver
  | Gt semver
  | Gte semver
  | Lt semver
  | Lte semver
  | And semver_range semver_range
  | Or semver_range semver_range
  | Any

fun names_prerelease_of :: "semver_range \<Rightarrow> semver \<Rightarrow> bool" where
  "names_prerelease_of (And a b) v = (names_prerelease_of a v \<or> names_prerelease_of b v)"
| "names_prerelease_of (Or a b) v = False"
| "names_prerelease_of Any v = False"
| "names_prerelease_of (Exact b) v = (prerelease b \<noteq> [] \<and> (major b, minor b, patch b) = (major v, minor v, patch v))"
| "names_prerelease_of (Caret b) v = (prerelease b \<noteq> [] \<and> (major b, minor b, patch b) = (major v, minor v, patch v))"
| "names_prerelease_of (Tilde b) v = (prerelease b \<noteq> [] \<and> (major b, minor b, patch b) = (major v, minor v, patch v))"
| "names_prerelease_of (Gt b) v = (prerelease b \<noteq> [] \<and> (major b, minor b, patch b) = (major v, minor v, patch v))"
| "names_prerelease_of (Gte b) v = (prerelease b \<noteq> [] \<and> (major b, minor b, patch b) = (major v, minor v, patch v))"
| "names_prerelease_of (Lt b) v = (prerelease b \<noteq> [] \<and> (major b, minor b, patch b) = (major v, minor v, patch v))"
| "names_prerelease_of (Lte b) v = (prerelease b \<noteq> [] \<and> (major b, minor b, patch b) = (major v, minor v, patch v))"

function (sequential) range_matches :: "semver_range \<Rightarrow> semver \<Rightarrow> bool"
  and matches_ignoring_prerelease_rule :: "semver_range \<Rightarrow> semver \<Rightarrow> bool" where
  "range_matches (Or a b) v = (range_matches a v \<or> range_matches b v)"
| "range_matches r v =
     (matches_ignoring_prerelease_rule r v \<and> (prerelease v = [] \<or> names_prerelease_of r v))"
| "matches_ignoring_prerelease_rule Any v = True"
| "matches_ignoring_prerelease_rule (Exact w) v = (v = w)"
| "matches_ignoring_prerelease_rule (Caret base) v =
     (if major base \<noteq> 0 then major v = major base \<and> semver_le base v
      else if minor base \<noteq> 0 then major v = 0 \<and> minor v = minor base \<and> semver_le base v
      else major v = 0 \<and> minor v = 0 \<and> patch v = patch base)"
| "matches_ignoring_prerelease_rule (Tilde base) v =
     (major v = major base \<and> minor v = minor base \<and> semver_le base v)"
| "matches_ignoring_prerelease_rule (Gt w) v = semver_lt w v"
| "matches_ignoring_prerelease_rule (Gte w) v = semver_le w v"
| "matches_ignoring_prerelease_rule (Lt w) v = semver_lt v w"
| "matches_ignoring_prerelease_rule (Lte w) v = semver_le v w"
| "matches_ignoring_prerelease_rule (And a b) v =
     (matches_ignoring_prerelease_rule a v \<and> matches_ignoring_prerelease_rule b v)"
| "matches_ignoring_prerelease_rule (Or a b) v = (range_matches a v \<or> range_matches b v)"
  by pat_completeness auto
termination
  by (relation "measures [\<lambda>x. case x of Inl (r, _) \<Rightarrow> size r | Inr (r, _) \<Rightarrow> size r,
      \<lambda>x. case x of Inl _ \<Rightarrow> 1 | Inr _ \<Rightarrow> 0]") auto

section \<open>Parsing ranges\<close>

definition is_dist_tag :: "string \<Rightarrow> bool" where
  "is_dist_tag s \<longleftrightarrow> s \<noteq> [] \<and> list_all (\<lambda>c. is_alpha c \<or> c = CHR ''-'') s"

definition parse_partial :: "string \<Rightarrow> semver option" where
  "parse_partial s0 =
     (let s = trim_end_matches ''.*'' (trim_end_matches ''.X'' (trim_end_matches ''.x'' s0));
          parts = split CHR ''.'' s;
          num = (\<lambda>i. if i < length parts then (case parse_u32 (parts ! i) of Some n \<Rightarrow> n | None \<Rightarrow> 0) else 0)
      in do {
        a \<leftarrow> parse_u32 (hd parts);
        Some (release a (num 1) (num 2)) })"

definition is_wild :: "string \<Rightarrow> bool" where
  "is_wild p \<longleftrightarrow> p = ''x'' \<or> p = ''X'' \<or> p = ''*''"

definition parse_x_range :: "string \<Rightarrow> semver_range option" where
  "parse_x_range s =
     (let parts = split CHR ''.'' s;
          wild_or_none = (\<lambda>i. length parts \<le> i \<or> is_wild (parts ! i))
      in if length parts \<ge> 1 \<and> wild_or_none 1 then do {
           a \<leftarrow> parse_u32 (parts ! 0);
           Some (Caret (release a 0 0)) }
         else if (length parts = 2 \<or> length parts = 3) \<and> wild_or_none 2 then do {
           a \<leftarrow> parse_u32 (parts ! 0);
           b \<leftarrow> parse_u32 (parts ! 1);
           Some (Tilde (release a b 0)) }
         else None)"

definition is_op :: "string \<Rightarrow> bool" where
  "is_op t \<longleftrightarrow> t \<in> set [''>='', ''<='', ''>'', ''<'', ''='', ''^'', ''~'']"

text \<open>The loop that glues bare operators onto the next token: \<open>op\<close> is what is held back.\<close>

fun glue_tokens :: "string \<Rightarrow> string list \<Rightarrow> string list" where
  "glue_tokens op [] = []"
| "glue_tokens op (t # ts) = (if is_op t then glue_tokens (op @ t) ts else (op @ t) # glue_tokens [] ts)"

definition glue_operators :: "string \<Rightarrow> string" where
  "glue_operators rng =
     (let tokens = split_whitespace rng
      in if list_ex is_op tokens then join '' '' (glue_tokens [] tokens) else rng)"

definition hyphen_range :: "string \<Rightarrow> string \<Rightarrow> semver_range option" where
  "hyphen_range lo hi0 = do {
     l \<leftarrow> (case semver_parse (trim lo) of Some v \<Rightarrow> Some v | None \<Rightarrow> parse_partial (trim lo));
     let hi = trim hi0;
     upper \<leftarrow> (case semver_parse hi of
       Some v \<Rightarrow> Some (Lte v)
     | None \<Rightarrow>
         let dots = count_list (trim_end_matches ''.*'' (trim_end_matches ''.x'' hi)) CHR ''.''
         in do {
           p \<leftarrow> parse_partial hi;
           Some (Lt (if dots = 0 then release (inc32 (major p)) 0 0
                     else release (major p) (inc32 (minor p)) 0)) });
     Some (And (Gte l) upper) }"

definition version_or_partial :: "string \<Rightarrow> semver option" where
  "version_or_partial rest = (case semver_parse rest of Some v \<Rightarrow> Some v | None \<Rightarrow> parse_partial rest)"

text \<open>The comparators: what is left once alternatives, hyphens and blanks are out of the way.\<close>

definition parse_comparator :: "string \<Rightarrow> semver_range option" where
  "parse_comparator rng =
     (case strip_prefix_str ''^'' rng of Some rest \<Rightarrow> map_option Caret (version_or_partial rest)
      | None \<Rightarrow> case strip_prefix_str ''~'' rng of Some rest \<Rightarrow> map_option Tilde (version_or_partial rest)
      | None \<Rightarrow> case strip_prefix_str ''>='' rng of Some rest \<Rightarrow> map_option Gte (semver_parse rest)
      | None \<Rightarrow> case strip_prefix_str ''>'' rng of Some rest \<Rightarrow> map_option Gt (semver_parse rest)
      | None \<Rightarrow> case strip_prefix_str ''<='' rng of Some rest \<Rightarrow> map_option Lte (semver_parse rest)
      | None \<Rightarrow> case strip_prefix_str ''<'' rng of Some rest \<Rightarrow> map_option Lt (semver_parse rest)
      | None \<Rightarrow> case strip_prefix_str ''='' rng of Some rest \<Rightarrow> map_option Exact (semver_parse rest)
      | None \<Rightarrow> case parse_x_range rng of Some r \<Rightarrow> Some r
      | None \<Rightarrow> map_option Exact (semver_parse rng))"

text \<open>\<open>or_chain\<close> gives up at the first alternative that does not parse; \<open>and_chain\<close> skips it.\<close>

fun chain :: "('a \<Rightarrow> 'a \<Rightarrow> 'a) \<Rightarrow> 'a list \<Rightarrow> 'a option" where
  "chain f [] = None"
| "chain f (r # rs) = Some (foldl f r rs)"

definition or_chain :: "semver_range option list \<Rightarrow> semver_range option" where
  "or_chain rs = do { xs \<leftarrow> those rs; chain Or xs }"

definition and_chain :: "semver_range option list \<Rightarrow> semver_range option" where
  "and_chain rs = chain And (List.map_filter (\<lambda>x. x) rs)"

text \<open>
  The parser calls itself on the alternatives of \<open>||\<close> and on the tokens of a compound range. It
  ends because an alternative has fewer non-blank characters, and a token has no blanks.
\<close>

definition ink :: "string \<Rightarrow> nat" where
  "ink s = length (filter (Not \<circ> is_ws) s)"

definition parse_size :: "string \<Rightarrow> nat" where
  "parse_size s = 2 * ink s + of_bool (\<exists>c\<in>set s. is_ws c)"

lemma ink_append [simp]: "ink (a @ b) = ink a + ink b"
  by (simp add: ink_def)

lemma ink_Nil [simp]: "ink [] = 0"
  by (simp add: ink_def)

lemma ink_dropWhile: "ink (dropWhile is_ws s) = ink s"
  by (induction s) (auto simp: ink_def)

lemma ink_rev: "ink (rev s) = ink s"
  by (simp add: ink_def flip: rev_filter)

lemma ink_trim: "ink (trim s) = ink s"
  by (simp add: trim_def trim_start_def trim_end_def ink_dropWhile ink_rev)

lemma set_trim: "set (trim s) \<subseteq> set s"
  unfolding trim_def trim_start_def trim_end_def
  by (metis (no_types, opaque_lifting) set_dropWhileD set_rev subsetI)

lemma concat_split_whitespace: "concat (split_whitespace s) = filter (Not \<circ> is_ws) s"
proof (induction s rule: split_whitespace.induct)
  case (1 s)
  have f: "filter (Not \<circ> is_ws) s = filter (Not \<circ> is_ws) (dropWhile is_ws s)" by (induction s) auto
  show ?case
  proof (cases "dropWhile is_ws s")
    case Nil
    have "split_whitespace s = []" by (subst split_whitespace.simps) (simp only: Nil list.case)
    then show ?thesis using f Nil by simp
  next
    case (Cons x xs)
    have x: "\<not> is_ws x" using Cons by (metis hd_dropWhile list.distinct(1) list.sel(1))
    have "filter (Not \<circ> is_ws) xs = takeWhile (Not \<circ> is_ws) xs @ filter (Not \<circ> is_ws) (dropWhile (Not \<circ> is_ws) xs)"
      by (metis filter_append filter_True set_takeWhileD takeWhile_dropWhile_id)
    then show ?thesis using f Cons x "1.IH" [OF Cons] by (simp add: split_whitespace.simps [of s] comp_def)
  qed
qed

lemma ink_token: "x \<in> set (split_whitespace s) \<Longrightarrow> parse_size x = 2 * ink x \<and> ink x \<le> ink s"
proof -
  assume x: "x \<in> set (split_whitespace s)"
  then have "list_all (Not \<circ> is_ws) x" using split_whitespace_token by blast
  then have n: "ink x = length x" "\<not> (\<exists>c\<in>set x. is_ws c)" by (auto simp: ink_def list_all_iff intro: filter_True)
  obtain ys zs where "split_whitespace s = ys @ x # zs" using split_list [OF x] by blast
  then have "length x \<le> length (concat (split_whitespace s))" by simp
  then show ?thesis using n by (simp add: parse_size_def concat_split_whitespace ink_def)
qed

lemma glue_tokens_ink: "(\<Sum>x\<leftarrow>glue_tokens op ts. ink x) \<le> ink op + (\<Sum>x\<leftarrow>ts. ink x)"
proof (induction op ts rule: glue_tokens.induct)
  case (2 op t ts)
  then show ?case by (cases "is_op t") simp_all
qed simp

lemma ink_join: "ink (join '' '' xs) = (\<Sum>x\<leftarrow>xs. ink x)"
  by (induction "'' ''" xs rule: join.induct) (simp_all add: ink_def is_ws_def)

lemma ink_concat: "(\<Sum>x\<leftarrow>xs. ink x) = ink (concat xs)"
  by (induction xs) simp_all

lemma ink_glue: "ink (glue_operators s) \<le> ink s"
proof -
  have "(\<Sum>x\<leftarrow>glue_tokens [] (split_whitespace s). ink x) \<le> (\<Sum>x\<leftarrow>split_whitespace s. ink x)"
    using glue_tokens_ink [of "[]"] by simp
  also have "\<dots> = ink s" unfolding ink_concat concat_split_whitespace by (simp add: ink_def comp_def)
  finally show ?thesis by (simp add: glue_operators_def Let_def ink_join)
qed

lemma glue_tokens_length: "length (glue_tokens op ts) \<le> length ts"
  by (induction op ts rule: glue_tokens.induct) auto

lemma space_is_ws [simp]: "is_ws CHR '' ''"
  by (simp add: is_ws_def)

lemma glue_space: "CHR '' '' \<in> set (glue_operators s) \<Longrightarrow> \<exists>c\<in>set s. is_ws c"
proof (rule ccontr)
  assume g: "CHR '' '' \<in> set (glue_operators s)" and n: "\<not> (\<exists>c\<in>set s. is_ws c)"
  then have no: "CHR '' '' \<notin> set s" using space_is_ws by blast
  show False
  proof (cases "s = []")
    case True
    then show ?thesis using g by (simp add: glue_operators_def split_whitespace.simps)
  next
    case False
    have "list_all (Not \<circ> is_ws) s" using n by (simp add: list_all_iff)
    then have "split_whitespace s = [s]" using False by (rule split_whitespace_id [rotated])
    then show ?thesis using g no by (auto simp: glue_operators_def Let_def split: if_splits)
  qed
qed

lemma join_split_str: "p \<noteq> [] \<Longrightarrow> join p (split_str p s) = s"
proof (induction p s rule: split_str.induct)
  case (1 p s)
  show ?case
  proof (cases "split_once_str p s")
    case None
    then show ?thesis using 1(2) by (simp add: split_str.simps [of p s])
  next
    case (Some ab)
    obtain a b where ab: "ab = (a, b)" by (cases ab)
    have ne: "split_str p b \<noteq> []" by (subst split_str.simps) (auto split: option.split)
    have e: "split_str p s = a # split_str p b" using 1(2) Some ab by (simp add: split_str.simps [of p s])
    have "join p (split_str p b) = b" using 1 Some ab by simp
    then show ?thesis using ne Some ab split_once_str_Some [of p s a b] unfolding e by (simp add: join_Cons)
  qed
qed

lemma split_str_ink:
  assumes "p \<noteq> []" and "contains s p" and "x \<in> set (split_str p s)"
  shows "ink x + ink p \<le> ink s"
proof -
  have "x \<in> set xs \<Longrightarrow> 2 \<le> length xs \<Longrightarrow> ink x + ink p \<le> ink (join p xs)" for xs
  proof (induction xs rule: join.induct [of _ p])
    case (3 sep y z zs)
    then show ?case
    proof (cases "x = y")
      case False
      then show ?thesis using 3 by (cases zs) auto
    qed simp
  qed simp_all
  moreover have "2 \<le> length (split_str p s)"
  proof -
    obtain a b where "split_once_str p s = Some (a, b)"
      using assms(1,2) split_once_str_None [of p s] by (cases "split_once_str p s") auto
    moreover have "split_str p b \<noteq> []" by (subst split_str.simps) (auto split: option.split)
    ultimately show ?thesis using assms(1)
      by (cases "split_str p b") (simp_all add: split_str.simps [of p s])
  qed
  ultimately show ?thesis using assms(3) join_split_str [OF assms(1)] by metis
qed

function parse_range :: "string \<Rightarrow> semver_range option" where
  "parse_range s =
     (let rng = trim s
      in if contains rng ''||'' then or_chain (map parse_range (split_str ''||'' rng))
         else (case split_once_str '' - '' rng of
           Some (lo, hi) \<Rightarrow> hyphen_range lo hi
         | None \<Rightarrow>
             if rng = ''*'' \<or> rng = [] then Some Any
             else if is_dist_tag rng then Some Any
             else
               let glued = glue_operators rng
               in if CHR '' '' \<in> set glued then and_chain (map parse_range (split_whitespace glued))
                  else parse_comparator glued))"
  by pat_completeness auto
termination
proof (relation "measure parse_size", goal_cases)
  case 1
  show ?case by simp
next
  case (2 s rng x)
  have "ink x + ink ''||'' \<le> ink rng" using 2 by (intro split_str_ink) simp_all
  moreover have "ink ''||'' = 2" by code_simp
  ultimately show ?case using 2 by (simp add: parse_size_def ink_trim)
next
  case (3 s rng glued x)
  have "\<exists>c\<in>set s. is_ws c" using 3 glue_space [of rng] set_trim [of s] by auto
  moreover have "ink x \<le> ink glued" "parse_size x = 2 * ink x" using 3 ink_token by blast+
  moreover have "ink glued \<le> ink s" using 3 ink_glue [of rng] by (simp add: ink_trim)
  ultimately show ?case by (simp add: parse_size_def)
qed

declare parse_range.simps [simp del]

definition semver_satisfies :: "semver \<Rightarrow> semver_range \<Rightarrow> bool" where
  "semver_satisfies v r = range_matches r v"

end
