(* ===== verification/Semver_Order.thy ===== *)
theory Semver_Order
  imports Semver
begin

text \<open>
  What the package manager relies on of versions and ranges: \<open>Semver::cmp\<close> is the precedence of
  SemVer 2.0 (a total preorder, so that \<open>max_by\<close> picks a greatest version), a range never picks a
  prerelease it does not name, and caret and tilde ranges are the intervals they stand for.
\<close>

section \<open>Comparison functions\<close>

fun swap_ordering :: "ordering \<Rightarrow> ordering" where
  "swap_ordering Less = Greater"
| "swap_ordering Equal = Equal"
| "swap_ordering Greater = Less"

text \<open>The contract of \<open>Ord::cmp\<close>.\<close>

locale comparison =
  fixes cmp :: "'a \<Rightarrow> 'a \<Rightarrow> ordering"
  assumes cmp_swap: "cmp b a = swap_ordering (cmp a b)"
    and cmp_trans: "cmp a b \<noteq> Greater \<Longrightarrow> cmp b c \<noteq> Greater \<Longrightarrow> cmp a c \<noteq> Greater"
begin

lemma cmp_refl: "cmp a a = Equal"
  using cmp_swap [of a a] by (cases "cmp a a") simp_all

lemma cmp_linear: "cmp a b \<noteq> Greater \<or> cmp b a \<noteq> Greater"
  using cmp_swap [of b a] by (cases "cmp a b") simp_all

end

text \<open>\<open>Iterator::max_by\<close>: of several greatest elements the last one.\<close>

fun max_by :: "('a \<Rightarrow> 'a \<Rightarrow> ordering) \<Rightarrow> 'a list \<Rightarrow> 'a option" where
  "max_by cmp [] = None"
| "max_by cmp (x # xs) = Some (foldl (\<lambda>a b. if cmp a b = Greater then a else b) x xs)"

definition option_cmp :: "('a \<Rightarrow> 'a \<Rightarrow> ordering) \<Rightarrow> 'a option \<Rightarrow> 'a option \<Rightarrow> ordering" where
  "option_cmp cmp a b =
     (case (a, b) of
        (None, None) \<Rightarrow> Equal
      | (None, Some _) \<Rightarrow> Less
      | (Some _, None) \<Rightarrow> Greater
      | (Some x, Some y) \<Rightarrow> cmp x y)"

context comparison
begin

lemma foldl_max:
  "m = foldl (\<lambda>a b. if cmp a b = Greater then a else b) x xs \<Longrightarrow>
     m \<in> set (x # xs) \<and> (\<forall>y\<in>set (x # xs). cmp y m \<noteq> Greater)"
proof (induction xs arbitrary: x)
  case (Cons z zs)
  define x' where "x' = (if cmp x z = Greater then x else z)"
  have ih: "m \<in> set (x' # zs)" "\<forall>y\<in>set (x' # zs). cmp y m \<noteq> Greater"
    using Cons.IH [of x'] Cons.prems by (simp_all add: x'_def)
  have "cmp x x' \<noteq> Greater" "cmp z x' \<noteq> Greater"
    using cmp_refl cmp_swap [of z x] by (auto simp: x'_def)
  then have "cmp x m \<noteq> Greater" "cmp z m \<noteq> Greater" using ih(2) cmp_trans by auto
  then show ?case using ih by (auto simp: x'_def split: if_splits)
qed (simp add: cmp_refl)

lemma max_by_greatest:
  "max_by cmp xs = Some m \<Longrightarrow> m \<in> set xs \<and> (\<forall>y\<in>set xs. cmp y m \<noteq> Greater)"
  using foldl_max by (cases xs) auto

lemma max_by_None: "max_by cmp xs = None \<longleftrightarrow> xs = []"
  by (cases xs) simp_all

lemma option_comparison: "comparison (option_cmp cmp)"
proof
  show "option_cmp cmp b a = swap_ordering (option_cmp cmp a b)" for a b
    by (cases a; cases b) (simp_all add: option_cmp_def cmp_swap [symmetric])
  show "option_cmp cmp a c \<noteq> Greater"
    if "option_cmp cmp a b \<noteq> Greater" "option_cmp cmp b c \<noteq> Greater" for a b c
    using that cmp_trans by (auto simp: option_cmp_def split: option.splits)
qed

lemma comparison_on: "comparison (\<lambda>a b. cmp (f a) (f b))"
  by unfold_locales (rule cmp_swap, rule cmp_trans)

end

section \<open>SemVer precedence\<close>

text \<open>An identifier of a prerelease, ordered as the specification says: numbers by value and below
  every other identifier, the others by their characters.\<close>

datatype pre_ident = Numeric nat | Alphanumeric string

instantiation pre_ident :: linorder
begin

definition less_eq_pre_ident :: "pre_ident \<Rightarrow> pre_ident \<Rightarrow> bool" where
  "less_eq_pre_ident a b =
     (case (a, b) of
        (Numeric m, Numeric n) \<Rightarrow> m \<le> n
      | (Numeric _, Alphanumeric _) \<Rightarrow> True
      | (Alphanumeric _, Numeric _) \<Rightarrow> False
      | (Alphanumeric s, Alphanumeric t) \<Rightarrow> s \<le> t)"

definition less_pre_ident :: "pre_ident \<Rightarrow> pre_ident \<Rightarrow> bool" where
  "less_pre_ident a b = (a \<le> b \<and> \<not> b \<le> (a :: pre_ident))"

instance
  by standard (auto simp: less_eq_pre_ident_def less_pre_ident_def split: pre_ident.splits)

end

definition identifier_of :: "string \<Rightarrow> pre_ident" where
  "identifier_of s = (case parse_u64 s of Some n \<Rightarrow> Numeric n | None \<Rightarrow> Alphanumeric s)"

definition precedence :: "semver \<Rightarrow> nat \<times> nat \<times> nat \<times> bool \<times> pre_ident list" where
  "precedence v = (major v, minor v, patch v, prerelease v = [], map identifier_of (split CHR ''.'' (prerelease v)))"

lemma cmp_of_simps [simp]:
  "cmp_of a b = Less \<longleftrightarrow> a < b" "cmp_of a b = Equal \<longleftrightarrow> a = b" "cmp_of a b = Greater \<longleftrightarrow> b < a"
  by (auto simp: cmp_of_def)

lemma cmp_of_identifier: "cmp_identifier x y = cmp_of (identifier_of x) (identifier_of y)"
  by (auto simp: cmp_identifier_def cmp_of_def identifier_of_def less_eq_pre_ident_def less_pre_ident_def
      split: option.split)

lemma cmp_of_Cons: "cmp_of (x # xs) (y # ys) = (if cmp_of x y \<noteq> Equal then cmp_of x y else cmp_of xs ys)"
  for x y :: "'a::linorder"
  by (auto simp: cmp_of_def)

lemma cmp_identifiers_spec: "cmp_identifiers xs ys = cmp_of (map identifier_of xs) (map identifier_of ys)"
  by (induction xs ys rule: cmp_identifiers.induct)
    (simp_all add: cmp_of_Cons cmp_of_identifier, simp_all add: cmp_of_def)

lemma cmp_of_Pair: "cmp_of (a, b) (c, d) = (if cmp_of a c \<noteq> Equal then cmp_of a c else cmp_of b d)"
  for a c :: "'a::linorder" and b d :: "'b::linorder"
  by (auto simp: cmp_of_def less_prod_simp)

lemma semver_cmp_precedence: "semver_cmp v w = cmp_of (precedence v) (precedence w)"
  unfolding semver_cmp_def precedence_def cmp_of_Pair cmp_prerelease_def cmp_identifiers_spec
  by (cases "prerelease v = []"; cases "prerelease w = []")
    (simp_all, simp_all add: cmp_of_def)

interpretation semver: comparison semver_cmp
proof
  show "semver_cmp b a = swap_ordering (semver_cmp a b)" for a b
    unfolding semver_cmp_precedence by (auto simp: cmp_of_def)
  show "semver_cmp a c \<noteq> Greater" if "semver_cmp a b \<noteq> Greater" "semver_cmp b c \<noteq> Greater" for a b c
    using that unfolding semver_cmp_precedence by (simp add: not_less)
qed

interpretation optional_semver: comparison "option_cmp semver_cmp"
  by (rule semver.option_comparison)

text \<open>
  \<open>Semver::cmp\<close>, written as a cascade of early returns over strings, is the
  precedence of SemVer 2.0: the lexicographic order of major, minor and patch, then a release
  above its prereleases, then the prerelease identifiers from left to right, numeric ones by
  value and below the others, a shorter list below a longer one; build metadata does not count.
\<close>
theorem semver_cmp_is_precedence:
  "semver_cmp v w = cmp_of (precedence v) (precedence w)"
  by (rule semver_cmp_precedence)

section \<open>Prereleases\<close>

fun comparators :: "semver_range \<Rightarrow> semver set" where
  "comparators (And a b) = comparators a \<union> comparators b"
| "comparators (Or a b) = comparators a \<union> comparators b"
| "comparators Any = {}"
| "comparators (Exact v) = {v}"
| "comparators (Caret v) = {v}"
| "comparators (Tilde v) = {v}"
| "comparators (Gt v) = {v}"
| "comparators (Gte v) = {v}"
| "comparators (Lt v) = {v}"
| "comparators (Lte v) = {v}"

definition same_core :: "semver \<Rightarrow> semver \<Rightarrow> bool" where
  "same_core v w \<longleftrightarrow> major v = major w \<and> minor v = minor w \<and> patch v = patch w"

lemma names_prerelease_comparator:
  "names_prerelease_of r v \<Longrightarrow> \<exists>b\<in>comparators r. prerelease b \<noteq> [] \<and> same_core b v"
  by (induction r) (auto simp: same_core_def)

lemma range_matches_not_Or:
  assumes "range_matches r v" and "\<forall>a b. r \<noteq> Or a b"
  shows "matches_ignoring_prerelease_rule r v \<and> (prerelease v = [] \<or> names_prerelease_of r v)"
  using assms by (cases r) auto

lemma named_unless_Or:
  assumes "range_matches r v" and "prerelease v \<noteq> []" and "\<forall>a b. r \<noteq> Or a b"
  shows "\<exists>b\<in>comparators r. prerelease b \<noteq> [] \<and> same_core b v"
  using range_matches_not_Or [OF assms(1,3)] assms(2) names_prerelease_comparator by blast

text \<open>
  No range picks a prerelease by accident: a version with a prerelease part
  matches only when the range itself contains a comparator with a prerelease of the same major,
  minor and patch; in particular \<open>*\<close>, a dist-tag and every range without prerelease parts never do.
\<close>
theorem prerelease_only_when_named:
  assumes "range_matches r v" and "prerelease v \<noteq> []"
  shows "\<exists>b\<in>comparators r. prerelease b \<noteq> [] \<and> same_core b v"
  using assms
proof (induction r)
  case (Or a b)
  then show ?case by auto
qed (rule named_unless_Or, assumption, assumption, simp)+

definition beta :: "string \<Rightarrow> semver" where
  "beta pre = \<lparr>major = 1, minor = 2, patch = 3, prerelease = pre, build = []\<rparr>"

section \<open>Caret and tilde\<close>

definition show_version :: "nat \<Rightarrow> nat \<Rightarrow> nat \<Rightarrow> string" where
  "show_version a b c = show_nat a @ ''.'' @ show_nat b @ ''.'' @ show_nat c"

definition plain_char :: "char \<Rightarrow> bool" where
  "plain_char c \<longleftrightarrow> is_digit c \<or> c = CHR ''.''"

lemma show_version_plain: "list_all plain_char (show_version a b c)"
  using show_nat_digits by (auto simp: show_version_def plain_char_def list_all_iff)

lemma plain_char_not:
  "plain_char c \<Longrightarrow> \<not> is_ws c \<and> c \<noteq> CHR ''|'' \<and> c \<noteq> CHR ''-'' \<and> c \<noteq> CHR '' ''"
  by (auto simp: plain_char_def is_digit_def is_ws_def)

lemma show_nat_no: "CHR ''.'' \<notin> set (show_nat n)" "CHR ''+'' \<notin> set (show_nat n)"
  using show_nat_digits [of n] by (auto simp: list_all_iff is_digit_def)

lemma semver_parse_show:
  assumes "a \<le> u32_max" "b \<le> u32_max" "c \<le> u32_max"
  shows "semver_parse (show_version a b c) = Some (release a b c)"
proof -
  let ?s = "show_version a b c"
  have "list_all (Not \<circ> is_ws) ?s" using show_version_plain plain_char_not by (auto simp: list_all_iff)
  then have t: "trim ?s = ?s" by simp
  have "CHR ''-'' \<notin> set ?s" using show_version_plain [of a b c] plain_char_not by (auto simp: list_all_iff)
  then have so: "split_once CHR ''-'' ?s = None" by (simp add: split_once_None)
  have sp: "split CHR ''.'' ?s = [show_nat a, show_nat b, show_nat c]"
    using show_nat_no(1) by (simp add: show_version_def split_append_sep split_no_sep)
  have pl: "split CHR ''+'' (show_nat c) = [show_nat c]" using show_nat_no(2) by (rule split_no_sep)
  show ?thesis using assms unfolding semver_parse_def Let_def t so
    by (simp add: sp pl parse_uint_show_nat release_def)
qed

lemma contains_set: "contains s p \<Longrightarrow> set p \<subseteq> set s"
  by (auto simp: contains_iff)

lemma is_op_length: "is_op t \<Longrightarrow> length t \<le> 2"
  by (auto simp: is_op_def)

text \<open>A range with no blank, no \<open>||\<close> and no bare word goes straight to the comparators.\<close>

lemma parse_range_atom:
  assumes "\<forall>c\<in>set s. \<not> is_ws c \<and> c \<noteq> CHR ''|''" and "s \<noteq> []" and "s \<noteq> ''*''" and "\<not> is_dist_tag s" and "\<not> is_op s"
  shows "parse_range s = parse_comparator s"
proof -
  have l: "list_all (Not \<circ> is_ws) s" using assms(1) by (simp add: list_all_iff)
  then have t: "trim s = s" by simp
  have c: "\<not> contains s ''||''" using assms(1) contains_set [of s "''||''"] by auto
  have sp: "CHR '' '' \<notin> set s" using assms(1) space_is_ws by blast
  then have "split_once_str '' - '' s = None"
    using contains_set [of s "'' - ''"] by (auto simp: split_once_str_None)
  moreover have "split_whitespace s = [s]" using assms(2) l by (rule split_whitespace_id)
  then have "glue_operators s = s" using assms(5) by (simp add: glue_operators_def)
  ultimately show ?thesis
    using c sp assms(2-4) by (simp add: parse_range.simps [of s] t)
qed

lemma parse_range_prefixed:
  assumes "op = CHR ''^'' \<or> op = CHR ''~''"
  shows "parse_range (op # show_version a b c) = parse_comparator (op # show_version a b c)"
proof (rule parse_range_atom)
  have ne: "length (show_version a b c) \<ge> 2" by (simp add: show_version_def)
  show "\<forall>x\<in>set (op # show_version a b c). \<not> is_ws x \<and> x \<noteq> CHR ''|''"
  proof -
    have "\<forall>x\<in>set (show_version a b c). \<not> is_ws x \<and> x \<noteq> CHR ''|''"
      using show_version_plain [of a b c] plain_char_not by (simp add: list_all_iff)
    moreover have "\<not> is_ws op \<and> op \<noteq> CHR ''|''" using assms by (elim disjE) (simp_all add: is_ws_def)
    ultimately show ?thesis by simp
  qed
  show "\<not> is_dist_tag (op # show_version a b c)"
    using assms by (elim disjE) (simp_all add: is_dist_tag_def is_alpha_def)
  show "\<not> is_op (op # show_version a b c)" using ne is_op_length [of "op # show_version a b c"] by auto
  show "op # show_version a b c \<noteq> ''*''" using ne by auto
qed simp

lemma parse_caret_tilde:
  assumes "a \<le> u32_max" "b \<le> u32_max" "c \<le> u32_max"
  shows "parse_range (''^'' @ show_version a b c) = Some (Caret (release a b c))"
    and "parse_range (''~'' @ show_version a b c) = Some (Tilde (release a b c))"
  using semver_parse_show [OF assms] parse_range_prefixed
  by (simp_all add: parse_comparator_def strip_prefix_str_def version_or_partial_def)

lemma release_order:
  assumes "prerelease v = []"
  shows "semver_le (release a b c) v \<longleftrightarrow> (a, b, c) \<le> (major v, minor v, patch v)"
    and "semver_lt v (release a b c) \<longleftrightarrow> (major v, minor v, patch v) < (a, b, c)"
  using assms by (auto simp: semver_cmp_precedence precedence_def release_def not_less)

lemma release_fields [simp]:
  "major (release a b c) = a" "minor (release a b c) = b" "patch (release a b c) = c" "prerelease (release a b c) = []"
  by (simp_all add: release_def)

definition caret_bound :: "nat \<Rightarrow> nat \<Rightarrow> nat \<Rightarrow> semver" where
  "caret_bound a b c =
     (if a \<noteq> 0 then release (a + 1) 0 0 else if b \<noteq> 0 then release 0 (b + 1) 0 else release 0 0 (c + 1))"

text \<open>
  The strings \<open>^a.b.c\<close> and \<open>~a.b.c\<close> parse, and among releases they select
  the half-open interval from \<open>a.b.c\<close> to the next breaking version (the next major; below 1.0.0
  the next minor; below 0.1.0 the next patch), and to the next minor version.
\<close>
theorem caret_and_tilde_intervals:
  assumes "a \<le> u32_max" "b \<le> u32_max" "c \<le> u32_max" and "prerelease v = []"
  shows "(\<exists>r. parse_range (''^'' @ show_version a b c) = Some r \<and>
      (range_matches r v \<longleftrightarrow> semver_le (release a b c) v \<and> semver_lt v (caret_bound a b c))) \<and>
    (\<exists>r. parse_range (''~'' @ show_version a b c) = Some r \<and>
      (range_matches r v \<longleftrightarrow> semver_le (release a b c) v \<and> semver_lt v (release a (b + 1) 0)))"
proof
  have "range_matches (Caret (release a b c)) v \<longleftrightarrow> semver_le (release a b c) v \<and> semver_lt v (caret_bound a b c)"
    using assms(4) unfolding caret_bound_def
    by (cases "a = 0"; cases "b = 0"; simp add: release_order; auto)
  then show "\<exists>r. parse_range (''^'' @ show_version a b c) = Some r \<and>
      (range_matches r v \<longleftrightarrow> semver_le (release a b c) v \<and> semver_lt v (caret_bound a b c))"
    using parse_caret_tilde(1) [OF assms(1-3)] by blast
  have "range_matches (Tilde (release a b c)) v \<longleftrightarrow> semver_le (release a b c) v \<and> semver_lt v (release a (b + 1) 0)"
    using assms(4) by (simp add: release_order; auto)
  then show "\<exists>r. parse_range (''~'' @ show_version a b c) = Some r \<and>
      (range_matches r v \<longleftrightarrow> semver_le (release a b c) v \<and> semver_lt v (release a (b + 1) 0))"
    using parse_caret_tilde(2) [OF assms(1-3)] by blast
qed

section \<open>Where ranges differ from npm\<close>

text \<open>
  \<open>0.x\<close> becomes \<open>Caret(0.0.0)\<close>, whose last branch pins the patch as well: it selects \<open>0.0.0\<close>
  only. A comparator with a partial version does not parse, and a compound range drops the
  components that do not parse: \<open>>=1 <2.0.0\<close> has no lower bound. The branch of \<open>Caret\<close> for
  \<open>0.0.z\<close> does not compare prereleases. A hyphen in build metadata starts a prerelease.
\<close>

lemma zero_x_selects_only_zero:
  "parse_range ''0.x'' = Some (Caret (release 0 0 0))"
  "\<not> range_matches (Caret (release 0 0 0)) (release 0 1 0)"
  by code_simp+

lemma partial_comparator_dropped:
  "parse_range ''>=1 <2.0.0'' = Some (Lt (release 2 0 0))" "range_matches (Lt (release 2 0 0)) (release 0 1 0)"
  by code_simp+

lemma caret_zero_accepts_older_prerelease:
  "map_option (\<lambda>r. map_option (range_matches r) (semver_parse ''0.0.3-beta.1'')) (parse_range ''^0.0.3-beta.2'') =
     Some (Some True)"
  by code_simp

lemma build_hyphen_read_as_prerelease:
  "semver_parse ''1.0.0+a-b'' = Some \<lparr>major = 1, minor = 0, patch = 0, prerelease = ''b'', build = []\<rparr>"
  by code_simp

end
