(* ===== verification/Json.thy ===== *)
theory Json
  imports Rust_Std
begin

text \<open>
  JSON documents as the sources read them through \<open>serde_json::Value\<close>: an object is the list of its
  entries, in the order in which the map iterates. Indexing a missing key, or a value that is not
  an object, gives \<open>Null\<close>.
\<close>

datatype json =
    Null
  | Bool bool
  | Number int
  | String string
  | Array "json list"
  | Object "(string \<times> json) list"

fun json_get :: "json \<Rightarrow> string \<Rightarrow> json option" where
  "json_get (Object fields) key = map_of fields key"
| "json_get _ key = None"

definition json_index :: "json \<Rightarrow> string \<Rightarrow> json" where
  "json_index v key = (case json_get v key of Some x \<Rightarrow> x | None \<Rightarrow> Null)"

fun as_str :: "json \<Rightarrow> string option" where
  "as_str (String s) = Some s"
| "as_str _ = None"

fun as_bool :: "json \<Rightarrow> bool option" where
  "as_bool (Bool b) = Some b"
| "as_bool _ = None"

text \<open>\<open>as_u64\<close>; a number here is an integer.\<close>

fun as_u64 :: "json \<Rightarrow> nat option" where
  "as_u64 (Number n) = (if 0 \<le> n \<and> nat n \<le> u64_max then Some (nat n) else None)"
| "as_u64 _ = None"

fun as_array :: "json \<Rightarrow> json list option" where
  "as_array (Array xs) = Some xs"
| "as_array _ = None"

fun as_object :: "json \<Rightarrow> (string \<times> json) list option" where
  "as_object (Object fields) = Some fields"
| "as_object _ = None"

text \<open>The entries of an object whose values are strings (\<open>if let Some(dv) = v.as_str()\<close>).\<close>

definition string_entries :: "json \<Rightarrow> (string \<times> string) list" where
  "string_entries v =
     (case as_object v of
        Some fields \<Rightarrow> List.map_filter (\<lambda>(k, x). map_option (Pair k) (as_str x)) fields
      | None \<Rightarrow> [])"

lemma string_entries_subset: "fst ` set (string_entries v) \<subseteq> fst ` set (case as_object v of Some f \<Rightarrow> f | None \<Rightarrow> [])"
  by (auto simp: string_entries_def List.map_filter_def image_iff split: option.splits) force

end
