(* ===== verification/Resolver.thy ===== *)
theory Resolver
  imports Semver_Order Json "HOL-Library.While_Combinator"
begin

text \<open>
  Dependency resolution: \<open>crates/pm/src/resolver.rs\<close>. A hash map of dependencies is the list of
  its entries (the code sorts them by name before it uses them). The registry is outside: \<open>net\<close>
  answers a URL with nothing (the request failed), or with whether the status is a success and
  the body, if it is JSON; the fetches of one batch do not depend on each other, so they are made
  one after the other here. Warnings are not modelled.
\<close>

section \<open>Nodes and graphs\<close>

record dependency_node =
  node_name :: string
  node_version :: string
  resolved_url :: "string option"
  integrity :: "string option"
  dependencies :: "(string \<times> string) list"
  dev_dependencies :: "(string \<times> string) list"
  peer_dependencies :: "(string \<times> string) list"

definition node_new :: "string \<Rightarrow> string \<Rightarrow> dependency_node" where
  "node_new name version =
     \<lparr>node_name = name, node_version = version, resolved_url = None, integrity = None,
      dependencies = [], dev_dependencies = [], peer_dependencies = []\<rparr>"

record dependency_graph =
  nodes :: "(string \<times> dependency_node) list"
  resolved_versions :: "string \<rightharpoonup> string"

definition graph_new :: dependency_graph where
  "graph_new = \<lparr>nodes = [], resolved_versions = Map.empty\<rparr>"

definition add_node :: "dependency_node \<Rightarrow> dependency_graph \<Rightarrow> dependency_graph" where
  "add_node node g =
     (let key = node_name node @ ''@'' @ node_version node
      in g\<lparr>nodes := filter (\<lambda>(k, _). k \<noteq> key) (nodes g) @ [(key, node)]\<rparr>)"

definition get_node :: "string \<Rightarrow> string \<Rightarrow> dependency_graph \<Rightarrow> dependency_node option" where
  "get_node name version g = map_of (nodes g) (name @ ''@'' @ version)"

definition version_cmp :: "dependency_node \<Rightarrow> dependency_node \<Rightarrow> ordering" where
  "version_cmp a b = option_cmp semver_cmp (semver_parse (node_version a)) (semver_parse (node_version b))"

definition resolve_version ::
  "string \<Rightarrow> string \<Rightarrow> dependency_graph \<Rightarrow> string option \<times> dependency_graph" where
  "resolve_version name rng g =
     (case resolved_versions g name of
        Some v \<Rightarrow> (Some v, g)
      | None \<Rightarrow>
          let candidates = filter (\<lambda>n. node_name n = name \<and>
                (case (semver_parse (node_version n), parse_range rng) of
                   (Some v, Some r) \<Rightarrow> range_matches r v | _ \<Rightarrow> False)) (map snd (nodes g))
          in case max_by version_cmp candidates of
               Some best \<Rightarrow>
                 (Some (node_version best),
                  g\<lparr>resolved_versions := (resolved_versions g)(name \<mapsto> node_version best)\<rparr>)
             | None \<Rightarrow> (None, g))"

definition find_best_match :: "dependency_node list \<Rightarrow> string \<Rightarrow> dependency_node option" where
  "find_best_match ns version = do {
     r \<leftarrow> parse_range version;
     let candidates = filter (\<lambda>n. case semver_parse (node_version n) of
           Some v \<Rightarrow> range_matches r v | None \<Rightarrow> False) ns;
     max_by version_cmp candidates }"

section \<open>Fetching\<close>

type_synonym registry = "string \<Rightarrow> (bool \<times> json option) option"

definition node_of_metadata :: "string \<Rightarrow> string \<times> json \<Rightarrow> dependency_node" where
  "node_of_metadata n = (\<lambda>(ver, meta).
     (node_new n ver)\<lparr>
       resolved_url := as_str (json_index (json_index meta ''dist'') ''tarball''),
       integrity := as_str (json_index (json_index meta ''dist'') ''integrity''),
       dependencies := string_entries (json_index meta ''dependencies''),
       dev_dependencies := string_entries (json_index meta ''devDependencies''),
       peer_dependencies := string_entries (json_index meta ''peerDependencies'')\<rparr>)"

definition fetch_package :: "registry \<Rightarrow> string \<Rightarrow> string \<Rightarrow> (string \<times> dependency_node list) option" where
  "fetch_package net registry_url n =
     (case net (registry_url @ ''/'' @ n) of
        None \<Rightarrow> None
      | Some (success, body) \<Rightarrow>
          if \<not> success then Some (n, [])
          else (case body of
                  None \<Rightarrow> None
                | Some data \<Rightarrow>
                    Some (n, (case as_object (json_index data ''versions'') of
                       Some versions \<Rightarrow> map (node_of_metadata n) versions
                     | None \<Rightarrow> []))))"

type_synonym cache = "string \<rightharpoonup> dependency_node list"

definition cache_extend :: "cache \<Rightarrow> (string \<times> dependency_node list) option \<Rightarrow> cache" where
  "cache_extend cache r =
     (case r of
        Some (name, ns) \<Rightarrow> cache(name \<mapsto> (case cache name of Some old \<Rightarrow> old | None \<Rightarrow> []) @ ns)
      | None \<Rightarrow> cache)"

section \<open>The resolution loop\<close>

text \<open>The top of the stack is the head of the list.\<close>

record resolution =
  stack :: "(string \<times> string) list"
  graph :: dependency_graph
  node_cache :: cache
  fetched :: "string set"

definition resolve_step :: "registry \<Rightarrow> string \<Rightarrow> resolution \<Rightarrow> resolution" where
  "resolve_step net registry_url s =
     (case stack s of
        [] \<Rightarrow> s
      | (name, version) # rest \<Rightarrow>
          if resolved_versions (graph s) name \<noteq> None then s\<lparr>stack := rest\<rparr>
          else (case (case node_cache s name of
                        Some cached \<Rightarrow> find_best_match cached version | None \<Rightarrow> None) of
            Some best \<Rightarrow>
              let g1 = add_node best (graph s);
                  g2 = g1\<lparr>resolved_versions := (resolved_versions g1)(name \<mapsto> node_version best)\<rparr>
              in s\<lparr>graph := g2, stack := sort_key fst (dependencies best) @ rest\<rparr>
          | None \<Rightarrow>
              if name \<in> fetched s \<or> node_cache s name \<noteq> None then s\<lparr>stack := rest\<rparr>
              else
                let uncached = (\<lambda>item. \<not> (resolved_versions (graph s) (fst item) \<noteq> None \<or>
                      node_cache s (fst item) \<noteq> None \<or> fst item \<in> fetched s));
                    batch = (name, version) # takeWhile uncached rest;
                    cache' = foldl (\<lambda>c item. cache_extend c (fetch_package net registry_url (fst item)))
                      (node_cache s) batch
                in s\<lparr>node_cache := cache', fetched := fetched s \<union> fst ` set batch,
                     stack := batch @ dropWhile uncached rest\<rparr>))"

definition resolve ::
  "registry \<Rightarrow> string \<Rightarrow> cache \<Rightarrow> (string \<times> string) list \<Rightarrow> (dependency_graph \<times> cache) option" where
  "resolve net registry_url cache deps =
     map_option (\<lambda>s. (graph s, node_cache s))
       (while_option (\<lambda>s. stack s \<noteq> []) (resolve_step net registry_url)
         \<lparr>stack = sort_key fst deps, graph = graph_new, node_cache = cache, fetched = {}\<rparr>)"

section \<open>The best match\<close>

interpretation node_versions: comparison version_cmp
  unfolding version_cmp_def by (rule optional_semver.comparison_on)

text \<open>
  Claim C37 (functional). \<open>find_best_match\<close> returns a node of the list whose version parses and
  satisfies the range, and no node of the list that satisfies the range has a higher precedence;
  it returns nothing only when the range does not parse or no node satisfies it. Versions that do
  not parse are skipped.
\<close>
theorem best_match_is_greatest:
  "case find_best_match ns version of
     Some best \<Rightarrow>
       (\<exists>r v. parse_range version = Some r \<and> best \<in> set ns \<and> semver_parse (node_version best) = Some v \<and>
          range_matches r v \<and>
          (\<forall>n\<in>set ns. \<forall>w. semver_parse (node_version n) = Some w \<longrightarrow> range_matches r w \<longrightarrow> semver_le w v))
   | None \<Rightarrow>
       (\<forall>r. parse_range version = Some r \<longrightarrow>
          (\<forall>n\<in>set ns. \<forall>w. semver_parse (node_version n) = Some w \<longrightarrow> \<not> range_matches r w))"
proof (cases "parse_range version")
  case None
  then show ?thesis by (simp add: find_best_match_def)
next
  case (Some r)
  let ?ok = "\<lambda>n. case semver_parse (node_version n) of Some v \<Rightarrow> range_matches r v | None \<Rightarrow> False"
  have f: "find_best_match ns version = max_by version_cmp (filter ?ok ns)"
    using Some by (simp add: find_best_match_def)
  show ?thesis
  proof (cases "find_best_match ns version")
    case None
    then have "filter ?ok ns = []" using f node_versions.max_by_None by metis
    then have "\<forall>n\<in>set ns. \<not> ?ok n" by (simp add: filter_empty_conv)
    then show ?thesis using None Some by (fastforce split: option.splits)
  next
    case best: (Some best)
    then have m: "best \<in> set (filter ?ok ns)" "\<forall>n\<in>set (filter ?ok ns). version_cmp n best \<noteq> Greater"
      using f node_versions.max_by_greatest by metis+
    then obtain v where v: "semver_parse (node_version best) = Some v" "range_matches r v" "best \<in> set ns"
      by (auto split: option.splits)
    have "semver_le w v" if "n \<in> set ns" "semver_parse (node_version n) = Some w" "range_matches r w" for n w
    proof -
      have "n \<in> set (filter ?ok ns)" using that by simp
      then have "version_cmp n best \<noteq> Greater" using m(2) by blast
      then show ?thesis using that(2) v(1) by (simp add: version_cmp_def option_cmp_def)
    qed
    then show ?thesis using best v Some by auto
  qed
qed

theorem best_match_is_greatest_witness:
  "map_option node_version (find_best_match [node_new ''react'' ''17.0.2'', node_new ''react'' ''18.2.0'', node_new ''react'' ''bad''] ''latest'') =
     Some ''18.2.0''"
proof -
  let ?ns = "[node_new ''react'' ''17.0.2'', node_new ''react'' ''18.2.0'', node_new ''react'' ''bad'']"
  have p: "parse_range ''latest'' = Some Any" "semver_parse ''17.0.2'' = Some (release 17 0 2)"
    "semver_parse ''18.2.0'' = Some (release 18 2 0)" "semver_parse ''bad'' = None"
    "semver_cmp (release 18 2 0) (release 17 0 2) = Greater" by code_simp+
  have v: "node_version (node_new a b) = b" "node_new a b = node_new c d \<longleftrightarrow> a = c \<and> b = d" for a b c d
    by (auto simp: node_new_def)
  obtain best where best: "find_best_match ?ns ''latest'' = Some best"
    using best_match_is_greatest [where ns = ?ns and version = "''latest''"] p by (cases "find_best_match ?ns ''latest''") (auto simp: v)
  have "best \<noteq> node_new ''react'' ''17.0.2''" "best \<noteq> node_new ''react'' ''bad''" "best \<in> set ?ns"
    using best_match_is_greatest [where ns = ?ns and version = "''latest''"] p best by (auto simp: v)
  then show ?thesis using best by (auto simp: v)
qed

section \<open>Termination\<close>

text \<open>
  A set of names that holds everything the resolution can come across: the dependencies of every
  version the registry (or the cache) offers of a name of the set are in the set.
\<close>

definition deps_within :: "string set \<Rightarrow> dependency_node list \<Rightarrow> bool" where
  "deps_within U ns \<longleftrightarrow> (\<forall>n\<in>set ns. fst ` set (dependencies n) \<subseteq> U)"

definition registry_closed :: "registry \<Rightarrow> string \<Rightarrow> string set \<Rightarrow> bool" where
  "registry_closed net registry_url U \<longleftrightarrow>
     (\<forall>n\<in>U. \<forall>m ns. fetch_package net registry_url n = Some (m, ns) \<longrightarrow> deps_within U ns)"

definition cache_closed :: "cache \<Rightarrow> string set \<Rightarrow> bool" where
  "cache_closed cache U \<longleftrightarrow> (\<forall>n ns. cache n = Some ns \<longrightarrow> deps_within U ns)"

definition resolution_inv :: "string set \<Rightarrow> resolution \<Rightarrow> bool" where
  "resolution_inv U s \<longleftrightarrow> fst ` set (stack s) \<subseteq> U \<and> cache_closed (node_cache s) U"

definition resolution_work :: "string set \<Rightarrow> (resolution \<times> resolution) set" where
  "resolution_work U = measures
     [\<lambda>s. card (U - dom (resolved_versions (graph s))) + card (U - fetched s), \<lambda>s. length (stack s)]"

lemma deps_within_append: "deps_within U (a @ b) \<longleftrightarrow> deps_within U a \<and> deps_within U b"
  by (simp add: deps_within_def ball_Un)

lemma cache_extend_closed:
  assumes "cache_closed cache U" and "\<forall>m ns. r = Some (m, ns) \<longrightarrow> deps_within U ns"
  shows "cache_closed (cache_extend cache r) U"
proof -
  have "deps_within U ns" if "cache_extend cache r n = Some ns" for n ns
  proof (cases r)
    case None
    then show ?thesis using that assms(1) by (simp add: cache_extend_def cache_closed_def)
  next
    case (Some p)
    obtain m xs where p: "p = (m, xs)" by (cases p)
    have xs: "deps_within U xs" using assms(2) Some p by simp
    show ?thesis
    proof (cases "n = m")
      case True
      then have "ns = (case cache m of Some old \<Rightarrow> old | None \<Rightarrow> []) @ xs"
        using that Some p by (simp add: cache_extend_def)
      moreover have "deps_within U (case cache m of Some old \<Rightarrow> old | None \<Rightarrow> [])"
        using assms(1) by (cases "cache m") (simp_all add: cache_closed_def, simp add: deps_within_def)
      ultimately show ?thesis using xs by (simp add: deps_within_append)
    next
      case False
      then show ?thesis using that Some p assms(1) by (simp add: cache_extend_def cache_closed_def)
    qed
  qed
  then show ?thesis by (simp add: cache_closed_def)
qed

lemma fetch_all_closed:
  assumes "registry_closed net url U" and "fst ` set items \<subseteq> U" and "cache_closed cache U"
  shows "cache_closed (foldl (\<lambda>c item. cache_extend c (fetch_package net url (fst item))) cache items) U"
  using assms(2,3)
proof (induction items arbitrary: cache)
  case (Cons item items)
  have "cache_closed (cache_extend cache (fetch_package net url (fst item))) U"
    using Cons.prems assms(1) by (intro cache_extend_closed) (auto simp: registry_closed_def)
  then show ?case using Cons by simp
qed simp

lemma best_match_mem: "find_best_match ns version = Some best \<Longrightarrow> best \<in> set ns"
  using node_versions.max_by_greatest by (fastforce simp: find_best_match_def bind_eq_Some_conv)

text \<open>The four ways an iteration can go.\<close>

lemma resolve_step_cases:
  assumes "stack s = (name, version) # rest"
  obtains (drop) "resolve_step net url s = s\<lparr>stack := rest\<rparr>"
    | (pick) best cached where "resolved_versions (graph s) name = None" "node_cache s name = Some cached"
        "best \<in> set cached"
        "stack (resolve_step net url s) = sort_key fst (dependencies best) @ rest"
        "resolved_versions (graph (resolve_step net url s)) = (resolved_versions (graph s))(name \<mapsto> node_version best)"
        "node_cache (resolve_step net url s) = node_cache s" "fetched (resolve_step net url s) = fetched s"
    | (fetch) batch where "name \<notin> fetched s" "set (stack (resolve_step net url s)) = set (stack s)"
        "name \<in> fst ` set batch" "set batch \<subseteq> set (stack s)"
        "graph (resolve_step net url s) = graph s" "fetched (resolve_step net url s) = fetched s \<union> fst ` set batch"
        "node_cache (resolve_step net url s) =
           foldl (\<lambda>c item. cache_extend c (fetch_package net url (fst item))) (node_cache s) batch"
proof (cases "resolved_versions (graph s) name")
  case (Some v)
  then show ?thesis using drop assms by (simp add: resolve_step_def)
next
  case unresolved: None
  let ?best = "case node_cache s name of Some cached \<Rightarrow> find_best_match cached version | None \<Rightarrow> None"
  show ?thesis
  proof (cases ?best)
    case (Some best)
    then obtain cached where "node_cache s name = Some cached" "best \<in> set cached"
      using best_match_mem by (auto split: option.splits)
    then show ?thesis using Some unresolved assms
      by (intro pick) (simp_all add: resolve_step_def Let_def add_node_def)
  next
    case nobest: None
    show ?thesis
    proof (cases "name \<in> fetched s \<or> node_cache s name \<noteq> None")
      case True
      then show ?thesis using drop assms unresolved nobest by (simp add: resolve_step_def)
    next
      case False
      define uncached where "uncached = (\<lambda>item :: string \<times> string. \<not> (resolved_versions (graph s) (fst item) \<noteq> None \<or>
          node_cache s (fst item) \<noteq> None \<or> fst item \<in> fetched s))"
      define batch where "batch = (name, version) # takeWhile uncached rest"
      have step: "resolve_step net url s = s\<lparr>node_cache :=
            foldl (\<lambda>c item. cache_extend c (fetch_package net url (fst item))) (node_cache s) batch,
          fetched := fetched s \<union> fst ` set batch, stack := batch @ dropWhile uncached rest\<rparr>"
        using assms unresolved nobest False
        unfolding resolve_step_def batch_def uncached_def by (simp add: Let_def)
      have "set (takeWhile uncached rest) \<union> set (dropWhile uncached rest) = set rest"
        by (metis set_append takeWhile_dropWhile_id)
      then show ?thesis using False assms
        by (intro fetch [of batch]) (auto simp: step batch_def dest: set_takeWhileD)
    qed
  qed
qed

lemma resolve_step_inv:
  assumes "registry_closed net url U" and "resolution_inv U s" and "stack s \<noteq> []"
  shows "resolution_inv U (resolve_step net url s)"
proof -
  obtain name version rest where st: "stack s = (name, version) # rest" using assms(3) by (cases "stack s") auto
  show ?thesis
  proof (cases rule: resolve_step_cases [OF st, of net url])
    case 1
    then show ?thesis using assms(2) st by (simp add: resolution_inv_def)
  next
    case (2 best cached)
    then have "fst ` set (dependencies best) \<subseteq> U"
      using assms(2) by (auto simp: resolution_inv_def cache_closed_def deps_within_def)
    then show ?thesis using 2 assms(2) st by (auto simp: resolution_inv_def)
  next
    case (3 batch)
    have "fst ` set batch \<subseteq> fst ` set (stack s)" using 3(4) by (rule image_mono)
    then have "fst ` set batch \<subseteq> U" using assms(2) unfolding resolution_inv_def by (meson order_trans)
    then show ?thesis using 3 assms(1,2) by (auto simp: resolution_inv_def intro: fetch_all_closed)
  qed
qed

lemma resolve_step_work:
  assumes "finite U" and "resolution_inv U s" and "stack s \<noteq> []"
  shows "(resolve_step net url s, s) \<in> resolution_work U"
proof -
  obtain name version rest where st: "stack s = (name, version) # rest" using assms(3) by (cases "stack s") auto
  have U: "name \<in> U" using assms(2) st by (simp add: resolution_inv_def)
  show ?thesis
  proof (cases rule: resolve_step_cases [OF st, of net url])
    case 1
    then show ?thesis using st by (simp add: resolution_work_def)
  next
    case (2 best cached)
    have "U - dom (resolved_versions (graph (resolve_step net url s))) \<subset> U - dom (resolved_versions (graph s))"
      using 2 U by auto
    then have "card (U - dom (resolved_versions (graph (resolve_step net url s)))) < card (U - dom (resolved_versions (graph s)))"
      using assms(1) by (intro psubset_card_mono) simp_all
    then show ?thesis using 2 by (simp add: resolution_work_def)
  next
    case (3 batch)
    have "U - fetched (resolve_step net url s) \<subset> U - fetched s" using 3 U by auto
    then have "card (U - fetched (resolve_step net url s)) < card (U - fetched s)"
      using assms(1) by (intro psubset_card_mono) simp_all
    then show ?thesis using 3 by (simp add: resolution_work_def)
  qed
qed

text \<open>
  Claim C36 (termination). Resolution always ends: if the registry's metadata and the cache only
  mention finitely many names, the loop returns a graph, whatever the registry answers, including
  failed requests, empty metadata, ranges that no version satisfies and cyclic dependencies.
\<close>
theorem resolve_terminates:
  assumes "finite U" and "fst ` set deps \<subseteq> U" and "registry_closed net url U" and "cache_closed cache U"
  shows "\<exists>g cache'. resolve net url cache deps = Some (g, cache')"
proof -
  let ?s = "\<lparr>stack = sort_key fst deps, graph = graph_new, node_cache = cache, fetched = {}\<rparr>"
  have "\<exists>t. while_option (\<lambda>s. stack s \<noteq> []) (resolve_step net url) ?s = Some t"
  proof (rule wf_rel_while_option_Some [where P = "resolution_inv U" and R = "resolution_work U"])
    show "wf (resolution_work U)" by (simp add: resolution_work_def)
    show "resolution_inv U ?s" using assms(2,4) by (simp add: resolution_inv_def)
  qed (use assms(1,3) resolve_step_inv resolve_step_work in blast)+
  then show ?thesis by (auto simp: resolve_def)
qed

text \<open>The witness: a registry where two packages depend on each other and one answers with an error.\<close>

definition cyclic_registry :: registry where
  "cyclic_registry url =
     (if url = ''r/a'' then Some (True, Some (Object [(''versions'', Object [(''1.0.0'',
        Object [(''dependencies'', Object [(''b'', String ''^1.0.0''), (''missing'', String ''*'')])])])]))
      else if url = ''r/b'' then Some (True, Some (Object [(''versions'', Object [(''1.2.0'',
        Object [(''dependencies'', Object [(''a'', String ''*'')])])])]))
      else if url = ''r/missing'' then Some (False, None)
      else None)"

theorem resolve_terminates_witness:
  "\<exists>g cache'. resolve cyclic_registry ''r'' Map.empty [(''a'', ''^1.0.0'')] = Some (g, cache')"
proof (rule resolve_terminates)
  let ?U = "{''a'', ''b'', ''missing''}"
  show "finite ?U" by simp
  have f: "fetch_package cyclic_registry ''r'' ''a'' = Some (''a'', [(node_new ''a'' ''1.0.0'')\<lparr>
        dependencies := [(''b'', ''^1.0.0''), (''missing'', ''*'')]\<rparr>])"
    "fetch_package cyclic_registry ''r'' ''b'' = Some (''b'', [(node_new ''b'' ''1.2.0'')\<lparr>
        dependencies := [(''a'', ''*'')]\<rparr>])"
    "fetch_package cyclic_registry ''r'' ''missing'' = Some (''missing'', [])"
    by code_simp+
  show "registry_closed cyclic_registry ''r'' ?U" by (auto simp: registry_closed_def f deps_within_def)
qed (simp_all add: cache_closed_def)

end
