(* ===== verification/Typosquat.thy ===== *)
theory Typosquat
  imports Json
begin

text \<open>
  Typosquatting detection: \<open>crates/pm/src/typosquat.rs\<close>. The list of popular packages is a text that
  the build embeds; here it is the argument \<open>raw\<close>. Warnings on standard error are counted, not
  modelled.
\<close>

section \<open>The code\<close>

definition TYPOSQUAT_MAX_DISTANCE :: nat where
  "TYPOSQUAT_MAX_DISTANCE = 2"

record typosquat_finding =
  requested :: string
  likely_target :: string
  distance :: nat

definition popular_packages :: "string \<Rightarrow> string list" where
  "popular_packages raw = filter (\<lambda>l. l \<noteq> [] \<and> \<not> starts_with l ''#'') (map trim (lines raw))"

definition lev_cell :: "string \<Rightarrow> string \<Rightarrow> nat \<Rightarrow> nat list \<Rightarrow> nat \<Rightarrow> nat list \<Rightarrow> nat list" where
  "lev_cell a b i prev j cur =
     (let cost = of_bool (a ! (i - 1) \<noteq> b ! (j - 1))
      in cur[j := min (min (prev ! j + 1) (cur ! (j - 1) + 1)) (prev ! (j - 1) + cost)])"

definition lev_row :: "string \<Rightarrow> string \<Rightarrow> nat \<Rightarrow> nat list \<Rightarrow> nat list \<Rightarrow> nat list" where
  "lev_row a b i prev cur = fold (lev_cell a b i prev) [1..<Suc (length b)] (cur[0 := i])"

definition levenshtein :: "string \<Rightarrow> string \<Rightarrow> nat" where
  "levenshtein a b =
     (if a = [] then length b
      else if b = [] then length a
      else fst (fold (\<lambda>i (prev, cur). (lev_row a b i prev cur, prev)) [1..<Suc (length a)]
                 ([0..<Suc (length b)], replicate (Suc (length b)) 0)) ! length b)"

fun closest :: "string \<Rightarrow> string list \<Rightarrow> (nat \<times> string) option \<Rightarrow> (nat \<times> string) option" where
  "closest name [] best = best"
| "closest name (target # targets) best =
     (if target = name then None
      else
        let d = levenshtein name target
        in if d \<le> TYPOSQUAT_MAX_DISTANCE \<and> (case best of None \<Rightarrow> True | Some (bd, _) \<Rightarrow> d < bd)
           then closest name targets (Some (d, target))
           else closest name targets best)"

definition check_package_name :: "string \<Rightarrow> string \<Rightarrow> typosquat_finding option" where
  "check_package_name raw name =
     map_option (\<lambda>(d, target). \<lparr>requested = name, likely_target = target, distance = d\<rparr>)
       (closest name (popular_packages raw) None)"

definition warn_if_typosquat :: "string \<Rightarrow> string \<Rightarrow> bool" where
  "warn_if_typosquat raw name = (check_package_name raw name \<noteq> None)"

definition warn_for_all :: "string \<Rightarrow> string list \<Rightarrow> nat" where
  "warn_for_all raw names = length (filter (warn_if_typosquat raw) names)"

text \<open>The manifest is what reading and parsing the file gives; \<open>None\<close> when either fails.\<close>

definition warn_for_manifest_deps :: "string \<Rightarrow> json option \<Rightarrow> nat" where
  "warn_for_manifest_deps raw manifest =
     (case manifest of
        None \<Rightarrow> 0
      | Some val \<Rightarrow>
          (case as_object (json_index val ''dependencies'') of
             Some deps \<Rightarrow> warn_for_all raw (map fst deps)
           | None \<Rightarrow> 0))"

section \<open>Edit distance\<close>

text \<open>One string becomes the other with \<open>n\<close> single-character deletions, insertions and
  substitutions.\<close>

inductive edits :: "string \<Rightarrow> string \<Rightarrow> nat \<Rightarrow> bool" where
  no_edit: "edits [] [] 0"
| delete: "edits a b n \<Longrightarrow> edits (x # a) b (Suc n)"
| insert: "edits a b n \<Longrightarrow> edits a (y # b) (Suc n)"
| keep: "edits a b n \<Longrightarrow> edits (x # a) (x # b) n"
| substitute: "edits a b n \<Longrightarrow> edits (x # a) (y # b) (Suc n)"

fun edit_distance :: "string \<Rightarrow> string \<Rightarrow> nat" where
  "edit_distance [] b = length b"
| "edit_distance a [] = length a"
| "edit_distance (x # a) (y # b) =
     min (min (edit_distance a (y # b) + 1) (edit_distance (x # a) b + 1)) (edit_distance a b + of_bool (x \<noteq> y))"

lemma edit_distance_Nil [simp]: "edit_distance a [] = length a"
  by (cases a) simp_all

lemma edits_Nil: "edits [] b (length b)"
  by (induction b) (auto intro: edits.intros)

lemma edits_Nil2: "edits a [] (length a)"
  by (induction a) (auto intro: edits.intros)

lemma edit_distance_edits: "edits a b (edit_distance a b)"
proof (induction a b rule: edit_distance.induct)
  case (3 x a y b)
  have min3: "P p \<Longrightarrow> P q \<Longrightarrow> P r \<Longrightarrow> P (min (min p q) r)" for P and p q r :: nat by (simp add: min_def)
  have "edits (x # a) (y # b) (edit_distance a (y # b) + 1)" "edits (x # a) (y # b) (edit_distance (x # a) b + 1)"
    "edits (x # a) (y # b) (edit_distance a b + of_bool (x \<noteq> y))"
    using 3 by (auto intro: edits.intros)
  then show ?case unfolding edit_distance.simps by (rule min3)
next
  case (2 x a)
  show ?case using edits_Nil2 [of "x # a"] by simp
qed (simp add: edits_Nil)

lemma edit_distance_Cons_le: "edit_distance (x # a) b \<le> Suc (edit_distance a b)"
  "edit_distance a (y # b) \<le> Suc (edit_distance a b)"
  by (cases b; simp; cases a; simp)+

lemma edit_distance_least: "edits a b n \<Longrightarrow> edit_distance a b \<le> n"
proof (induction rule: edits.induct)
  case (delete a b n x)
  then show ?case using edit_distance_Cons_le(1) [of x a b] by simp
next
  case (insert a b n y)
  then show ?case using edit_distance_Cons_le(2) [of a y b] by simp
qed auto

lemma edits_snoc:
  "edits a b n \<Longrightarrow> edits (a @ [x]) b (Suc n) \<and> edits a (b @ [y]) (Suc n) \<and>
     edits (a @ [x]) (b @ [x]) n \<and> edits (a @ [x]) (b @ [y]) (Suc n)"
  by (induction rule: edits.induct) (auto intro: edits.intros)

lemma edits_rev: "edits a b n \<Longrightarrow> edits (rev a) (rev b) n"
  by (induction rule: edits.induct) (auto intro: edits.intros simp: edits_snoc)

section \<open>The two rows compute it\<close>

definition cell :: "string \<Rightarrow> string \<Rightarrow> nat \<Rightarrow> nat \<Rightarrow> nat" where
  "cell a b i j = edit_distance (rev (take i a)) (rev (take j b))"

lemma cell_0 [simp]: "j \<le> length b \<Longrightarrow> cell a b 0 j = j" "i \<le> length a \<Longrightarrow> cell a b i 0 = i"
  by (simp_all add: cell_def)

lemma cell_Suc:
  assumes "i < length a" and "j < length b"
  shows "cell a b (Suc i) (Suc j) =
    min (min (cell a b i (Suc j) + 1) (cell a b (Suc i) j + 1)) (cell a b i j + of_bool (a ! i \<noteq> b ! j))"
  using assms by (simp add: cell_def take_Suc_conv_app_nth)

definition row_ok :: "string \<Rightarrow> string \<Rightarrow> nat \<Rightarrow> nat list \<Rightarrow> bool" where
  "row_ok a b i row \<longleftrightarrow> length row = Suc (length b) \<and> (\<forall>j\<le>length b. row ! j = cell a b i j)"

lemma lev_row_prefix:
  assumes prev: "row_ok a b i prev" and cur: "length cur = Suc (length b)" and i: "i < length a" and m: "m \<le> length b"
  shows "length (fold (lev_cell a b (Suc i) prev) [1..<Suc m] (cur[0 := Suc i])) = Suc (length b) \<and>
    (\<forall>j\<le>m. fold (lev_cell a b (Suc i) prev) [1..<Suc m] (cur[0 := Suc i]) ! j = cell a b (Suc i) j)"
  using m
proof (induction m)
  case 0
  then show ?case using cur i by simp
next
  case (Suc m)
  define row where "row = fold (lev_cell a b (Suc i) prev) [1..<Suc m] (cur[0 := Suc i])"
  have row: "length row = Suc (length b)" "\<forall>j\<le>m. row ! j = cell a b (Suc i) j"
    using Suc unfolding row_def by simp_all
  have p: "prev ! Suc m = cell a b i (Suc m)" "prev ! m = cell a b i m"
    using prev Suc.prems by (simp_all add: row_ok_def)
  have new: "fold (lev_cell a b (Suc i) prev) [1..<Suc (Suc m)] (cur[0 := Suc i]) = row[Suc m := cell a b (Suc i) (Suc m)]"
  proof -
    have "fold (lev_cell a b (Suc i) prev) [1..<Suc (Suc m)] (cur[0 := Suc i]) = lev_cell a b (Suc i) prev (Suc m) row"
      unfolding row_def by simp
    also have "\<dots> = row[Suc m := cell a b (Suc i) (Suc m)]"
      using p row(2) Suc.prems i by (simp add: lev_cell_def cell_Suc)
    finally show ?thesis .
  qed
  show ?case unfolding new using row Suc.prems by (auto simp: nth_list_update le_Suc_eq)
qed

lemma lev_row_ok:
  "row_ok a b i prev \<Longrightarrow> length cur = Suc (length b) \<Longrightarrow> i < length a \<Longrightarrow> row_ok a b (Suc i) (lev_row a b (Suc i) prev cur)"
  using lev_row_prefix [of a b i prev cur "length b"] by (simp add: row_ok_def lev_row_def)

lemma lev_rows:
  assumes "m \<le> length a"
  shows "case fold (\<lambda>i (prev, cur). (lev_row a b i prev cur, prev)) [1..<Suc m]
      ([0..<Suc (length b)], replicate (Suc (length b)) 0) of
    (prev, cur) \<Rightarrow> row_ok a b m prev \<and> length cur = Suc (length b)"
  using assms
proof (induction m)
  case 0
  have "row_ok a b 0 [0..<Suc (length b)]" by (auto simp: row_ok_def simp del: upt_Suc)
  then show ?case by simp
next
  case (Suc m)
  then show ?case using lev_row_ok [of a b m] by (auto simp: row_ok_def split: prod.splits)
qed

lemma levenshtein_cell: "levenshtein a b = cell a b (length a) (length b)"
proof -
  have "a \<noteq> [] \<Longrightarrow> b \<noteq> [] \<Longrightarrow> ?thesis"
    using lev_rows [of "length a" a b] unfolding levenshtein_def
    by (auto simp: row_ok_def split: prod.splits)
  then show ?thesis by (cases "a = [] \<or> b = []") (auto simp: levenshtein_def cell_def)
qed

lemma levenshtein_edits: "edits a b (levenshtein a b)"
  using edits_rev [OF edit_distance_edits, of "rev a" "rev b"] by (simp add: levenshtein_cell cell_def)

lemma levenshtein_least: "edits a b n \<Longrightarrow> levenshtein a b \<le> n"
  using edit_distance_least [OF edits_rev] by (simp add: levenshtein_cell cell_def)

section \<open>What is flagged\<close>

lemma edits_0: "edits a b n \<Longrightarrow> n = 0 \<Longrightarrow> a = b"
  by (induction rule: edits.induct) auto

lemma max_distance [simp]: "TYPOSQUAT_MAX_DISTANCE = 2"
  by (simp add: TYPOSQUAT_MAX_DISTANCE_def)

lemma closest_exact: "name \<in> set targets \<Longrightarrow> closest name targets best = None"
  by (induction targets arbitrary: best) (auto simp: Let_def)

lemma closest_least:
  assumes "name \<notin> set targets"
  shows "case closest name targets best of
      None \<Rightarrow> best = None \<and> (\<forall>t\<in>set targets. 2 < levenshtein name t)
    | Some (d, t) \<Rightarrow>
        (best = Some (d, t) \<or> t \<in> set targets \<and> d = levenshtein name t \<and> d \<le> 2) \<and>
        (\<forall>u\<in>set targets. d \<le> levenshtein name u \<or> 2 < levenshtein name u) \<and>
        (\<forall>bd bt. best = Some (bd, bt) \<longrightarrow> d \<le> bd)"
  using assms
proof (induction targets arbitrary: best)
  case (Cons target targets)
  define d where "d = levenshtein name target"
  show ?case
  proof (cases "d \<le> 2 \<and> (case best of None \<Rightarrow> True | Some (bd, _) \<Rightarrow> d < bd)")
    case True
    then have "closest name (target # targets) best = closest name targets (Some (d, target))"
      using Cons.prems unfolding d_def by (auto simp: Let_def)
    then show ?thesis using Cons.IH [of "Some (d, target)"] Cons.prems True
      by (auto simp: d_def split: option.splits)
  next
    case False
    then have "closest name (target # targets) best = closest name targets best"
      using Cons.prems unfolding d_def by (auto simp: Let_def)
    then show ?thesis using Cons.IH [of best] Cons.prems False
      by (fastforce simp: d_def split: option.splits)
  qed
qed (auto split: option.split)

text \<open>
  A requested name is flagged exactly when it is not itself a popular package
  and one or two insertions, deletions or substitutions turn it into one; the package reported is
  one that no popular package is closer to, with its true edit distance, which the two-row dynamic
  program computes.
\<close>
theorem typosquat_flags_nearby_names:
  "case check_package_name raw name of
     Some f \<Rightarrow> name \<notin> set (popular_packages raw) \<and> requested f = name \<and>
       likely_target f \<in> set (popular_packages raw) \<and> edits name (likely_target f) (distance f) \<and>
       distance f \<in> {1, 2} \<and> (\<forall>t\<in>set (popular_packages raw). \<forall>n. edits name t n \<longrightarrow> distance f \<le> n)
   | None \<Rightarrow> name \<in> set (popular_packages raw) \<or>
       (\<forall>t\<in>set (popular_packages raw). \<forall>n. edits name t n \<longrightarrow> 2 < n)"
proof (cases "name \<in> set (popular_packages raw)")
  case True
  then show ?thesis by (simp add: check_package_name_def closest_exact)
next
  case False
  note least = closest_least [OF False, of None]
  show ?thesis
  proof (cases "closest name (popular_packages raw) None")
    case None
    then have "\<forall>t\<in>set (popular_packages raw). 2 < levenshtein name t" using least by simp
    then show ?thesis using None levenshtein_least by (fastforce simp: check_package_name_def)
  next
    case (Some r)
    obtain d t where r: "r = (d, t)" by (cases r)
    have t: "t \<in> set (popular_packages raw)" "d = levenshtein name t" "d \<le> 2"
      "\<forall>u\<in>set (popular_packages raw). d \<le> levenshtein name u \<or> 2 < levenshtein name u"
      using least Some r by auto
    have e: "edits name t d" using levenshtein_edits t(2) by simp
    then have "d \<noteq> 0" using edits_0 t(1) False by blast
    moreover have "d \<le> n" if "u \<in> set (popular_packages raw)" "edits name u n" for u n
      using t(3,4) that levenshtein_least [OF that(2)] by fastforce
    ultimately show ?thesis using Some r t(1,3) e False by (auto simp: check_package_name_def)
  qed
qed

end
