(* ===== verification/Platform.thy ===== *)
theory Platform
  imports Json
begin

text \<open>
  Which prebuilt optional dependencies apply to the machine: \<open>crates/pm/src/platform.rs\<close>. The
  compiled-in operating system and architecture and the file names of the library directories are
  arguments of \<open>platform_current\<close>.
\<close>

section \<open>The code\<close>

record platform =
  os :: string
  cpu :: string
  libc :: string

definition rust_arch_to_node_arch :: "string \<Rightarrow> string" where
  "rust_arch_to_node_arch arch =
     (if arch = ''x86_64'' \<or> arch = ''x86'' then ''x64''
      else if arch = ''aarch64'' then ''arm64''
      else if arch = ''arm'' then ''arm''
      else if arch = ''x86_64_gnu'' \<or> arch = ''x86_64-musl'' then ''x64''
      else arch)"

text \<open>\<open>dirs\<close> are the listings of the directories that can be read, in the order of the code.\<close>

definition detect_libc :: "string \<Rightarrow> string list list \<Rightarrow> string" where
  "detect_libc target_os dirs =
     (if target_os = ''macos'' then ''darwin''
      else if target_os = ''windows'' then ''win32''
      else if list_ex (list_ex (\<lambda>name. starts_with name ''ld-musl-'' \<and> ends_with name ''.so.1'')) dirs
        then ''musl''
      else ''glibc'')"

definition platform_current :: "string \<Rightarrow> string \<Rightarrow> string list list \<Rightarrow> platform" where
  "platform_current target_os arch dirs =
     \<lparr>os = target_os, cpu = rust_arch_to_node_arch arch, libc = detect_libc target_os dirs\<rparr>"

definition value_for :: "string \<Rightarrow> platform \<Rightarrow> string" where
  "value_for field p =
     (if field = ''os'' then os p else if field = ''cpu'' then cpu p else if field = ''libc'' then libc p else [])"

definition value_matches :: "string \<Rightarrow> string \<Rightarrow> platform \<Rightarrow> bool" where
  "value_matches v field p =
     (let x = trim v
      in if x = [] then False
         else (case strip_prefix_str ''!'' x of
           Some negated \<Rightarrow>
             if field = ''libc'' \<and> os p \<noteq> ''linux'' then True else value_for field p \<noteq> trim negated
         | None \<Rightarrow> value_for field p = x))"

definition field_accepts :: "string \<Rightarrow> json \<Rightarrow> platform \<Rightarrow> bool" where
  "field_accepts field val p =
     (let items = (case val of
            String s \<Rightarrow> Some [s]
          | Array arr \<Rightarrow> Some (List.map_filter as_str arr)
          | _ \<Rightarrow> None)
      in case items of
           None \<Rightarrow> True
         | Some vs \<Rightarrow>
             if vs = [] then True
             else if field = ''libc'' \<and> os p \<noteq> ''linux'' then
               \<not> list_ex (\<lambda>v. \<not> starts_with v ''!'' \<and> v = ''musl'') vs
             else list_ex (\<lambda>v. value_matches v field p) vs)"

definition manifest_accepts :: "json \<Rightarrow> platform \<Rightarrow> bool" where
  "manifest_accepts manifest p =
     list_all (\<lambda>field. case json_get manifest field of Some v \<Rightarrow> field_accepts field v p | None \<Rightarrow> True)
       [''os'', ''cpu'', ''libc'']"

definition optional_dep_candidates :: "json \<Rightarrow> (string \<times> string) list" where
  "optional_dep_candidates version_meta =
     (case (case json_get version_meta ''optionalDependencies'' of Some v \<Rightarrow> as_object v | None \<Rightarrow> None) of
        None \<Rightarrow> []
      | Some obj \<Rightarrow>
          List.map_filter (\<lambda>(name, rng).
            case as_str rng of
              None \<Rightarrow> None
            | Some r \<Rightarrow> if r = [] \<or> contains r ''false'' then None else Some (name, r)) obj)"

definition optional_dep_applies :: "json \<Rightarrow> platform \<Rightarrow> bool" where
  "optional_dep_applies candidate_meta p = manifest_accepts candidate_meta p"

definition filter_optional_deps ::
  "(string \<times> string) list \<Rightarrow> (string \<Rightarrow> json option) \<Rightarrow> platform \<Rightarrow> (string \<times> string) list" where
  "filter_optional_deps candidates metadata p =
     filter (\<lambda>(name, _). case metadata name of Some meta \<Rightarrow> optional_dep_applies meta p | None \<Rightarrow> True) candidates"

definition version_objects :: "json \<Rightarrow> (string \<times> json) list" where
  "version_objects packument =
     (case (case json_get packument ''versions'' of Some v \<Rightarrow> as_object v | None \<Rightarrow> None) of
        Some m \<Rightarrow> m | None \<Rightarrow> [])"

section \<open>Negated values\<close>

definition plain_value :: "string \<Rightarrow> bool" where
  "plain_value v \<longleftrightarrow> v \<noteq> [] \<and> list_all (Not \<circ> is_ws) v \<and> hd v \<noteq> CHR ''!''"

lemma value_matches_negated:
  assumes "plain_value v" and "field \<noteq> ''libc''"
  shows "value_matches (''!'' @ v) field p \<longleftrightarrow> value_for field p \<noteq> v"
proof -
  have "trim (''!'' @ v) = ''!'' @ v" "trim v = v"
    using assms(1) by (simp_all add: plain_value_def is_ws_def)
  then show ?thesis using assms(2) by (simp add: value_matches_def strip_prefix_str_def Let_def)
qed

text \<open>
  Negated platform values are joined by \<open>or\<close>: a field that excludes two different
  values accepts every platform, the excluded ones too, so \<open>os: ["!win32", "!darwin"]\<close> installs a
  package on both.
\<close>
theorem two_negations_accept_everything:
  assumes "plain_value a" and "plain_value b" and "a \<noteq> b" and "field \<in> {''os'', ''cpu''}"
    and "String (''!'' @ a) \<in> set arr" and "String (''!'' @ b) \<in> set arr"
  shows "field_accepts field (Array arr) p"
proof -
  have items: "''!'' @ a \<in> set (List.map_filter as_str arr)" "''!'' @ b \<in> set (List.map_filter as_str arr)"
    using assms(5,6) by (force simp: List.map_filter_def)+
  have libc: "field \<noteq> ''libc''" using assms(4) by auto
  have "value_matches (''!'' @ a) field p \<or> value_matches (''!'' @ b) field p"
    using value_matches_negated assms(1-3) libc by metis
  then have "list_ex (\<lambda>v. value_matches v field p) (List.map_filter as_str arr)"
    using items by (auto simp: list_ex_iff)
  then show ?thesis using libc by (auto simp: field_accepts_def)
qed

text \<open>The operating system is compared in Rust's spelling: a package for \<open>darwin\<close> is not accepted
  on the platform that \<open>Platform::current\<close> reports on macOS.\<close>

lemma darwin_package_not_on_macos:
  "\<not> field_accepts ''os'' (Array [String ''darwin'']) (platform_current ''macos'' ''aarch64'' [])"
  by code_simp

end
