(* ===== verification/Trust.thy ===== *)
theory Trust
  imports Permissions Json
begin

text \<open>
  Which packages the project trusts: \<open>crates/pm/src/trust.rs\<close>. A policy is read from the \<open>"3va"\<close>
  block of the project's manifest; it decides whether a package that the scanner flags is accepted,
  whether its lifecycle scripts may run, and with which permissions they do. The manifest is a JSON
  document; the file system that \<open>sandbox_argv\<close> asks for the canonical directory is a parameter.
\<close>

section \<open>Pins\<close>

record trust_entry =
  entry_name :: string
  entry_version :: "string option"

definition clean_version :: "string \<Rightarrow> string" where
  "clean_version s = dropWhile (\<lambda>c. c = CHR ''v'') (dropWhile (\<lambda>c. c = CHR ''='') (trim s))"

definition semver_equal :: "string \<Rightarrow> string \<Rightarrow> bool" where
  "semver_equal pin version \<longleftrightarrow> clean_version pin = clean_version version"

definition entry_matches :: "string \<Rightarrow> string \<Rightarrow> trust_entry \<Rightarrow> bool" where
  "entry_matches name version e =
     (if entry_name e \<noteq> name then False
      else (case entry_version e of None \<Rightarrow> True | Some v \<Rightarrow> semver_equal v version))"

definition entry_key :: "trust_entry \<Rightarrow> string" where
  "entry_key e = (case entry_version e of Some v \<Rightarrow> entry_name e @ ''@'' @ v | None \<Rightarrow> entry_name e)"

definition integrity_eq :: "string \<Rightarrow> string \<Rightarrow> bool" where
  "integrity_eq a b =
     (case (split_whitespace a, split_whitespace b) of
        (x # _, y # _) \<Rightarrow> x = y \<and> x \<noteq> []
      | _ \<Rightarrow> False)"

section \<open>Reading the manifest\<close>

datatype trust_error =
    BlockNotObject
  | IntegrityNotObject
  | TrustedNotArray
  | TrustedNotStrings
  | NamesNotStrings string

text \<open>The last \<open>@\<close> separates the version, unless it starts the name.\<close>

definition parse_pin :: "string \<Rightarrow> trust_entry" where
  "parse_pin s =
     (case rsplit_once CHR ''@'' s of
        Some (name, version) \<Rightarrow>
          if name = [] then \<lparr>entry_name = s, entry_version = None\<rparr>
          else if version = [] then \<lparr>entry_name = name, entry_version = None\<rparr>
          else \<lparr>entry_name = name, entry_version = Some version\<rparr>
      | None \<Rightarrow> \<lparr>entry_name = s, entry_version = None\<rparr>)"

fun parse_trust_items :: "json list \<Rightarrow> trust_error + trust_entry list" where
  "parse_trust_items [] = Inr []"
| "parse_trust_items (item # items) =
     (case as_str item of
        None \<Rightarrow> Inl TrustedNotStrings
      | Some raw \<Rightarrow>
          let s = trim raw
          in case parse_trust_items items of
               Inl e \<Rightarrow> Inl e
             | Inr out \<Rightarrow> Inr (if s = [] then out else parse_pin s # out))"

definition parse_trust_list :: "json \<Rightarrow> trust_error + trust_entry list" where
  "parse_trust_list value =
     (case as_array value of None \<Rightarrow> Inl TrustedNotArray | Some items \<Rightarrow> parse_trust_items items)"

fun parse_names :: "string \<Rightarrow> json list \<Rightarrow> trust_error + string list" where
  "parse_names key [] = Inr []"
| "parse_names key (item # items) =
     (case as_str item of
        None \<Rightarrow> Inl (NamesNotStrings key)
      | Some s \<Rightarrow>
          (case parse_names key items of
             Inl e \<Rightarrow> Inl e
           | Inr out \<Rightarrow> Inr (if trim s \<noteq> [] then trim s # out else out)))"

definition parse_name_list :: "string \<Rightarrow> json \<Rightarrow> trust_error + string list" where
  "parse_name_list key value =
     (case as_array value of None \<Rightarrow> Inr [] | Some items \<Rightarrow> parse_names key items)"

record trust_policy =
  entries :: "trust_entry list"
  pinned_integrity :: "string \<rightharpoonup> string"
  build_allowed :: "string list"
  package_permissions :: "string \<rightharpoonup> json"

definition empty_policy :: trust_policy where
  "empty_policy = \<lparr>entries = [], pinned_integrity = Map.empty, build_allowed = [], package_permissions = Map.empty\<rparr>"

definition read_integrity :: "json option \<Rightarrow> trust_error + (string \<rightharpoonup> string)" where
  "read_integrity v =
     (case v of
        None \<Rightarrow> Inr Map.empty
      | Some v \<Rightarrow>
          if as_object v = None then Inl IntegrityNotObject
          else Inr (foldl (\<lambda>m (k, s). m(k \<mapsto> s)) Map.empty (string_entries v)))"

definition read_permissions :: "json option \<Rightarrow> (string \<rightharpoonup> json)" where
  "read_permissions v =
     (case Option.bind v as_object of
        None \<Rightarrow> Map.empty
      | Some kvs \<Rightarrow>
          foldl (\<lambda>m (name, perms). if as_object perms \<noteq> None then m(name \<mapsto> perms) else m) Map.empty kvs)"

text \<open>The keys of the build allowlist, in the block and then at the top level of the manifest.\<close>

fun read_names :: "(string \<times> json option) list \<Rightarrow> trust_error + string list" where
  "read_names [] = Inr []"
| "read_names ((key, v) # rest) =
     (case (case v of None \<Rightarrow> Inr [] | Some l \<Rightarrow> parse_name_list key l) of
        Inl e \<Rightarrow> Inl e
      | Inr xs \<Rightarrow> (case read_names rest of Inl e \<Rightarrow> Inl e | Inr ys \<Rightarrow> Inr (xs @ ys)))"

definition build_lists :: "json \<Rightarrow> json \<Rightarrow> (string \<times> json option) list" where
  "build_lists manifest block =
     [(''onlyBuiltDependencies'', json_get block ''onlyBuiltDependencies''),
      (''trustedDependencies'', json_get block ''trustedDependencies''),
      (''trustedDependencies'', json_get manifest ''trustedDependencies''),
      (''onlyBuiltDependencies'', json_get manifest ''onlyBuiltDependencies'')]"

definition from_manifest :: "json \<Rightarrow> trust_error + trust_policy" where
  "from_manifest manifest =
     (case json_get manifest ''3va'' of
        None \<Rightarrow> Inr empty_policy
      | Some block \<Rightarrow>
          if block = Null then Inr empty_policy
          else if as_object block = None then Inl BlockNotObject
          else (case (case json_get block ''trusted'' of None \<Rightarrow> Inr [] | Some l \<Rightarrow> parse_trust_list l) of
            Inl e \<Rightarrow> Inl e
          | Inr es \<Rightarrow>
              (case read_integrity (json_get block ''trustedIntegrity'') of
                 Inl e \<Rightarrow> Inl e
               | Inr hashes \<Rightarrow>
                   (case read_names (build_lists manifest block) of
                      Inl e \<Rightarrow> Inl e
                    | Inr names \<Rightarrow>
                        Inr \<lparr>entries = es, pinned_integrity = hashes, build_allowed = sort_dedup names,
                             package_permissions = read_permissions (json_get block ''permissions'')\<rparr>))))"

definition from_manifest_or_empty :: "json option \<Rightarrow> trust_policy" where
  "from_manifest_or_empty manifest =
     (case manifest of
        Some m \<Rightarrow> (case from_manifest m of Inr p \<Rightarrow> p | Inl e \<Rightarrow> empty_policy)
      | None \<Rightarrow> empty_policy)"

section \<open>Decisions\<close>

datatype trust_status = NotTrusted | Trusted | Unversioned | IntegrityMismatch | IntegrityUnknown

definition status :: "trust_policy \<Rightarrow> string \<Rightarrow> string \<Rightarrow> string option \<Rightarrow> trust_status" where
  "status p name version hash =
     (case find (entry_matches name version) (entries p) of
        None \<Rightarrow> NotTrusted
      | Some e \<Rightarrow>
          let pinned = (case entry_version e of Some _ \<Rightarrow> Trusted | None \<Rightarrow> Unversioned)
          in case pinned_integrity p (entry_key e) of
               None \<Rightarrow> pinned
             | Some expected \<Rightarrow>
                 (case hash of
                    None \<Rightarrow> IntegrityUnknown
                  | Some actual \<Rightarrow> if integrity_eq expected actual then pinned else IntegrityMismatch))"

definition is_trusted :: "trust_policy \<Rightarrow> string \<Rightarrow> string \<Rightarrow> string option \<Rightarrow> bool" where
  "is_trusted p name version hash \<longleftrightarrow> status p name version hash \<in> {Trusted, Unversioned}"

definition allows_lifecycle :: "trust_policy \<Rightarrow> string \<Rightarrow> bool" where
  "allows_lifecycle p name = list_ex (\<lambda>n. n = name) (build_allowed p)"

text \<open>The directory of the innermost \<open>node_modules\<close> above a package (\<open>ancestors\<close> goes from the
  whole path to shorter and shorter ones), or the package itself.\<close>

definition node_modules_tree :: "path \<Rightarrow> path" where
  "node_modules_tree own =
     (case find (\<lambda>p. p \<noteq> [] \<and> last p = Normal ''node_modules'') (map (\<lambda>k. take k own) (rev [0..<Suc (length own)])) of
        Some p \<Rightarrow> p
      | None \<Rightarrow> own)"

definition scoped_keys :: "string list" where
  "scoped_keys = [''allow-net'', ''allow-read'', ''allow-write'', ''allow-env'', ''allow-ffi'']"

definition listed_flags :: "json \<Rightarrow> string \<Rightarrow> string list" where
  "listed_flags perms key =
     (case as_array (json_index perms key) of
        Some vs \<Rightarrow> map (\<lambda>v. ''--'' @ key @ ''='' @ v) (List.map_filter as_str vs)
      | None \<Rightarrow> [])"

definition sandbox_argv :: "fs_env \<Rightarrow> trust_policy \<Rightarrow> path \<Rightarrow> string \<Rightarrow> string list" where
  "sandbox_argv fs p package_dir pkg_name =
     (let own = (case canon fs package_dir of Some d \<Rightarrow> d | None \<Rightarrow> package_dir);
          tree = node_modules_tree own;
          argv = [''--no-prompt'', ''--allow-read='' @ path_display tree, ''--allow-write='' @ path_display own]
      in case package_permissions p pkg_name of
           None \<Rightarrow> argv
         | Some perms \<Rightarrow>
             argv @ concat (map (listed_flags perms) scoped_keys) @
             (if as_bool (json_index perms ''allow-child-process'') = Some True
              then [''--allow-child-process''] else []))"

section \<open>What a policy read from a manifest says\<close>

text \<open>The strings that the manifest lists under \<open>3va.trusted\<close>, and the entry of an object that holds
  a string.\<close>

definition trusted_strings :: "json \<Rightarrow> string list" where
  "trusted_strings manifest =
     (case as_array (json_index (json_index manifest ''3va'') ''trusted'') of
        Some items \<Rightarrow> map trim (List.map_filter as_str items) | None \<Rightarrow> [])"

lemma parse_trust_items_set:
  "parse_trust_items items = Inr es \<Longrightarrow>
     set es = parse_pin ` {s \<in> set (map trim (List.map_filter as_str items)). s \<noteq> []}"
proof (induction items arbitrary: es)
  case (Cons item items)
  then show ?case
    by (cases "as_str item") (auto simp: Let_def List.map_filter_simps split: sum.splits if_splits)
qed (simp add: List.map_filter_simps)

lemma parse_names_set:
  "parse_names key items = Inr out \<Longrightarrow>
     set out = {s \<in> set (map trim (List.map_filter as_str items)). s \<noteq> []}"
proof (induction items arbitrary: out)
  case (Cons item items)
  then show ?case
    by (cases "as_str item") (auto simp: Let_def List.map_filter_simps split: sum.splits if_splits)
qed (simp add: List.map_filter_simps)

lemma foldl_update: "foldl (\<lambda>m (k, s). m(k \<mapsto> s)) m kvs = m ++ map_of (rev kvs)"
  by (induction kvs arbitrary: m) (auto simp: fun_eq_iff map_add_def split: option.splits)

lemma foldl_update_if:
  "foldl (\<lambda>m (k, v). if P v then m(k \<mapsto> v) else m) m kvs k = Some x \<Longrightarrow>
     m k = Some x \<or> ((k, x) \<in> set kvs \<and> P x)"
  by (induction kvs arbitrary: m) (fastforce split: if_splits)+

lemma from_manifest_cases [consumes 1, case_names empty block]:
  assumes "from_manifest m = Inr p"
  obtains "json_index m ''3va'' = Null" "p = empty_policy"
  | block es hashes names where "json_index m ''3va'' = block" "block \<noteq> Null"
      "(case json_get block ''trusted'' of None \<Rightarrow> Inr [] | Some l \<Rightarrow> parse_trust_list l) = Inr es"
      "read_integrity (json_get block ''trustedIntegrity'') = Inr hashes"
      "read_names (build_lists m block) = Inr names"
      "p = \<lparr>entries = es, pinned_integrity = hashes, build_allowed = sort_dedup names,
            package_permissions = read_permissions (json_get block ''permissions'')\<rparr>"
proof (cases "json_get m ''3va''")
  case None
  with assms that(1) show ?thesis by (simp add: from_manifest_def json_index_def)
next
  case (Some block)
  show ?thesis
  proof (cases "block = Null")
    case True
    with Some assms that(1) show ?thesis by (simp add: from_manifest_def json_index_def)
  next
    case False
    with Some assms show ?thesis
      by (auto simp: from_manifest_def json_index_def split: if_splits sum.splits intro: that(2))
  qed
qed

lemma from_manifest_entries:
  assumes "from_manifest m = Inr p" shows "set (entries p) \<subseteq> parse_pin ` set (trusted_strings m)"
  using assms
proof (cases rule: from_manifest_cases)
  case (block block es hashes names)
  then show ?thesis
    by (auto simp: trusted_strings_def parse_trust_list_def json_index_def dest!: parse_trust_items_set
        split: option.splits)
qed (simp add: empty_policy_def)

lemma from_manifest_integrity:
  assumes "from_manifest m = Inr p"
  shows "pinned_integrity p = map_of (rev (string_entries (json_index (json_index m ''3va'') ''trustedIntegrity'')))"
  using assms
proof (cases rule: from_manifest_cases)
  case empty
  then show ?thesis by (simp add: empty_policy_def json_index_def string_entries_def)
next
  case (block block es hashes names)
  then show ?thesis
    by (auto simp: read_integrity_def json_index_def foldl_update string_entries_def
        split: option.splits if_splits)
qed

lemma from_manifest_permissions:
  assumes "from_manifest m = Inr p" and "package_permissions p pkg = Some perms"
  shows "\<exists>kvs. json_index (json_index m ''3va'') ''permissions'' = Object kvs \<and> (pkg, perms) \<in> set kvs"
  using assms(1)
proof (cases rule: from_manifest_cases)
  case (block block es hashes names)
  then obtain v kvs where v: "json_get block ''permissions'' = Some v" "as_object v = Some kvs"
    "foldl (\<lambda>m (name, perms). if as_object perms \<noteq> None then m(name \<mapsto> perms) else m) Map.empty kvs pkg = Some perms"
    using assms(2) by (auto simp: read_permissions_def split: option.splits Option.bind_splits)
  have "v = Object kvs" using v(2) by (cases v) simp_all
  then show ?thesis using v foldl_update_if [OF v(3)] block(1) by (simp add: json_index_def)
qed (use assms(2) in \<open>simp add: empty_policy_def\<close>)

text \<open>
  Claim C19 (safety). A package that the policy of a manifest trusts was pinned there: the manifest
  lists a pin with exactly that name, whose version, if it has one, is the version asked for up to a
  leading \<open>=\<close> or \<open>v\<close>; and if the manifest records a hash for that pin, the registry published a hash
  and it is that one: a missing hash never inherits the decision.
\<close>
theorem trusted_means_pinned:
  assumes "from_manifest m = Inr p" and "is_trusted p name version hash"
  shows "\<exists>s\<in>set (trusted_strings m). entry_name (parse_pin s) = name \<and>
    (\<forall>v. entry_version (parse_pin s) = Some v \<longrightarrow> clean_version v = clean_version version) \<and>
    (\<forall>h. map_of (rev (string_entries (json_index (json_index m ''3va'') ''trustedIntegrity''))) (entry_key (parse_pin s)) = Some h \<longrightarrow>
       (\<exists>actual. hash = Some actual \<and> integrity_eq h actual))"
proof -
  obtain e where e: "find (entry_matches name version) (entries p) = Some e"
    and hash: "\<forall>h. pinned_integrity p (entry_key e) = Some h \<longrightarrow> (\<exists>actual. hash = Some actual \<and> integrity_eq h actual)"
    using assms(2) by (auto simp: is_trusted_def status_def Let_def split: option.splits if_splits)
  from e have "e \<in> set (entries p)" and match: "entry_matches name version e"
    by (auto simp: find_Some_iff)
  then obtain s where "s \<in> set (trusted_strings m)" "e = parse_pin s"
    using from_manifest_entries [OF assms(1)] by blast
  then show ?thesis
    using match hash from_manifest_integrity [OF assms(1)]
    by (intro bexI [of _ s]) (auto simp: entry_matches_def semver_equal_def split: if_splits option.splits)
qed

definition pinned_vite :: "string \<Rightarrow> json" where
  "pinned_vite pin = Object [(''3va'', Object [(''trusted'', Array [String pin]),
     (''trustedIntegrity'', Object [(''vite@8.3.0'', String ''sha512-abc'')])])]"

theorem trusted_means_pinned_witness:
  "\<exists>s\<in>set (trusted_strings (pinned_vite ''vite@8.3.0'')). entry_name (parse_pin s) = ''vite''"
proof -
  let ?m = "pinned_vite ''vite@8.3.0''"
  have "case from_manifest ?m of Inr p \<Rightarrow> is_trusted p ''vite'' ''v8.3.0'' (Some ''sha512-abc'') | Inl _ \<Rightarrow> False"
    by code_simp
  then obtain p where "from_manifest ?m = Inr p" "is_trusted p ''vite'' ''v8.3.0'' (Some ''sha512-abc'')"
    by (auto split: sum.splits)
  from trusted_means_pinned [OF this] show ?thesis by blast
qed

section \<open>Where a pin does less than it says\<close>

text \<open>
  The hash of a pin is looked up under the spelling of the entry that matched first. A hash recorded
  for \<open>vite@8.3.0\<close> is not consulted when the list says \<open>vite@v8.3.0\<close>, which is the same version.
\<close>

lemma hash_of_other_spelling_ignored:
  "case from_manifest (pinned_vite ''vite@v8.3.0'') of
     Inr p \<Rightarrow> status p ''vite'' ''8.3.0'' (Some ''sha512-evil'') = Trusted | Inl _ \<Rightarrow> False"
  "case from_manifest (pinned_vite ''vite@8.3.0'') of
     Inr p \<Rightarrow> status p ''vite'' ''8.3.0'' (Some ''sha512-evil'') = IntegrityMismatch | Inl _ \<Rightarrow> False"
  by code_simp+

text \<open>An entry without a version that stands first takes precedence over a later pin with a hash.\<close>

lemma unversioned_entry_shadows:
  assumes "entries p = \<lparr>entry_name = n, entry_version = None\<rparr> # es" and "pinned_integrity p n = None"
  shows "status p n v hash = Unversioned"
  using assms by (simp add: status_def entry_matches_def entry_key_def)

section \<open>Lifecycle scripts\<close>

definition listed_names :: "json option \<Rightarrow> string set" where
  "listed_names v = (case Option.bind v as_array of
     Some items \<Rightarrow> trim ` {t. String t \<in> set items} - {[]} | None \<Rightarrow> {})"

lemma strings_of: "set (List.map_filter as_str items) = {t. String t \<in> set items}"
proof -
  have "as_str x = Some t \<longleftrightarrow> x = String t" for x t by (cases x) auto
  then show ?thesis by (force simp: List.map_filter_def image_iff)
qed

lemma read_names_set: "read_names kvs = Inr out \<Longrightarrow> set out = (\<Union>v\<in>snd ` set kvs. listed_names v)"
proof (induction kvs arbitrary: out rule: read_names.induct)
  case (2 key v rest)
  then obtain xs ys where parts: "(case v of None \<Rightarrow> Inr [] | Some l \<Rightarrow> parse_name_list key l) = Inr xs"
    "read_names rest = Inr ys" "out = xs @ ys"
    by (auto split: sum.splits)
  have "set xs = listed_names v"
  proof (cases "Option.bind v as_array")
    case None
    with parts(1) show ?thesis
      by (cases v) (simp_all add: listed_names_def parse_name_list_def)
  next
    case (Some items)
    then have "parse_names key items = Inr xs"
      using parts(1) by (cases v) (simp_all add: parse_name_list_def)
    then have "set xs = {s \<in> set (map trim (List.map_filter as_str items)). s \<noteq> []}"
      by (rule parse_names_set)
    with Some show ?thesis by (auto simp: listed_names_def strings_of)
  qed
  then show ?case using "2.IH" [OF parts(1,2)] parts(3) by simp
qed simp

text \<open>Scripts run for the names the project lists; the lists at the top level of the manifest (where
  Bun has them) are read only when there is a \<open>"3va"\<close> block.\<close>

lemma allows_lifecycle_listed:
  assumes "from_manifest m = Inr p" and "json_index m ''3va'' \<noteq> Null"
  shows "allows_lifecycle p name \<longleftrightarrow>
    (\<exists>v\<in>snd ` set (build_lists m (json_index m ''3va'')). name \<in> listed_names v)"
  using assms(1)
proof (cases rule: from_manifest_cases)
  case (block block es hashes names)
  have "allows_lifecycle p name \<longleftrightarrow> name \<in> set names"
    by (auto simp: allows_lifecycle_def list_ex_iff block(6) sort_dedup_def)
  then show ?thesis using read_names_set [OF block(5)] block(1) by simp
qed (use assms(2) in simp)

lemma top_level_lists_need_block:
  assumes "from_manifest m = Inr p" and "json_get m ''3va'' = None"
  shows "\<not> allows_lifecycle p name"
  using assms by (auto simp: from_manifest_def empty_policy_def allows_lifecycle_def)

lemma listed_flags_cases:
  "a \<in> set (listed_flags perms key) \<longleftrightarrow>
     (\<exists>vs v. json_index perms key = Array vs \<and> String v \<in> set vs \<and> a = ''--'' @ key @ ''='' @ v)"
  unfolding listed_flags_def by (cases "json_index perms key") (auto simp: strings_of)


definition native_addon :: json where
  "native_addon = Object [(''3va'', Object [(''permissions'', Object [(''sharp'',
     Object [(''allow-net'', Array [String ''github.com'']), (''allow-write'', Bool True)])])])]"


end
