(* ===== verification/Npmrc.thy ===== *)
theory Npmrc
  imports Rust_Std
begin

text \<open>
  Registry configuration: \<open>crates/pm/src/npmrc.rs\<close>. The contents of the three files that
  \<open>discover_npmrc\<close> looks for are arguments (\<open>None\<close> for a file that cannot be read). The lemmas
  show that a scope pinned to a registry by the project always resolves there (the guard against
  dependency confusion), and which settings are lost when the files are merged.
\<close>

record npmrc_config =
  registry :: "string option"
  scoped_registries :: "string \<rightharpoonup> string"
  auth_tokens :: "string \<rightharpoonup> string"
  auth_credentials :: "string \<rightharpoonup> string"
  always_auth :: "string \<rightharpoonup> bool"
  raw_settings :: "string \<rightharpoonup> string"
  save_prefix :: "string option"
  save_exact :: bool

definition default_npmrc :: npmrc_config where
  "default_npmrc = \<lparr>registry = None, scoped_registries = Map.empty, auth_tokens = Map.empty,
     auth_credentials = Map.empty, always_auth = Map.empty, raw_settings = Map.empty,
     save_prefix = None, save_exact = False\<rparr>"

definition normalize_registry_url :: "string \<Rightarrow> string" where
  "normalize_registry_url url0 =
     (let url = trim_end_matches ''/'' (trim url0)
      in if contains url ''://'' then url else ''https://'' @ url)"

definition normalize_registry_host :: "string \<Rightarrow> string" where
  "normalize_registry_host host =
     trim_end_matches '':'' (trim_end_matches ''/'' (trim_start_matches ''//'' (trim host)))"

section \<open>One file\<close>

text \<open>The key and the value of a line; comments and lines without \<open>=\<close> have none.\<close>

definition npmrc_entry :: "string \<Rightarrow> (string \<times> string) option" where
  "npmrc_entry line =
     (let trimmed = trim line
      in if trimmed = [] \<or> starts_with trimmed '';'' \<or> starts_with trimmed ''#'' then None
         else map_option (\<lambda>(k, v). (trim k, trim_matches CHR 0x22 (trim v))) (split_once CHR ''='' trimmed))"

definition npmrc_apply :: "npmrc_config \<Rightarrow> string \<times> string \<Rightarrow> npmrc_config" where
  "npmrc_apply c kv =
     (let (key, val) = kv
      in if key = ''registry'' then c\<lparr>registry := Some (normalize_registry_url val)\<rparr>
      else case strip_suffix_str '':registry'' key of
        Some scope \<Rightarrow> c\<lparr>scoped_registries := (scoped_registries c)(scope \<mapsto> normalize_registry_url val)\<rparr>
      | None \<Rightarrow> case strip_suffix_str '':_authToken'' key of
        Some host \<Rightarrow> c\<lparr>auth_tokens := (auth_tokens c)(normalize_registry_host host \<mapsto> val)\<rparr>
      | None \<Rightarrow> case strip_suffix_str '':_auth'' key of
        Some host \<Rightarrow> c\<lparr>auth_credentials := (auth_credentials c)(normalize_registry_host host \<mapsto> val)\<rparr>
      | None \<Rightarrow> case strip_suffix_str '':always-auth'' key of
        Some host \<Rightarrow> c\<lparr>always_auth := (always_auth c)(normalize_registry_host host \<mapsto> (val = ''true''))\<rparr>
      | None \<Rightarrow>
        if key = ''save-prefix'' then c\<lparr>save_prefix := Some val\<rparr>
        else if key = ''save-exact'' then c\<lparr>save_exact := (val = ''true'')\<rparr>
        else c\<lparr>raw_settings := (raw_settings c)(key \<mapsto> val)\<rparr>)"

definition npmrc_line :: "npmrc_config \<Rightarrow> string \<Rightarrow> npmrc_config" where
  "npmrc_line c line = (case npmrc_entry line of Some kv \<Rightarrow> npmrc_apply c kv | None \<Rightarrow> c)"

definition parse_npmrc :: "string \<Rightarrow> npmrc_config" where
  "parse_npmrc content = foldl npmrc_line default_npmrc (lines content)"

section \<open>All files\<close>

definition merge_configs :: "npmrc_config \<Rightarrow> npmrc_config \<Rightarrow> npmrc_config" where
  "merge_configs base overrides =
     base\<lparr>registry := (case registry overrides of Some r \<Rightarrow> Some r | None \<Rightarrow> registry base),
          scoped_registries := scoped_registries base ++ scoped_registries overrides,
          auth_tokens := auth_tokens base ++ auth_tokens overrides,
          auth_credentials := auth_credentials base ++ auth_credentials overrides,
          always_auth := always_auth base ++ always_auth overrides,
          raw_settings := raw_settings base ++ raw_settings overrides\<rparr>"

definition discover_npmrc :: "string option \<Rightarrow> string option \<Rightarrow> string option \<Rightarrow> npmrc_config" where
  "discover_npmrc global user project =
     foldl (\<lambda>c file. case file of Some content \<Rightarrow> merge_configs c (parse_npmrc content) | None \<Rightarrow> c)
       default_npmrc [global, user, project]"

definition resolve_registry :: "npmrc_config \<Rightarrow> string \<Rightarrow> string" where
  "resolve_registry c package_name =
     (let pinned = (if starts_with package_name ''@'' then scoped_registries c (hd (split CHR ''/'' package_name)) else None)
      in case pinned of
           Some url \<Rightarrow> url
         | None \<Rightarrow> (case registry c of Some r \<Rightarrow> r | None \<Rightarrow> ''https://registry.npmjs.org''))"

definition pinned_scope_registry :: "npmrc_config \<Rightarrow> string \<Rightarrow> string option" where
  "pinned_scope_registry c package_name =
     (if starts_with package_name ''@'' then scoped_registries c (hd (split CHR ''/'' package_name)) else None)"

section \<open>Pinned scopes\<close>

lemma strip_suffix_append: "strip_suffix_str s (x @ s) = Some x"
  by (simp add: strip_suffix_str_def suffix_def)

lemma strip_suffix_Some: "strip_suffix_str s y = Some x \<longleftrightarrow> y = x @ s"
  by (auto simp: strip_suffix_str_def suffix_def)

lemma hd_split: "c \<notin> set a \<Longrightarrow> hd (split c (a @ c # b)) = a"
proof (induction a)
  case (Cons x a)
  then show ?case by (cases "split c (a @ c # b)") auto
qed simp

lemma scope_after_apply:
  assumes "scope \<noteq> []"
  shows "scoped_registries (npmrc_apply c (key, val)) scope =
    (if key = scope @ '':registry'' then Some (normalize_registry_url val) else scoped_registries c scope)"
proof (cases "key = ''registry''")
  case True
  moreover have "length ''registry'' < length (scope @ '':registry'')" by simp
  ultimately have "key \<noteq> scope @ '':registry''" by (metis less_irrefl)
  with True show ?thesis by (simp add: npmrc_apply_def)
next
  case False
  show ?thesis
  proof (cases "strip_suffix_str '':registry'' key")
    case None
    then have "key \<noteq> scope @ '':registry''" by (metis option.distinct(1) strip_suffix_append)
    with None False show ?thesis by (simp add: npmrc_apply_def split: option.splits)
  next
    case (Some s)
    then have "key = s @ '':registry''" by (simp add: strip_suffix_Some)
    with Some False show ?thesis by (simp add: npmrc_apply_def)
  qed
qed

lemma scope_after_lines:
  assumes "scope \<noteq> []" and "\<forall>l\<in>set ls. \<forall>v. npmrc_entry l \<noteq> Some (scope @ '':registry'', v)"
  shows "scoped_registries (foldl npmrc_line c ls) scope = scoped_registries c scope"
  using assms(2)
proof (induction ls arbitrary: c)
  case (Cons l ls)
  have "scoped_registries (npmrc_line c l) scope = scoped_registries c scope"
    using Cons.prems assms(1)
    by (auto simp: npmrc_line_def scope_after_apply split: option.splits)
  with Cons show ?case by simp
qed simp

text \<open>
  Claim C21 (safety). No package of a pinned scope is looked up anywhere else: when a line of the
  project's file pins a scope to a registry and no later line of that file does, every package of
  the scope resolves to that registry, whatever the user's and the global file say, and the guard
  against dependency confusion reports the pin.
\<close>
theorem pinned_scope_wins:
  assumes "lines content = before @ line # after" and "npmrc_entry line = Some (scope @ '':registry'', url)"
    and "\<forall>l\<in>set after. \<forall>v. npmrc_entry l \<noteq> Some (scope @ '':registry'', v)"
    and "starts_with scope ''@''" and "CHR ''/'' \<notin> set scope"
  shows "resolve_registry (discover_npmrc global user (Some content)) (scope @ ''/'' @ name) = normalize_registry_url url \<and>
    pinned_scope_registry (discover_npmrc global user (Some content)) (scope @ ''/'' @ name) =
      Some (normalize_registry_url url)"
proof -
  have ne: "scope \<noteq> []" using assms(4) by (auto simp: starts_with_def)
  have "scoped_registries (parse_npmrc content) scope =
      scoped_registries (npmrc_line (foldl npmrc_line default_npmrc before) line) scope"
    unfolding parse_npmrc_def assms(1) using scope_after_lines [OF ne assms(3)] by simp
  also have "\<dots> = Some (normalize_registry_url url)"
    using ne assms(2) by (simp add: npmrc_line_def scope_after_apply)
  finally have "scoped_registries (discover_npmrc global user (Some content)) scope = Some (normalize_registry_url url)"
    by (simp add: discover_npmrc_def merge_configs_def)
  moreover have "starts_with (scope @ ''/'' @ name) ''@''" using assms(4) by (simp add: starts_with_def)
  moreover have "hd (split CHR ''/'' (scope @ ''/'' @ name)) = scope" using hd_split [OF assms(5), of name] by simp
  ultimately show ?thesis by (simp add: resolve_registry_def pinned_scope_registry_def)
qed

theorem pinned_scope_wins_witness:
  "resolve_registry (discover_npmrc None (Some ''@acme:registry=https://evil.example'') (Some ''@acme:registry=npm.acme.example/''))
     (''@acme'' @ ''/'' @ ''utils'') = ''https://npm.acme.example''"
proof -
  have "lines ''@acme:registry=npm.acme.example/'' = [] @ ''@acme:registry=npm.acme.example/'' # []"
    "npmrc_entry ''@acme:registry=npm.acme.example/'' = Some (''@acme'' @ '':registry'', ''npm.acme.example/'')"
    "starts_with ''@acme'' ''@''" "CHR ''/'' \<notin> set ''@acme''"
    "normalize_registry_url ''npm.acme.example/'' = ''https://npm.acme.example''"
    by code_simp+
  then show ?thesis
    using pinned_scope_wins [of "''@acme:registry=npm.acme.example/''" "[]" "''@acme:registry=npm.acme.example/''" "[]" "''@acme''" "''npm.acme.example/''"]
    by simp
qed

section \<open>What merging loses\<close>

text \<open>
  \<open>merge_configs\<close> starts from the defaults and copies neither \<open>save-prefix\<close> nor \<open>save-exact\<close>: whatever
  the files say, the merged configuration has neither, although \<open>parse_npmrc\<close> reads both.
\<close>

lemma discover_loses_save_settings:
  "save_prefix (discover_npmrc global user project) = None" "\<not> save_exact (discover_npmrc global user project)"
  by (auto simp: discover_npmrc_def merge_configs_def default_npmrc_def split: option.splits)

lemma parse_reads_save_exact: "save_exact (parse_npmrc ''save-exact=true'')"
  by code_simp

end
