(* ===== verification/Utf8.thy ===== *)
theory Utf8
  imports Rust_Std
begin

text \<open>
  Byte strings as text: what \<open>String::from_utf8\<close> accepts, character boundaries, and the checked
  and the panicking forms of slicing a \<open>str\<close>.
\<close>

definition byte :: "char \<Rightarrow> nat" where
  "byte c = of_char c"

lemma byte_lt [simp]: "byte c < 256"
  by (simp add: byte_def)

definition byte_in :: "nat \<Rightarrow> nat \<Rightarrow> char \<Rightarrow> bool" where
  "byte_in lo hi c \<longleftrightarrow> lo \<le> byte c \<and> byte c \<le> hi"

text \<open>The length of the well-formed sequence at the head, by the table of the Unicode standard.\<close>

definition utf8_step :: "string \<Rightarrow> nat option" where
  "utf8_step s =
     (case s of
        [] \<Rightarrow> None
      | a # r \<Rightarrow>
          if byte a < 0x80 then Some 1
          else (case r of
            [] \<Rightarrow> None
          | b # r2 \<Rightarrow>
              if byte_in 0xC2 0xDF a then (if byte_in 0x80 0xBF b then Some 2 else None)
              else (case r2 of
                [] \<Rightarrow> None
              | c # r3 \<Rightarrow>
                  if byte_in 0xE0 0xEF a then
                    (if byte_in (if byte a = 0xE0 then 0xA0 else 0x80) (if byte a = 0xED then 0x9F else 0xBF) b \<and>
                        byte_in 0x80 0xBF c then Some 3 else None)
                  else (case r3 of
                    [] \<Rightarrow> None
                  | d # r4 \<Rightarrow>
                      if byte_in 0xF0 0xF4 a \<and>
                         byte_in (if byte a = 0xF0 then 0x90 else 0x80) (if byte a = 0xF4 then 0x8F else 0xBF) b \<and>
                         byte_in 0x80 0xBF c \<and> byte_in 0x80 0xBF d then Some 4 else None))))"

lemma utf8_step_pos: "utf8_step s = Some n \<Longrightarrow> 0 < n \<and> s \<noteq> []"
  by (auto simp: utf8_step_def split: list.splits if_splits)

function valid_utf8 :: "string \<Rightarrow> bool" where
  "valid_utf8 s =
     (if s = [] then True
      else (case utf8_step s of None \<Rightarrow> False | Some n \<Rightarrow> valid_utf8 (drop n s)))"
  by pat_completeness auto
termination
  by (relation "measure length") (auto dest: utf8_step_pos)

declare valid_utf8.simps [simp del]

definition from_utf8 :: "string \<Rightarrow> string option" where
  "from_utf8 s = (if valid_utf8 s then Some s else None)"

lemma ascii_valid_utf8: "list_all (\<lambda>c. byte c < 0x80) s \<Longrightarrow> valid_utf8 s"
proof (induction s)
  case (Cons c s)
  then show ?case by (subst valid_utf8.simps) (simp add: utf8_step_def)
qed (simp add: valid_utf8.simps)

lemma from_utf8_Some: "from_utf8 s = Some t \<longleftrightarrow> t = s \<and> valid_utf8 s"
  by (auto simp: from_utf8_def)

section \<open>Slices\<close>

definition is_char_boundary :: "string \<Rightarrow> nat \<Rightarrow> bool" where
  "is_char_boundary s i \<longleftrightarrow> i = length s \<or> (i < length s \<and> \<not> byte_in 0x80 0xBF (s ! i))"

text \<open>\<open>s.get(i..j)\<close>; the indexing form \<open>s[i..j]\<close> panics where it gives \<open>None\<close>.\<close>

definition str_get :: "string \<Rightarrow> nat \<Rightarrow> nat \<Rightarrow> string option" where
  "str_get s i j =
     (if i \<le> j \<and> is_char_boundary s i \<and> is_char_boundary s j then Some (take (j - i) (drop i s)) else None)"

lemma str_get_length: "str_get s i j = Some t \<Longrightarrow> length t = j - i \<and> i \<le> j \<and> j \<le> length s"
  by (auto simp: str_get_def is_char_boundary_def split: if_splits)

lemma ascii_boundary: "list_all (\<lambda>c. byte c < 0x80) s \<Longrightarrow> i \<le> length s \<Longrightarrow> is_char_boundary s i"
  by (auto simp: is_char_boundary_def byte_in_def list_all_length le_less)

end
