(* ===== verification/Der.thy ===== *)
theory Der
  imports Utf8
begin

text \<open>
  The ASN.1 DER reader of \<open>crates/pm/src/provenance.rs\<close>: tag-length-value units, the times of a
  certificate's validity and the days of the civil calendar. Bytes are \<open>char\<close>s, tags are numbers.
  A panic of the code is a result of its own.
\<close>

datatype prov_error = Rejected string | Panicked

section \<open>Tag-length-value units\<close>

record tlv =
  tag :: nat
  raw :: string
  content :: string

definition read_len :: "string \<Rightarrow> (nat \<times> nat) option" where
  "read_len input =
     (let first = byte (input ! 1)
      in if first < 0x80 then Some (2, first)
         else let n = first mod 0x80
              in if n = 0 \<or> n > 4 \<or> length input < 2 + n then None
                 else Some (2 + n, foldl (\<lambda>len b. len * 256 + byte b) 0 (take n (drop 2 input))))"

definition read_tlv :: "string \<Rightarrow> tlv option" where
  "read_tlv input =
     (if length input < 2 then None
      else case read_len input of
        None \<Rightarrow> None
      | Some (idx, len) \<Rightarrow>
          if length input < idx + len then None
          else Some \<lparr>tag = byte (input ! 0), raw = take (idx + len) input, content = take len (drop idx input)\<rparr>)"

lemma read_tlv_bounds:
  assumes "read_tlv input = Some t"
  shows "prefix (raw t) input" and "suffix (content t) (raw t)" and "2 \<le> length (raw t)"
proof -
  obtain idx len where l: "read_len input = Some (idx, len)" "idx + len \<le> length input"
    and t: "raw t = take (idx + len) input" "content t = take len (drop idx input)"
    using assms by (auto simp: read_tlv_def split: if_splits option.splits)
  have idx: "2 \<le> idx" using l(1) by (auto simp: read_len_def Let_def split: if_splits)
  show "prefix (raw t) input" by (simp add: t take_is_prefix)
  have "take len (drop idx input) = drop idx (take (idx + len) input)" by (simp add: take_drop add.commute)
  then show "suffix (content t) (raw t)" by (simp add: t suffix_drop)
  show "2 \<le> length (raw t)" using idx l(2) by (simp add: t)
qed

function children :: "string \<Rightarrow> tlv list" where
  "children rest =
     (if rest = [] then []
      else case read_tlv rest of
        None \<Rightarrow> []
      | Some t \<Rightarrow> t # children (drop (length (raw t)) rest))"
  by pat_completeness auto
termination
  by (relation "measure length") (auto intro!: diff_less dest!: read_tlv_bounds(3))

declare children.simps [simp del]

text \<open>The units of a content are cut from its front, one after the other: no byte is read twice,
  and none beyond the end.\<close>

lemma children_prefix: "prefix (concat (map raw (children s))) s"
proof (induction s rule: children.induct)
  case (1 s)
  show ?case
  proof (cases "s = [] \<or> read_tlv s = None")
    case True
    then show ?thesis by (subst children.simps) auto
  next
    case False
    then obtain t where t: "read_tlv s = Some t" and s: "s \<noteq> []" by auto
    obtain u where u: "s = raw t @ u" using read_tlv_bounds(1) [OF t] by (auto elim: prefixE)
    have "prefix (concat (map raw (children u))) u" using 1 [OF s t] by (simp add: u)
    with t s show ?thesis by (subst children.simps) (simp add: u)
  qed
qed

section \<open>Encoding, and the round trip\<close>

text \<open>The DER encoding of a unit, with the shortest form of the length.\<close>

fun be_bytes :: "nat \<Rightarrow> nat \<Rightarrow> string" where
  "be_bytes 0 n = []"
| "be_bytes (Suc k) n = be_bytes k (n div 256) @ [char_of (n mod 256)]"

definition len_bytes :: "nat \<Rightarrow> nat" where
  "len_bytes n = (if n < 256 then 1 else if n < 256 ^ 2 then 2 else if n < 256 ^ 3 then 3 else 4)"

definition der_length :: "nat \<Rightarrow> string" where
  "der_length n =
     (if n < 0x80 then [char_of n] else char_of (0x80 + len_bytes n) # be_bytes (len_bytes n) n)"

definition der_encode :: "nat \<Rightarrow> string \<Rightarrow> string" where
  "der_encode t c = char_of t # der_length (length c) @ c"

lemma length_be_bytes [simp]: "length (be_bytes k n) = k"
  by (induction k arbitrary: n) simp_all

lemma be_bytes_val: "n < 256 ^ k \<Longrightarrow> foldl (\<lambda>len b. len * 256 + byte b) 0 (be_bytes k n) = n"
proof (induction k arbitrary: n)
  case (Suc k)
  then have "n div 256 < 256 ^ k" by (simp add: div_less_iff_less_mult mult.commute)
  with Suc.IH show ?case by (simp add: byte_def)
qed simp

lemma byte_char_of [simp]: "n < 256 \<Longrightarrow> byte (char_of n) = n"
  by (simp add: byte_def)

lemma read_len_der_length:
  assumes "n < 2 ^ 32"
  shows "read_len (x # der_length n @ r) = Some (1 + length (der_length n), n)"
proof (cases "n < 0x80")
  case True
  then show ?thesis by (simp add: read_len_def der_length_def)
next
  case False
  have k: "len_bytes n \<in> {1..4}" and n: "n < 256 ^ len_bytes n" using assms by (auto simp: len_bytes_def)
  have f: "byte (char_of (0x80 + len_bytes n)) = 0x80 + len_bytes n" using k by (intro byte_char_of) simp
  have "(0x80 + len_bytes n) mod 0x80 = len_bytes n" using k by simp
  with False k n f show ?thesis by (simp add: read_len_def der_length_def Let_def be_bytes_val)
qed

lemma read_tlv_encode:
  assumes "t < 256" and "length c < 2 ^ 32"
  shows "read_tlv (der_encode t c @ r) = Some \<lparr>tag = t, raw = der_encode t c, content = c\<rparr>"
proof -
  have "der_length (length c) \<noteq> []" by (simp add: der_length_def)
  moreover have "read_len (der_encode t c @ r) = Some (1 + length (der_length (length c)), length c)"
    using read_len_der_length [OF assms(2), of "char_of t" "c @ r"] by (simp add: der_encode_def)
  ultimately show ?thesis using assms(1) by (simp add: read_tlv_def der_encode_def Suc_le_eq)
qed

text \<open>
  Reading what DER writes: a content that is the concatenation of encoded
  units (with a tag of one byte and less than \<open>2^32\<close> bytes each) is cut by \<open>children\<close> into exactly
  those units, with their tags and contents and the bytes of each.
\<close>

theorem children_decode:
  assumes "list_all (\<lambda>(t, c). t < 256 \<and> length c < 2 ^ 32) units"
  shows "children (concat (map (\<lambda>(t, c). der_encode t c) units)) =
    map (\<lambda>(t, c). \<lparr>tag = t, raw = der_encode t c, content = c\<rparr>) units"
  using assms
proof (induction units)
  case (Cons u units)
  obtain t c where u: "u = (t, c)" by (cases u)
  let ?r = "concat (map (\<lambda>(t, c). der_encode t c) units)"
  have "read_tlv (der_encode t c @ ?r) = Some \<lparr>tag = t, raw = der_encode t c, content = c\<rparr>"
    using Cons.prems by (intro read_tlv_encode) (simp_all add: u)
  moreover have "der_encode t c \<noteq> []" by (simp add: der_encode_def)
  ultimately show ?case using Cons by (subst children.simps) (simp add: u)
qed (simp add: children.simps)

section \<open>The civil calendar\<close>

text \<open>\<open>days_from_civil\<close>: the era of a negative year divides towards zero, as \<open>i64\<close> division does.\<close>

definition days_from_civil :: "int \<Rightarrow> nat \<Rightarrow> nat \<Rightarrow> int" where
  "days_from_civil year m d =
     (let y = (if m \<le> 2 then year - 1 else year);
          era = (if y \<ge> 0 then y div 400 else - ((399 - y) div 400));
          yoe = y - era * 400;
          doy = (153 * (if m > 2 then int m - 3 else int m + 9) + 2) div 5 + int d - 1;
          doe = yoe * 365 + yoe div 4 - yoe div 100 + doy
      in era * 146097 + doe - 719468)"

text \<open>The proleptic Gregorian calendar.\<close>

definition leap_year :: "int \<Rightarrow> bool" where
  "leap_year y \<longleftrightarrow> y mod 4 = 0 \<and> (y mod 100 \<noteq> 0 \<or> y mod 400 = 0)"

definition days_in_month :: "int \<Rightarrow> nat \<Rightarrow> nat" where
  "days_in_month y m =
     (if m = 2 then (if leap_year y then 29 else 28) else if m \<in> {4, 6, 9, 11} then 30 else 31)"

definition valid_date :: "int \<Rightarrow> nat \<Rightarrow> nat \<Rightarrow> bool" where
  "valid_date y m d \<longleftrightarrow> 1 \<le> m \<and> m \<le> 12 \<and> 1 \<le> d \<and> d \<le> days_in_month y m"

definition next_date :: "int \<Rightarrow> nat \<Rightarrow> nat \<Rightarrow> int \<times> nat \<times> nat" where
  "next_date y m d =
     (if d < days_in_month y m then (y, m, d + 1) else if m < 12 then (y, m + 1, 1) else (y + 1, 1, 1))"

lemma era_floor: "(if y \<ge> 0 then y div 400 else - ((399 - y) div 400)) = y div (400 :: int)"
proof (cases "y \<ge> 0")
  case False
  define q where "q = (399 - y) div 400"
  have "(399 - y) = 400 * q + (399 - y) mod 400" by (simp add: q_def)
  then have "y = 400 * (- q) + (399 - (399 - y) mod 400)" by linarith
  moreover have "0 \<le> 399 - (399 - y) mod 400" "399 - (399 - y) mod 400 < 400"
    using pos_mod_bound [of 400 "399 - y"] pos_mod_sign [of 400 "399 - y"] by linarith+
  ultimately have "y div 400 = - q" by (rule int_div_pos_eq)
  with False show ?thesis by (simp add: q_def)
qed simp

text \<open>Days of the years (counted from March) before year \<open>y\<close>.\<close>

definition year_days :: "int \<Rightarrow> int" where
  "year_days y = 365 * y + y div 4 - y div 100 + y div 400"

lemma days_from_civil_closed:
  "days_from_civil year m d =
     (let y = (if m \<le> 2 then year - 1 else year)
      in year_days y + (153 * (if m > 2 then int m - 3 else int m + 9) + 2) div 5 + int d - 1 - 719468)"
proof -
  have "(y div 400) * 146097 + ((y - y div 400 * 400) * 365 + (y - y div 400 * 400) div 4 - (y - y div 400 * 400) div 100)
      = year_days y" for y :: int
  proof -
    obtain e r where y: "y = 400 * e + r" "0 \<le> r" "r < 400"
      by (metis mult_div_mod_eq pos_mod_bound pos_mod_sign zero_less_numeral)
    have q: "y div 400 = e" "y div 4 = 100 * e + r div 4" "y div 100 = 4 * e + r div 100" using y by auto
    show ?thesis unfolding q year_days_def by (simp add: y)
  qed
  then show ?thesis unfolding days_from_civil_def era_floor by (simp add: Let_def)
qed

lemma div_step: "y div k = (y - 1) div k + (if y mod k = 0 then 1 else 0)" if "0 < k" for y k :: int
proof (cases "y mod k = 0")
  case True
  then obtain q where y: "y = k * q" by auto
  have "(y - 1) div k = q - 1" using that by (intro int_div_pos_eq [of _ _ _ "k - 1"]) (simp_all add: y algebra_simps)
  with True that show ?thesis by (simp add: y)
next
  case False
  have "0 \<le> y mod k" using that by simp
  with False have "0 < y mod k" by linarith
  have "y - 1 = k * (y div k) + (y mod k - 1)" by simp
  then have "(y - 1) div k = y div k"
    by (rule int_div_pos_eq) (use \<open>0 < y mod k\<close> that pos_mod_bound [of k y] in linarith)+
  with False show ?thesis by simp
qed

lemma year_days_step: "year_days y = year_days (y - 1) + (if leap_year y then 366 else 365)"
proof -
  have "400 dvd y \<Longrightarrow> 100 dvd y" "100 dvd y \<Longrightarrow> 4 dvd y" by (rule dvd_trans; simp)+
  then have "y mod 400 = 0 \<Longrightarrow> y mod 100 = 0" "y mod 100 = 0 \<Longrightarrow> y mod 4 = 0" by (simp_all add: dvd_eq_mod_eq_0)
  then show ?thesis
    unfolding year_days_def leap_year_def div_step [of 4 y, simplified] div_step [of 100 y, simplified]
      div_step [of 400 y, simplified]
    by (cases "y mod 4 = 0"; cases "y mod 100 = 0"; cases "y mod 400 = 0") simp_all
qed

lemma month_cases:
  "1 \<le> m \<Longrightarrow> m \<le> 12 \<Longrightarrow> m \<in> {1, 2, 3, 4, 5, 6, 7, 8, 9, 10, 11, 12 :: nat}"
  unfolding insert_iff empty_iff by presburger

text \<open>
  \<open>days_from_civil\<close> numbers the days of the Gregorian calendar: 1 January
  1970 is day 0, and the day after a valid date (the next day of the month, the first of the next
  month, or 1 January) has the next number, in every year, leap years included.
\<close>

theorem days_from_civil_counts_days:
  assumes "valid_date y m d"
  shows "days_from_civil 1970 1 1 = 0 \<and>
    (case next_date y m d of (y', m', d') \<Rightarrow> days_from_civil y' m' d' = days_from_civil y m d + 1)"
proof (cases "d < days_in_month y m")
  case True
  then show ?thesis by (simp add: next_date_def days_from_civil_closed Let_def) (simp add: year_days_def)
next
  case False
  with assms have d: "d = days_in_month y m" and m: "1 \<le> m" "m \<le> 12" by (auto simp: valid_date_def)
  show ?thesis
    using month_cases [OF m] unfolding d
    by (elim insertE emptyE)
      (simp_all add: next_date_def days_from_civil_closed Let_def days_in_month_def year_days_step [of y],
       simp_all add: year_days_def)
qed

end
