(* ===== verification/Certificate.thy ===== *)
theory Certificate
  imports Der
begin

text \<open>
  X.509 certificates and the chain to the pinned Fulcio roots (\<open>crates/pm/src/provenance.rs\<close>).
  The elliptic-curve, hash and encoding crates are the fields of a parameter record; the embedded
  trust anchors, decoded, are another. The text of an error that comes from one of the crates is
  not modelled: such a message ends before it.
\<close>

section \<open>What the crates provide\<close>

record crypto =
  p256_point :: "string \<Rightarrow> bool"
  p384_point :: "string \<Rightarrow> bool"
  sha256 :: "string \<Rightarrow> string"
  sha384 :: "string \<Rightarrow> string"
  sig256_der :: "string \<Rightarrow> bool"
  sig384_der :: "string \<Rightarrow> bool"
  verify256 :: "string \<Rightarrow> string \<Rightarrow> string \<Rightarrow> bool"
  verify384 :: "string \<Rightarrow> string \<Rightarrow> string \<Rightarrow> bool"
  b64_decode :: "string \<Rightarrow> string option"
  b64_encode :: "string \<Rightarrow> string"
  hex_encode :: "string \<Rightarrow> string"

record anchors =
  root_v0 :: string
  root_v1 :: string
  intermediate_v1 :: string
  rekor_spki :: string

definition fulcio_roots :: "anchors \<Rightarrow> string list" where
  "fulcio_roots A = [root_v0 A, root_v1 A]"

definition fulcio_intermediates :: "anchors \<Rightarrow> string list" where
  "fulcio_intermediates A = [intermediate_v1 A]"

definition decode_b64 :: "crypto \<Rightarrow> string \<Rightarrow> string \<Rightarrow> prov_error + string" where
  "decode_b64 K s what = ok_or (Rejected (what @ '': invalid base64: '')) (b64_decode K s)"

section \<open>Public keys\<close>

datatype ec_public_key = P256 string | P384 string

definition OID_EC_PUBLIC_KEY :: string where
  "OID_EC_PUBLIC_KEY = map char_of [0x2a, 0x86, 0x48, 0xce, 0x3d, 0x02, 0x01 :: nat]"

definition OID_P256 :: string where
  "OID_P256 = map char_of [0x2a, 0x86, 0x48, 0xce, 0x3d, 0x03, 0x01, 0x07 :: nat]"

definition OID_P384 :: string where
  "OID_P384 = map char_of [0x2b, 0x81, 0x04, 0x00, 0x22 :: nat]"

definition curve_is :: "string \<Rightarrow> tlv list \<Rightarrow> bool" where
  "curve_is oid parts \<longleftrightarrow> (case parts of _ # c # _ \<Rightarrow> tag c = 0x06 \<and> content c = oid | _ \<Rightarrow> False)"

definition spki_public_key :: "crypto \<Rightarrow> tlv \<Rightarrow> prov_error + ec_public_key" where
  "spki_public_key K spki =
     (case children (content spki) of
        [alg, bitstring] \<Rightarrow>
          if tag alg \<noteq> 0x30 \<or> tag bitstring \<noteq> 0x03 \<or> take 1 (content bitstring) \<noteq> [CHR 0x00]
          then Inl (Rejected ''SPKI is not an EC subjectPublicKey'')
          else let alg_parts = children (content alg); point = drop 1 (content bitstring)
               in (case alg_parts of
                    [] \<Rightarrow> Inl (Rejected ''SPKI has no key algorithm'')
                  | oid # _ \<Rightarrow>
                      if content oid \<noteq> OID_EC_PUBLIC_KEY then Inl (Rejected ''SPKI key is not EC'')
                      else if curve_is OID_P256 alg_parts then
                        (if p256_point K point then Inr (P256 point) else Inl (Rejected ''invalid P-256 point: ''))
                      else if curve_is OID_P384 alg_parts then
                        (if p384_point K point then Inr (P384 point) else Inl (Rejected ''invalid P-384 point: ''))
                      else Inl (Rejected ''unsupported EC curve in certificate''))
      | _ \<Rightarrow> Inl (Rejected ''malformed SPKI''))"

definition extract_ec_public_key :: "crypto \<Rightarrow> string \<Rightarrow> prov_error + ec_public_key" where
  "extract_ec_public_key K cert_der =
     and_then (ok_or (Rejected ''malformed certificate: outer SEQUENCE'') (read_tlv cert_der)) (\<lambda>cert.
       case children (content cert) of
         [] \<Rightarrow> Inl (Rejected ''certificate has no TBS'')
       | t # _ \<Rightarrow>
           if tag t \<noteq> 0x30 then Inl (Rejected ''TBS not a SEQUENCE'')
           else case List.find (\<lambda>elem. tag elem = 0x30 \<and> take 1 (content elem) = [CHR 0x30]) (children (content t)) of
                  Some elem \<Rightarrow> spki_public_key K elem
                | None \<Rightarrow> Inl (Rejected ''no EC SubjectPublicKeyInfo found in certificate''))"

section \<open>Times\<close>

text \<open>\<open>str::parse::<i64>\<close>.\<close>

definition parse_i64 :: "string \<Rightarrow> int option" where
  "parse_i64 s =
     (case s of
        CHR ''-'' # ds \<Rightarrow>
          if ds \<noteq> [] \<and> list_all is_digit ds \<and> digits_val ds \<le> 2 ^ 63 then Some (- int (digits_val ds)) else None
      | _ \<Rightarrow> map_option int (parse_uint (2 ^ 63 - 1) s))"

definition index_str :: "string \<Rightarrow> nat \<Rightarrow> nat \<Rightarrow> prov_error + string" where
  "index_str s i j = ok_or Panicked (str_get s i j)"

text \<open>The two digits at an offset: \<open>rest.get(i..i + 2)?.parse::<u32>().ok()?\<close>.\<close>

definition two_digits :: "string \<Rightarrow> nat \<Rightarrow> nat option" where
  "two_digits rest i = Option.bind (str_get rest i (i + 2)) (parse_uint u32_max)"

definition time_fields :: "int \<Rightarrow> string \<Rightarrow> int option" where
  "time_fields year rest =
     Option.bind (two_digits rest 0) (\<lambda>mon.
     Option.bind (two_digits rest 2) (\<lambda>day.
     Option.bind (two_digits rest 4) (\<lambda>hh.
     Option.bind (two_digits rest 6) (\<lambda>mm.
     Option.bind (two_digits rest 8) (\<lambda>ss.
       Some (days_from_civil year mon day * 86400 + int hh * 3600 + int mm * 60 + int ss))))))"

text \<open>The year and what follows it. The year is cut with an index, which panics inside a character
  of more than one byte; everything else is cut with \<open>get\<close>.\<close>

definition time_year :: "nat \<Rightarrow> string \<Rightarrow> prov_error + (int \<times> string) option" where
  "time_year t s =
     (if t = 0x18 then
        (case str_get s 0 14 of
           None \<Rightarrow> Inr None
         | Some d \<Rightarrow> and_then (index_str d 0 4) (\<lambda>y.
             case parse_i64 y of
               None \<Rightarrow> Inr None
             | Some year \<Rightarrow> and_then (index_str d 4 14) (\<lambda>rest. Inr (Some (year, rest)))))
      else if t = 0x17 then
        (case str_get s 0 12 of
           None \<Rightarrow> Inr None
         | Some d \<Rightarrow> and_then (index_str d 0 2) (\<lambda>y.
             case parse_i64 y of
               None \<Rightarrow> Inr None
             | Some yy \<Rightarrow> and_then (index_str d 2 12) (\<lambda>rest.
                 Inr (Some (if yy < 50 then 2000 + yy else 1900 + yy, rest)))))
      else Inr None)"

definition parse_time :: "tlv \<Rightarrow> prov_error + int option" where
  "parse_time t =
     (case from_utf8 (content t) of
        None \<Rightarrow> Inr None
      | Some s \<Rightarrow>
          (case strip_suffix_str ''Z'' s of
             Some s' \<Rightarrow> map_sum id (\<lambda>yr. Option.bind yr (\<lambda>(year, rest). time_fields year rest)) (time_year (tag t) s')
           | None \<Rightarrow>
               (case strip_suffix_str ''z'' s of
                  Some s' \<Rightarrow> map_sum id (\<lambda>yr. Option.bind yr (\<lambda>(year, rest). time_fields year rest)) (time_year (tag t) s')
                | None \<Rightarrow> Inr None)))"

section \<open>Certificates\<close>

datatype sig_hash = Sha256 | Sha384

record parsed_cert =
  der :: string
  tbs :: string
  issuer :: string
  subject :: string
  key :: ec_public_key
  cert_hash :: sig_hash
  signature :: string
  not_before :: int
  not_after :: int
  extensions :: "(string \<times> string) list"

definition OID_BASIC_CONSTRAINTS :: string where
  "OID_BASIC_CONSTRAINTS = map char_of [0x55, 0x1d, 0x13 :: nat]"

definition OID_EXT_KEY_USAGE :: string where
  "OID_EXT_KEY_USAGE = map char_of [0x55, 0x1d, 0x25 :: nat]"

definition OID_CODE_SIGNING :: string where
  "OID_CODE_SIGNING = map char_of [0x2b, 0x06, 0x01, 0x05, 0x05, 0x07, 0x03, 0x03 :: nat]"

definition FULCIO_ROOT_V0_END :: int where
  "FULCIO_ROOT_V0_END = 1672531199"

definition extension :: "parsed_cert \<Rightarrow> string \<Rightarrow> string option" where
  "extension c oid = map_option snd (List.find (\<lambda>(o', _). o' = oid) (extensions c))"

definition is_ca :: "parsed_cert \<Rightarrow> bool" where
  "is_ca c \<longleftrightarrow>
     (case Option.bind (extension c OID_BASIC_CONSTRAINTS) read_tlv of
        None \<Rightarrow> False
      | Some seq \<Rightarrow>
          (case children (content seq) of
             [] \<Rightarrow> False
           | b # _ \<Rightarrow> raw b = map char_of [0x01, 0x01, 0xff :: nat]))"

definition has_code_signing_eku :: "parsed_cert \<Rightarrow> bool" where
  "has_code_signing_eku c \<longleftrightarrow>
     (case Option.bind (extension c OID_EXT_KEY_USAGE) read_tlv of
        None \<Rightarrow> False
      | Some seq \<Rightarrow> list_ex (\<lambda>u. tag u = 0x06 \<and> content u = OID_CODE_SIGNING) (children (content seq)))"

text \<open>The extensions, from the optional fields after the key (\<open>[3]\<close> only): an extension without an
  identifier or a value is left out.\<close>

definition read_extension :: "tlv \<Rightarrow> (string \<times> string) option" where
  "read_extension ext =
     (let parts = children (content ext);
          oid = (case parts of p # _ \<Rightarrow> if tag p = 0x06 then Some p else None | [] \<Rightarrow> None)
      in Option.bind oid (\<lambda>oid.
           map_option (\<lambda>v. (content oid, content v)) (List.find (\<lambda>v. tag v = 0x04) (rev parts))))"

definition read_extensions :: "tlv list \<Rightarrow> (string \<times> string) list" where
  "read_extensions rest =
     concat (map (\<lambda>t. case read_tlv (content t) of
                        None \<Rightarrow> []
                      | Some seq \<Rightarrow> List.map_filter read_extension (children (content seq)))
        (filter (\<lambda>t. tag t = 0xa3) rest))"

text \<open>The next field of the TBS: present and with the expected tag.\<close>

definition tagged :: "nat \<Rightarrow> string \<Rightarrow> tlv list \<Rightarrow> nat \<Rightarrow> prov_error + tlv" where
  "tagged t what fs i =
     (if i < length fs \<and> tag (fs ! i) = t then Inr (fs ! i) else Inl (Rejected what))"

definition read_hash :: "tlv \<Rightarrow> prov_error + sig_hash" where
  "read_hash sig_alg =
     (let alg_oid = (case children (content sig_alg) of
                       t # _ \<Rightarrow> if tag t = 0x06 then content t else []
                     | [] \<Rightarrow> [])
      in if alg_oid = map char_of [0x2a, 0x86, 0x48, 0xce, 0x3d, 0x04, 0x03, 0x02 :: nat] then Inr Sha256
         else if alg_oid = map char_of [0x2a, 0x86, 0x48, 0xce, 0x3d, 0x04, 0x03, 0x03 :: nat] then Inr Sha384
         else Inl (Rejected ''unsupported certificate signature algorithm''))"

definition read_validity :: "tlv list \<Rightarrow> nat \<Rightarrow> string \<Rightarrow> prov_error + int" where
  "read_validity vt i what =
     (if i < length vt
      then and_then (parse_time (vt ! i)) (\<lambda>t. ok_or (Rejected (''malformed '' @ what)) t)
      else Inl (Rejected (''validity missing '' @ what)))"

text \<open>The fields of the TBS in order, once the optional version is skipped.\<close>

definition parse_tbs :: "crypto \<Rightarrow> string \<Rightarrow> tlv \<Rightarrow> tlv \<Rightarrow> tlv \<Rightarrow> tlv list \<Rightarrow> prov_error + parsed_cert" where
  "parse_tbs K d t sig_alg sig_value fs =
     and_then (tagged 0x02 ''TBS missing serialNumber'' fs 0) (\<lambda>_.
     and_then (tagged 0x30 ''TBS missing signature'' fs 1) (\<lambda>_.
     and_then (tagged 0x30 ''TBS missing issuer'' fs 2) (\<lambda>iss.
     and_then (tagged 0x30 ''TBS missing validity'' fs 3) (\<lambda>validity.
     and_then (tagged 0x30 ''TBS missing subject'' fs 4) (\<lambda>subj.
     and_then (tagged 0x30 ''TBS missing SPKI'' fs 5) (\<lambda>spki.
     and_then (spki_public_key K spki) (\<lambda>k.
     and_then (read_hash sig_alg) (\<lambda>h.
     and_then (ensure (take 1 (content sig_value) = [CHR 0x00])
       (Rejected ''malformed signatureValue bit string'')) (\<lambda>_.
     and_then (read_validity (children (content validity)) 0 ''notBefore'') (\<lambda>nb.
     and_then (read_validity (children (content validity)) 1 ''notAfter'') (\<lambda>na.
       Inr \<lparr>der = d, tbs = raw t, issuer = raw iss, subject = raw subj, key = k, cert_hash = h,
            signature = drop 1 (content sig_value), not_before = nb, not_after = na,
            extensions = read_extensions (drop 6 fs)\<rparr>)))))))))))"

definition parse_cert :: "crypto \<Rightarrow> string \<Rightarrow> prov_error + parsed_cert" where
  "parse_cert K d =
     and_then (ok_or (Rejected ''malformed certificate: outer SEQUENCE'') (read_tlv d)) (\<lambda>cert.
     and_then (ensure (tag cert = 0x30) (Rejected ''certificate outer is not a SEQUENCE'')) (\<lambda>_.
     (case children (content cert) of
        [] \<Rightarrow> Inl (Rejected ''certificate has no TBS'')
      | [_] \<Rightarrow> Inl (Rejected ''certificate has no signature algorithm'')
      | [_, _] \<Rightarrow> Inl (Rejected ''certificate has no signature value'')
      | t # sig_alg # sig_value # _ \<Rightarrow>
          and_then (ensure (tag t = 0x30 \<and> tag sig_alg = 0x30 \<and> tag sig_value = 0x03)
            (Rejected ''malformed certificate structure'')) (\<lambda>_.
          (case children (content t) of
             [] \<Rightarrow> Inl (Rejected ''empty TBSCertificate'')
           | first # others \<Rightarrow>
               parse_tbs K d t sig_alg sig_value (if tag first = 0xa0 then others else first # others))))))"

definition verify_ecdsa :: "crypto \<Rightarrow> ec_public_key \<Rightarrow> sig_hash \<Rightarrow> string \<Rightarrow> string \<Rightarrow> prov_error + unit" where
  "verify_ecdsa K k h msg sig =
     (case (k, h) of
        (P256 p, Sha256) \<Rightarrow>
          and_then (ensure (sig256_der K sig) (Rejected ''bad DER signature: '')) (\<lambda>_.
            ensure (verify256 K p (sha256 K msg) sig) (Rejected ''ECDSA signature mismatch''))
      | (P256 p, Sha384) \<Rightarrow>
          and_then (ensure (sig256_der K sig) (Rejected ''bad DER signature: '')) (\<lambda>_.
            ensure (verify256 K p (sha384 K msg) sig) (Rejected ''ECDSA signature mismatch''))
      | (P384 p, Sha384) \<Rightarrow>
          and_then (ensure (sig384_der K sig) (Rejected ''bad DER signature: '')) (\<lambda>_.
            ensure (verify384 K p (sha384 K msg) sig) (Rejected ''ECDSA signature mismatch''))
      | (P384 p, Sha256) \<Rightarrow> Inl (Rejected ''P-384 certificate signed with SHA-256 is unsupported''))"

section \<open>The chain to a pinned root\<close>

definition valid_at :: "parsed_cert \<Rightarrow> int \<Rightarrow> bool" where
  "valid_at c as_of \<longleftrightarrow> not_before c \<le> as_of \<and> as_of \<le> not_after c"

text \<open>The inner loop: the first candidate that parses, is named as the issuer, is a CA, verifies the
  current certificate and was valid.\<close>

fun find_issuer :: "crypto \<Rightarrow> int \<Rightarrow> parsed_cert \<Rightarrow> string list \<Rightarrow> prov_error + parsed_cert option" where
  "find_issuer K as_of current [] = Inr None"
| "find_issuer K as_of current (d # ds) =
     (case parse_cert K d of
        Inl Panicked \<Rightarrow> Inl Panicked
      | Inl (Rejected _) \<Rightarrow> find_issuer K as_of current ds
      | Inr candidate \<Rightarrow>
          if subject candidate \<noteq> issuer current then find_issuer K as_of current ds
          else if \<not> is_ca candidate then find_issuer K as_of current ds
          else if verify_ecdsa K (key candidate) (cert_hash current) (tbs current) (signature current) \<noteq> Inr ()
          then find_issuer K as_of current ds
          else if valid_at candidate as_of then Inr (Some candidate)
          else find_issuer K as_of current ds)"

fun climb_chain :: "nat \<Rightarrow> crypto \<Rightarrow> anchors \<Rightarrow> string list \<Rightarrow> int \<Rightarrow> parsed_cert \<Rightarrow> prov_error + unit" where
  "climb_chain 0 K A candidates as_of current = Inl (Rejected ''certificate chain too deep'')"
| "climb_chain (Suc n) K A candidates as_of current =
     (if der current \<in> set (fulcio_roots A) then
        (if der current = root_v0 A \<and> as_of > FULCIO_ROOT_V0_END
         then Inl (Rejected ''Fulcio V0 root was retired at the end of 2022'')
         else Inr ())
      else and_then (find_issuer K as_of current (candidates @ fulcio_roots A)) (\<lambda>found.
        case found of
          None \<Rightarrow> Inl (Rejected ''provenance certificate is not issued by a pinned Fulcio CA'')
        | Some c \<Rightarrow> climb_chain n K A candidates as_of c))"

definition verify_fulcio_chain :: "crypto \<Rightarrow> anchors \<Rightarrow> string \<Rightarrow> string list \<Rightarrow> int \<Rightarrow> prov_error + unit" where
  "verify_fulcio_chain K A leaf_der bundle_chain as_of =
     and_then (parse_cert K leaf_der) (\<lambda>current.
     and_then (ensure (\<not> is_ca current \<and> has_code_signing_eku current)
       (Rejected ''provenance certificate is not a code-signing leaf'')) (\<lambda>_.
     and_then (ensure (valid_at current as_of)
       (Rejected ''provenance certificate not valid at tlog integration time'')) (\<lambda>_.
       climb_chain 4 K A (bundle_chain @ fulcio_intermediates A) as_of current)))"

definition issues :: "crypto \<Rightarrow> int \<Rightarrow> parsed_cert \<Rightarrow> parsed_cert \<Rightarrow> bool" where
  "issues K as_of c ca \<longleftrightarrow>
     subject ca = issuer c \<and> is_ca ca \<and> verify_ecdsa K (key ca) (cert_hash c) (tbs c) (signature c) = Inr () \<and>
     valid_at ca as_of"

fun linked :: "crypto \<Rightarrow> int \<Rightarrow> parsed_cert list \<Rightarrow> bool" where
  "linked K as_of (c # ca # cs) \<longleftrightarrow> issues K as_of c ca \<and> linked K as_of (ca # cs)"
| "linked K as_of _ \<longleftrightarrow> True"

lemma find_issuer_issues:
  "find_issuer K as_of c ds = Inr (Some ca) \<Longrightarrow> issues K as_of c ca \<and> (\<exists>d \<in> set ds. parse_cert K d = Inr ca)"
proof (induction ds)
  case (Cons d ds)
  show ?case
  proof (cases "parse_cert K d")
    case (Inl e)
    with Cons show ?thesis by (cases e) auto
  next
    case (Inr c')
    with Cons show ?thesis by (auto simp: issues_def split: if_splits)
  qed
qed simp

lemma climb_chain_linked:
  assumes "climb_chain n K A candidates as_of c = Inr ()"
  shows "\<exists>cs. linked K as_of (c # cs) \<and> length cs < n \<and> der (last (c # cs)) \<in> set (fulcio_roots A) \<and>
    (der (last (c # cs)) = root_v0 A \<longrightarrow> as_of \<le> FULCIO_ROOT_V0_END)"
  using assms
proof (induction n arbitrary: c)
  case (Suc n)
  show ?case
  proof (cases "der c \<in> set (fulcio_roots A)")
    case True
    with Suc.prems show ?thesis by (intro exI [of _ "[]"]) (auto split: if_splits)
  next
    case False
    with Suc.prems obtain ca where f: "find_issuer K as_of c (candidates @ fulcio_roots A) = Inr (Some ca)"
      and climb: "climb_chain n K A candidates as_of ca = Inr ()"
      by (auto simp: and_then_Inr split: option.splits)
    from Suc.IH [OF climb] obtain cs where "linked K as_of (ca # cs)" "length cs < n"
      "der (last (ca # cs)) \<in> set (fulcio_roots A)" "der (last (ca # cs)) = root_v0 A \<longrightarrow> as_of \<le> FULCIO_ROOT_V0_END"
      by blast
    with find_issuer_issues [OF f] show ?thesis by (intro exI [of _ "ca # cs"]) simp
  qed
qed simp


section \<open>The key of the certificate\<close>

text \<open>The fields of a TBS before the key, as they are in a certificate: an algorithm starts with an
  object identifier, a name with a SET (or is empty), a validity with a time; none of them with
  the tag of a SEQUENCE.\<close>

definition plain_field :: "tlv \<Rightarrow> bool" where
  "plain_field t \<longleftrightarrow> take 1 (content t) \<noteq> [CHR 0x30]"

definition tbs_fields :: "string \<Rightarrow> tlv list" where
  "tbs_fields d =
     (case read_tlv d of
        None \<Rightarrow> []
      | Some cert \<Rightarrow> (case children (content cert) of [] \<Rightarrow> [] | t # _ \<Rightarrow>
          (case children (content t) of [] \<Rightarrow> [] | first # others \<Rightarrow> if tag first = 0xa0 then others else first # others)))"

lemma children_first_tag:
  assumes "children s = t # ts"
  shows "take 1 s = [char_of (tag t)]"
proof -
  have "s \<noteq> []" "read_tlv s = Some t" using assms by (subst (asm) children.simps, auto split: if_splits option.splits)+
  then show ?thesis
    by (cases s) (auto simp: read_tlv_def byte_def split: if_splits option.splits)
qed

lemma spki_first_tag: "spki_public_key K s = Inr k \<Longrightarrow> take 1 (content s) = [CHR 0x30]"
proof -
  assume "spki_public_key K s = Inr k"
  then obtain alg bits where c: "children (content s) = [alg, bits]" "tag alg = 0x30"
    by (auto simp: spki_public_key_def Let_def split: list.splits if_splits)
  have "char_of (0x30 :: nat) = CHR 0x30" by code_simp
  with c children_first_tag [OF c(1)] show ?thesis by simp
qed

lemma find_append_first: "list_all (Not \<circ> P) xs \<Longrightarrow> P y \<Longrightarrow> List.find P (xs @ y # ys) = Some y"
  by (induction xs) auto

lemma tagged_Inr: "tagged t what fs i = Inr x \<longleftrightarrow> i < length fs \<and> tag (fs ! i) = t \<and> x = fs ! i"
  by (auto simp: tagged_def)

lemma parse_cert_fields:
  assumes "parse_cert K d = Inr c"
  obtains cert t ts first where "read_tlv d = Some cert" "children (content cert) = t # ts" "tag t = 0x30"
    "children (content t) = (if tag first = 0xa0 then first # tbs_fields d else tbs_fields d)"
    "5 < length (tbs_fields d)" "tag (tbs_fields d ! 0) = 0x02" "tag (tbs_fields d ! 5) = 0x30"
    "spki_public_key K (tbs_fields d ! 5) = Inr (key c)"
proof -
  obtain cert where cert: "read_tlv d = Some cert" using assms by (auto simp: parse_cert_def result_simps)
  obtain t sig_alg sig_value ts where cs: "children (content cert) = t # sig_alg # sig_value # ts"
  proof (cases "children (content cert)")
    case (Cons t us)
    with assms cert that show thesis
      by (cases us; cases "tl us") (auto simp: parse_cert_def result_simps ok_or_def)
  qed (use assms cert in \<open>simp add: parse_cert_def result_simps ok_or_def\<close>)
  obtain first others where t: "children (content t) = first # others"
    using assms cert cs by (cases "children (content t)") (auto simp: parse_cert_def result_simps ok_or_def)
  have p: "tag t = 0x30" "parse_tbs K d t sig_alg sig_value (if tag first = 0xa0 then others else first # others) = Inr c"
    using assms cert cs t by (auto simp: parse_cert_def result_simps ok_or_def)
  note d = cert cs p(1)
  have fs: "tbs_fields d = (if tag first = 0xa0 then others else first # others)"
    by (simp add: tbs_fields_def d t)
  have "5 < length (tbs_fields d) \<and> tag (tbs_fields d ! 0) = 0x02 \<and> tag (tbs_fields d ! 5) = 0x30 \<and>
      spki_public_key K (tbs_fields d ! 5) = Inr (key c)"
    using p(2) unfolding fs [symmetric] parse_tbs_def by (auto simp: result_simps tagged_Inr)
  with d t show thesis by (intro that [of cert t "sig_alg # sig_value # ts" first]) (auto simp: fs)
qed

text \<open>
  The attestation's signature is checked with the key that
  \<open>extract_ec_public_key\<close> finds in the leaf, while the chain to the Fulcio root is checked for
  the certificate that \<open>parse_cert\<close> reads. For every certificate that parses and whose fields before
  the key do not themselves start with a SEQUENCE the two routines find the same key, so the key
  that signed the attestation is the one Fulcio certified.
\<close>

theorem signing_key_is_certified_key:
  assumes "parse_cert K d = Inr c" and "list_all plain_field (take 5 (tbs_fields d))"
  shows "extract_ec_public_key K d = Inr (key c)"
proof -
  obtain cert t ts first where d: "read_tlv d = Some cert" "children (content cert) = t # ts" "tag t = 0x30"
    and t: "children (content t) = (if tag first = 0xa0 then first # tbs_fields d else tbs_fields d)"
    and fs: "5 < length (tbs_fields d)" "tag (tbs_fields d ! 0) = 0x02" "tag (tbs_fields d ! 5) = 0x30"
      "spki_public_key K (tbs_fields d ! 5) = Inr (key c)"
    by (rule parse_cert_fields [OF assms(1)])
  let ?P = "\<lambda>elem. tag elem = 0x30 \<and> take 1 (content elem) = [CHR 0x30]"
  let ?pre = "(if tag first = 0xa0 then [first] else []) @ take 5 (tbs_fields d)"
  have split: "children (content t) = ?pre @ tbs_fields d ! 5 # drop 6 (tbs_fields d)"
    using t id_take_nth_drop [OF fs(1)] by simp
  have "list_all (Not \<circ> ?P) ?pre"
    using assms(2) by (auto simp: plain_field_def list_all_iff)
  then have "List.find ?P (children (content t)) = Some (tbs_fields d ! 5)"
    unfolding split by (rule find_append_first) (use fs spki_first_tag [OF fs(4)] in simp)
  with d fs(4) show ?thesis by (simp add: extract_ec_public_key_def ok_or_def)
qed

section \<open>A chain of two certificates\<close>

text \<open>A certificate in DER, for the examples: a leaf with the code-signing usage or a CA.\<close>

definition demo_name :: "string \<Rightarrow> string" where
  "demo_name n = der_encode 0x30 (der_encode 0x31 n)"

definition demo_spki :: "string \<Rightarrow> string" where
  "demo_spki p =
     der_encode 0x30 (der_encode 0x30 (der_encode 0x06 OID_EC_PUBLIC_KEY @ der_encode 0x06 OID_P256) @
       der_encode 0x03 (CHR 0x00 # p))"

definition demo_cert :: "string \<Rightarrow> string \<Rightarrow> (string \<times> string) list \<Rightarrow> string" where
  "demo_cert iss subj exts =
     (let alg = der_encode 0x30 (der_encode 0x06 (map char_of [0x2a, 0x86, 0x48, 0xce, 0x3d, 0x04, 0x03, 0x02 :: nat]));
          t = der_encode 0x30 (der_encode 0x02 [CHR 0x01] @ alg @ demo_name iss @
                der_encode 0x30 (der_encode 0x17 ''220101000000Z'' @ der_encode 0x17 ''300101000000Z'') @
                demo_name subj @ demo_spki ''k'' @
                der_encode 0xa3 (der_encode 0x30 (concat (map (\<lambda>(oid, v).
                  der_encode 0x30 (der_encode 0x06 oid @ der_encode 0x04 v)) exts))))
      in der_encode 0x30 (t @ alg @ der_encode 0x03 (CHR 0x00 # ''s'')))"

definition demo_leaf :: string where
  "demo_leaf = demo_cert ''r'' ''l'' [(OID_EXT_KEY_USAGE, der_encode 0x30 (der_encode 0x06 OID_CODE_SIGNING))]"

definition demo_root :: string where
  "demo_root = demo_cert ''r'' ''r'' [(OID_BASIC_CONSTRAINTS, der_encode 0x30 (map char_of [0x01, 0x01, 0xff :: nat]))]"

definition demo_crypto :: crypto where
  "demo_crypto =
     \<lparr>p256_point = (\<lambda>_. True), p384_point = (\<lambda>_. True), sha256 = (\<lambda>x. x), sha384 = (\<lambda>x. x),
      sig256_der = (\<lambda>_. True), sig384_der = (\<lambda>_. True), verify256 = (\<lambda>p m s. p = ''k'' \<and> s = ''s''),
      verify384 = (\<lambda>p m s. False), b64_decode = Some, b64_encode = (\<lambda>x. x), hex_encode = (\<lambda>x. x)\<rparr>"

definition demo_anchors :: anchors where
  "demo_anchors = \<lparr>root_v0 = ''v0'', root_v1 = demo_root, intermediate_v1 = ''i'', rekor_spki = demo_spki ''k''\<rparr>"


text \<open>A certificate that cannot be read, or an issuer that is no CA, stops nothing: the search goes
  on. But a time with a character of two bytes across the end of its year panics.\<close>

lemma parse_time_panics:
  "parse_time \<lparr>tag = 0x17, raw = [], content = CHR ''1'' # [CHR 0xC3, CHR 0xA9] @ ''101000000Z''\<rparr> = Inl Panicked"
  by code_simp

end
