(* ===== verification/Merkle.thy ===== *)
theory Merkle
  imports Json
begin

text \<open>
  The Merkle inclusion proofs of the transparency log: the hashes and the climb of
  \<open>crates/pm/src/provenance.rs\<close>, against the tree head and the audit path of RFC 6962. Byte strings
  are \<open>string\<close>s; the hash function (the crate \<open>sha2\<close>) is a parameter. Indices and sizes are
  \<open>u64\<close> values as natural numbers; a shift by 64 reads its amount modulo 64, as the release build
  does.
\<close>

unbundle bit_operations_syntax

section \<open>Bits of natural numbers\<close>

text \<open>\<open>64 - leading_zeros\<close> and \<open>count_ones\<close>.\<close>

fun bit_length :: "nat \<Rightarrow> nat" where
  "bit_length n = (if n = 0 then 0 else Suc (bit_length (n div 2)))"

fun popcount :: "nat \<Rightarrow> nat" where
  "popcount n = (if n = 0 then 0 else n mod 2 + popcount (n div 2))"

declare bit_length.simps [simp del] popcount.simps [simp del]

lemma bit_length_le: "bit_length n \<le> j \<longleftrightarrow> n < 2 ^ j"
proof (induction n arbitrary: j rule: bit_length.induct)
  case (1 n)
  show ?case
  proof (cases "n = 0")
    case True
    then show ?thesis by (simp add: bit_length.simps)
  next
    case False
    show ?thesis
    proof (cases j)
      case 0
      with False show ?thesis by (simp add: bit_length.simps [of n])
    next
      case (Suc i)
      with 1 [OF False, of i] False show ?thesis
        by (simp add: bit_length.simps [of n] div_less_iff_less_mult mult.commute)
    qed
  qed
qed

lemma popcount_0 [simp]: "popcount 0 = 0"
  by (simp add: popcount.simps)

lemma popcount_double: "popcount (2 * n) = popcount n" "popcount (Suc (2 * n)) = Suc (popcount n)"
  by (subst popcount.simps, simp)+

lemma popcount_add_power: "x < 2 ^ c \<Longrightarrow> popcount (x + 2 ^ c) = Suc (popcount x)"
proof (induction c arbitrary: x)
  case 0
  then show ?case using popcount_double(2) [of 0] by simp
next
  case (Suc c)
  from Suc.prems have "x div 2 < 2 ^ c" by (simp add: div_less_iff_less_mult mult.commute)
  note IH = Suc.IH [OF this]
  show ?case
  proof (cases "even x")
    case True
    then obtain y where "x = 2 * y" by auto
    with IH show ?thesis using popcount_double(1) [of "y + 2 ^ c"] popcount_double(1) [of y] by (simp add: algebra_simps)
  next
    case False
    then obtain y where "x = Suc (2 * y)" by (metis oddE Suc_eq_plus1)
    with IH show ?thesis using popcount_double(2) [of "y + 2 ^ c"] popcount_double(2) [of y] by (simp add: algebra_simps)
  qed
qed

lemma popcount_ones: "popcount (2 ^ c - 1) = c"
proof (induction c)
  case (Suc c)
  have "2 ^ Suc c - 1 = (2 ^ c - 1) + (2 ^ c :: nat)" by simp
  then show ?case using popcount_add_power [of "2 ^ c - 1" c] Suc by simp
qed simp

section \<open>The hashes and the climb\<close>

definition merkle_leaf_hash :: "(string \<Rightarrow> string) \<Rightarrow> string \<Rightarrow> string" where
  "merkle_leaf_hash sha body = sha (CHR 0x00 # body)"

definition merkle_node_hash :: "(string \<Rightarrow> string) \<Rightarrow> string \<Rightarrow> string \<Rightarrow> string" where
  "merkle_node_hash sha left right = sha (CHR 0x01 # left @ right)"

definition inner_proof_size :: "nat \<Rightarrow> nat \<Rightarrow> nat" where
  "inner_proof_size index n = bit_length (index XOR (n - 1))"

definition chain_inner :: "(string \<Rightarrow> string) \<Rightarrow> string \<Rightarrow> string list \<Rightarrow> nat \<Rightarrow> string" where
  "chain_inner sha seed hashes index =
     foldl (\<lambda>seed (i, h). if (index div 2 ^ i) mod 2 = 1 then merkle_node_hash sha h seed
                          else merkle_node_hash sha seed h)
       seed (List.enumerate 0 hashes)"

definition chain_border_right :: "(string \<Rightarrow> string) \<Rightarrow> string \<Rightarrow> string list \<Rightarrow> string" where
  "chain_border_right sha seed hashes = foldl (\<lambda>seed h. merkle_node_hash sha h seed) seed hashes"

definition border_proof_size :: "nat \<Rightarrow> nat \<Rightarrow> nat" where
  "border_proof_size index n = popcount (index div 2 ^ (inner_proof_size index n mod 64))"

definition inclusion_root :: "(string \<Rightarrow> string) \<Rightarrow> nat \<Rightarrow> nat \<Rightarrow> string \<Rightarrow> string list \<Rightarrow> string option" where
  "inclusion_root sha index tree_size leaf_hash hashes =
     (let inner = inner_proof_size index tree_size;
          border = border_proof_size index tree_size
      in if length hashes \<noteq> inner + border then None
         else Some (chain_border_right sha (chain_inner sha leaf_hash (take inner hashes) index) (drop inner hashes)))"

section \<open>The climb as a list of turns\<close>

text \<open>A turn is True where the proof's hash is the left child. The two chains of the code follow one
  list of turns, which the recursion of the tree gives as well.\<close>

definition node_at :: "(string \<Rightarrow> string) \<Rightarrow> string \<Rightarrow> bool \<times> string \<Rightarrow> string" where
  "node_at sha seed = (\<lambda>(left, h). if left then merkle_node_hash sha h seed else merkle_node_hash sha seed h)"

definition climb :: "(string \<Rightarrow> string) \<Rightarrow> string \<Rightarrow> (bool \<times> string) list \<Rightarrow> string" where
  "climb sha seed ts = foldl (node_at sha) seed ts"

definition bits_below :: "nat \<Rightarrow> nat \<Rightarrow> bool list" where
  "bits_below m j = map (\<lambda>i. (m div 2 ^ i) mod 2 = 1) [0..<j]"

definition turns :: "nat \<Rightarrow> nat \<Rightarrow> bool list" where
  "turns m n = bits_below m (inner_proof_size m n) @ replicate (border_proof_size m n) True"

lemma chain_inner_climb:
  "chain_inner sha seed hs m = climb sha seed (zip (bits_below m (length hs)) hs)"
  by (simp add: chain_inner_def climb_def bits_below_def enumerate_eq_zip foldl_map zip_map1 node_at_def
      case_prod_unfold cong: if_cong)

lemma chain_border_climb:
  "chain_border_right sha seed hs = climb sha seed (zip (replicate (length hs) True) hs)"
  by (induction hs arbitrary: seed) (auto simp: chain_border_right_def climb_def node_at_def)

lemma inclusion_root_climb:
  "inclusion_root sha m n leaf hs =
     (if length hs = length (turns m n) then Some (climb sha leaf (zip (turns m n) hs)) else None)"
proof (cases "length hs = inner_proof_size m n + border_proof_size m n")
  case True
  let ?i = "inner_proof_size m n"
  have "zip (turns m n) hs = zip (bits_below m ?i) (take ?i hs) @ zip (replicate (border_proof_size m n) True) (drop ?i hs)"
    using True zip_append [of "bits_below m ?i" "take ?i hs" "replicate (border_proof_size m n) True" "drop ?i hs"]
    by (simp add: turns_def bits_below_def)
  with True show ?thesis
    by (simp add: inclusion_root_def chain_inner_climb chain_border_climb climb_def turns_def bits_below_def Let_def)
qed (simp add: inclusion_root_def turns_def bits_below_def Let_def)

section \<open>The tree of RFC 6962\<close>

definition split_exp :: "nat \<Rightarrow> nat" where
  "split_exp n = bit_length (n - 1) - 1"

text \<open>The largest power of two below \<open>n\<close>.\<close>

lemma split_exp_bounds:
  assumes "2 \<le> n"
  shows "2 ^ split_exp n < n" and "n \<le> 2 * 2 ^ split_exp n"
proof -
  have pos: "bit_length (n - 1) > 0" using assms bit_length_le [of "n - 1" 0] by simp
  then have "\<not> bit_length (n - 1) \<le> split_exp n" by (simp add: split_exp_def)
  then show "2 ^ split_exp n < n" using assms by (simp add: bit_length_le)
  have "bit_length (n - 1) \<le> Suc (split_exp n)" using pos by (simp add: split_exp_def)
  then have "n - 1 < 2 ^ Suc (split_exp n)" by (simp only: bit_length_le)
  then show "n \<le> 2 * 2 ^ split_exp n" using assms by simp
qed

function mth :: "(string \<Rightarrow> string) \<Rightarrow> string list \<Rightarrow> string" where
  "mth sha D =
     (if length D = 0 then sha []
      else if length D = 1 then merkle_leaf_hash sha (hd D)
      else merkle_node_hash sha (mth sha (take (2 ^ split_exp (length D)) D))
             (mth sha (drop (2 ^ split_exp (length D)) D)))"
  by pat_completeness auto
termination
proof (relation "measure (\<lambda>(sha, D). length D)", goal_cases)
  case (2 sha D)
  then have "2 \<le> length D" by linarith
  from split_exp_bounds [OF this] show ?case by simp
qed auto

function audit_path :: "(string \<Rightarrow> string) \<Rightarrow> nat \<Rightarrow> string list \<Rightarrow> string list" where
  "audit_path sha m D =
     (let k = 2 ^ split_exp (length D)
      in if length D < 2 then []
         else if m < k then audit_path sha m (take k D) @ [mth sha (drop k D)]
         else audit_path sha (m - k) (drop k D) @ [mth sha (take k D)])"
  by pat_completeness auto
termination
proof (relation "measure (\<lambda>(sha, m, D). length D)", goal_cases)
  case (2 sha m D k)
  then have "2 \<le> length D" by linarith
  from split_exp_bounds [OF this] 2 show ?case by simp
qed (auto intro!: diff_less)

declare mth.simps [simp del] audit_path.simps [simp del]

text \<open>Induction over the tree: a single leaf, or two subtrees at the split point.\<close>

lemma tree_induct [consumes 1, case_names leaf node]:
  assumes "D \<noteq> []"
    and leaf: "\<And>x. P [x]"
    and node: "\<And>D. 2 \<le> length D \<Longrightarrow> P (take (2 ^ split_exp (length D)) D) \<Longrightarrow>
                 P (drop (2 ^ split_exp (length D)) D) \<Longrightarrow> P D"
  shows "P D"
  using assms(1)
proof (induction "length D" arbitrary: D rule: less_induct)
  case less
  consider "length D = 1" | "2 \<le> length D" using less.prems by (cases D) (auto simp: Suc_le_eq)
  then show ?case
  proof cases
    case 1
    then show ?thesis using leaf by (auto simp: length_Suc_conv)
  next
    case 2
    note b = split_exp_bounds [OF this]
    show ?thesis
    proof (rule node [OF 2])
      show "P (take (2 ^ split_exp (length D)) D)" by (rule less.hyps) (use b less.prems in simp_all)
      show "P (drop (2 ^ split_exp (length D)) D)" by (rule less.hyps) (use b less.prems in simp_all)
    qed
  qed
qed

section \<open>The turns follow the tree\<close>

lemma xor_lt_power: "(x :: nat) XOR y < 2 ^ j \<longleftrightarrow> x div 2 ^ j = y div 2 ^ j"
proof -
  have "x XOR y < 2 ^ j \<longleftrightarrow> drop_bit j (x XOR y) = 0" by (simp add: drop_bit_eq_div div_eq_0_iff)
  also have "\<dots> \<longleftrightarrow> drop_bit j x XOR drop_bit j y = 0" by simp
  also have "\<dots> \<longleftrightarrow> drop_bit j x = drop_bit j y"
    by (metis bit.xor_self bit_eq_iff bit_xor_iff xor_self_eq bit_0_eq)
  finally show ?thesis by (simp add: drop_bit_eq_div)
qed

lemma inner_le: "inner_proof_size m n \<le> j \<longleftrightarrow> m div 2 ^ j = (n - 1) div 2 ^ j"
  by (simp add: inner_proof_size_def bit_length_le xor_lt_power)

lemma bits_below_Suc: "bits_below m (Suc j) = bits_below m j @ [(m div 2 ^ j) mod 2 = 1]"
  by (simp add: bits_below_def)

lemma length_bits_below [simp]: "length (bits_below m j) = j"
  by (simp add: bits_below_def)

text \<open>A leaf of the left subtree: the path of the perfect subtree, then one turn to the right.\<close>

lemma turns_left:
  assumes "m < 2 ^ b" and "2 ^ b < n" and "n \<le> 2 * 2 ^ b" and "b < 63"
  shows "turns m n = bits_below m b @ [False]"
proof -
  have n: "n - 1 < 2 ^ Suc b" and m: "m < 2 ^ Suc b" using assms by simp_all
  have "inner_proof_size m n \<le> Suc b" using n m by (simp only: inner_le div_less)
  moreover have "\<not> inner_proof_size m n \<le> b"
  proof -
    have "(n - 1) div 2 ^ b \<noteq> 0" using assms(2) by (auto simp: div_eq_0_iff)
    moreover have "m div 2 ^ b = 0" using assms(1) by simp
    ultimately show ?thesis by (simp add: inner_le)
  qed
  ultimately have i: "inner_proof_size m n = Suc b" by simp
  moreover have "Suc b mod 64 = Suc b" using assms(4) by simp
  ultimately have "border_proof_size m n = 0" using m by (simp only: border_proof_size_def div_less popcount_0)
  with i show ?thesis using assms(1) by (simp add: turns_def bits_below_Suc)
qed

lemma odd_ones: "0 < c \<Longrightarrow> odd (2 ^ c - 1 :: nat)"
  by (cases c) (simp_all add: even_diff_nat)

lemma ones_div:
  assumes "i \<le> b"
  shows "(2 ^ b - 1) div 2 ^ i = (2 ^ (b - i) - 1 :: nat)"
proof -
  obtain c where b: "b = i + c" using le_Suc_ex [OF assms] by auto
  have "(2 ^ b - 1 :: nat) = 2 ^ i * (2 ^ c - 1) + (2 ^ i - 1)"
    by (simp add: b power_add algebra_simps)
  then have "(2 ^ b - 1) div 2 ^ i = (2 ^ c - 1) + (2 ^ i - 1) div (2 ^ i :: nat)"
    by (simp only:) (rule div_mult_self4, simp)
  then show ?thesis by (simp add: b)
qed

text \<open>In a perfect tree the turns are the bits of the index: above the inner part they are all
  ones, which is what the right border counts.\<close>

lemma turns_perfect:
  assumes "m < 2 ^ b" and "b < 64"
  shows "turns m (2 ^ b) = bits_below m b"
proof -
  define i where "i = inner_proof_size m (2 ^ b)"
  have ib: "i \<le> b" using assms(1) unfolding i_def inner_le by simp
  have "m div 2 ^ i = (2 ^ b - 1) div 2 ^ i" using inner_le [of m "2 ^ b" i] by (simp add: i_def)
  also have "\<dots> = 2 ^ (b - i) - 1" by (rule ones_div [OF ib])
  finally have ones: "m div 2 ^ i = 2 ^ (b - i) - 1" .
  have "i mod 64 = i" using ib assms(2) by simp
  then have border: "border_proof_size m (2 ^ b) = b - i"
    unfolding border_proof_size_def i_def [symmetric] by (simp only: ones popcount_ones)
  have "bits_below m b = bits_below m i @ map (\<lambda>j. (m div 2 ^ j) mod 2 = 1) [i..<b]"
    using upt_add_eq_append [of 0 i "b - i"] ib by (simp add: bits_below_def)
  also have "map (\<lambda>j. (m div 2 ^ j) mod 2 = 1) [i..<b] = replicate (b - i) True"
  proof (rule nth_equalityI)
    fix j assume "j < length (map (\<lambda>j. (m div 2 ^ j) mod 2 = 1) [i..<b])"
    then have j: "j < b - i" by simp
    have "m div 2 ^ (i + j) = (m div 2 ^ i) div 2 ^ j" by (simp add: power_add div_mult2_eq)
    also have "\<dots> = 2 ^ (b - i - j) - 1" unfolding ones using j by (intro ones_div) simp
    finally have "odd (m div 2 ^ (i + j))" using odd_ones [of "b - i - j"] j by simp
    then show "map (\<lambda>j. (m div 2 ^ j) mod 2 = 1) [i..<b] ! j = replicate (b - i) True ! j"
      using j by (simp add: odd_iff_mod_2_eq_one)
  qed simp
  finally show ?thesis unfolding turns_def border i_def [symmetric] by simp
qed

text \<open>A leaf of the right subtree: the path of that subtree, then one turn to the left.\<close>

lemma turns_right:
  assumes "m < n" and "n \<le> 2 ^ b" and "b < 63"
  shows "turns (2 ^ b + m) (2 ^ b + n) = turns m n @ [True]"
proof -
  have shift: "(2 ^ b + x) div 2 ^ j = x div 2 ^ j + (if j \<le> b then 2 ^ (b - j) else 0)"
    if "x < 2 ^ b" for x j :: nat
  proof (cases "j \<le> b")
    case True
    then have "(2 :: nat) ^ b = 2 ^ j * 2 ^ (b - j)" by (simp flip: power_add)
    then have "(2 ^ b + x) div 2 ^ j = (x + 2 ^ (b - j) * 2 ^ j) div 2 ^ j" by (simp add: ac_simps)
    then show ?thesis using True by simp
  next
    case False
    then have "(2 :: nat) ^ Suc b \<le> 2 ^ j" by (intro power_increasing) auto
    with that False show ?thesis by simp
  qed
  have "inner_proof_size (2 ^ b + m) (2 ^ b + n) \<le> j \<longleftrightarrow> inner_proof_size m n \<le> j" for j
    using assms shift [of m j] shift [of "n - 1" j] by (auto simp: inner_le)
  then have i: "inner_proof_size (2 ^ b + m) (2 ^ b + n) = inner_proof_size m n" by (meson le_antisym order_refl)
  let ?i = "inner_proof_size m n"
  have ib: "?i \<le> b" using assms by (simp add: inner_le)
  then have md: "?i mod 64 = ?i" using assms(3) by simp
  have m: "m < 2 ^ b" using assms by simp
  then have "m div 2 ^ ?i < 2 ^ (b - ?i)"
    using ib by (simp add: div_less_iff_less_mult flip: power_add)
  then have border: "border_proof_size (2 ^ b + m) (2 ^ b + n) = Suc (border_proof_size m n)"
    using ib shift [OF m, of ?i] by (simp add: border_proof_size_def i md popcount_add_power)
  have bits: "bits_below (2 ^ b + m) ?i = bits_below m ?i"
  proof -
    have "((2 ^ b + m) div 2 ^ j) mod 2 = (m div 2 ^ j) mod 2" if "j < ?i" for j
      using that ib shift [OF m, of j] by (simp add: mod2_eq_if)
    then show ?thesis by (simp add: bits_below_def)
  qed
  show ?thesis by (simp add: turns_def i border bits replicate_append_same flip: replicate_Suc)
qed

lemma climb_append: "climb sha seed (ts @ us) = climb sha (climb sha seed ts) us"
  by (simp add: climb_def)

lemma climb_snoc: "climb sha seed (ts @ [t]) = node_at sha (climb sha seed ts) t"
  by (simp add: climb_def)

text \<open>Where the leaf \<open>m\<close> lies, with the turns of its subtree.\<close>

lemma turns_split:
  assumes "2 \<le> n" and "m < n" and "n \<le> 2 ^ 63"
  defines "k \<equiv> 2 ^ split_exp n"
  shows "m < k \<Longrightarrow> turns m n = turns m k @ [False]"
    and "\<not> m < k \<Longrightarrow> turns m n = turns (m - k) (n - k) @ [True]"
proof -
  note b = split_exp_bounds [OF assms(1), folded k_def]
  have "2 ^ split_exp n < (2 :: nat) ^ 63" using b(1) assms(3) unfolding k_def by linarith
  then have e: "split_exp n < 63" by (rule power_less_imp_less_exp [rotated]) simp
  show "turns m n = turns m k @ [False]" if "m < k"
  proof -
    have "turns m n = bits_below m (split_exp n) @ [False]"
      using that b e unfolding k_def by (intro turns_left)
    also have "bits_below m (split_exp n) = turns m k"
      using that e unfolding k_def by (intro turns_perfect [symmetric]) simp_all
    finally show ?thesis .
  qed
  show "turns m n = turns (m - k) (n - k) @ [True]" if "\<not> m < k"
    using turns_right [of "m - k" "n - k" "split_exp n"] that b e assms(2) unfolding k_def by simp
qed

lemma turns_single: "turns 0 1 = []"
  by (simp add: turns_def inner_proof_size_def border_proof_size_def bits_below_def bit_length.simps)

lemma mth_single [simp]: "mth sha [x] = merkle_leaf_hash sha x"
  by (simp add: mth.simps)

lemma mth_node:
  "2 \<le> length D \<Longrightarrow> mth sha D =
     merkle_node_hash sha (mth sha (take (2 ^ split_exp (length D)) D)) (mth sha (drop (2 ^ split_exp (length D)) D))"
  by (subst mth.simps) auto

text \<open>Completeness: the audit path of an entry leads to the tree head.\<close>

lemma audit_path_climbs:
  assumes "D \<noteq> []" and "m < length D" and "length D \<le> 2 ^ 63"
  shows "length (audit_path sha m D) = length (turns m (length D)) \<and>
    climb sha (merkle_leaf_hash sha (D ! m)) (zip (turns m (length D)) (audit_path sha m D)) = mth sha D"
  using assms
proof (induction D arbitrary: m rule: tree_induct)
  case (leaf x)
  then show ?case by (simp add: turns_single [simplified] audit_path.simps climb_def)
next
  case (node D)
  define k :: nat where "k = 2 ^ split_exp (length D)"
  note b = split_exp_bounds [OF node.hyps, folded k_def]
  note t = turns_split [OF node.hyps node.prems, folded k_def]
  note mth = mth_node [OF node.hyps, folded k_def]
  show ?case
  proof (cases "m < k")
    case True
    have "audit_path sha m D = audit_path sha m (take k D) @ [mth sha (drop k D)]"
      using True node.hyps by (subst audit_path.simps) (simp add: k_def Let_def)
    with True node.IH(1) [folded k_def, of m] node.prems b t(1) [OF True] show ?thesis
      by (simp add: climb_snoc node_at_def mth)
  next
    case False
    have "audit_path sha m D = audit_path sha (m - k) (drop k D) @ [mth sha (take k D)]"
      using False node.hyps by (subst audit_path.simps) (simp add: k_def Let_def)
    with False node.IH(2) [folded k_def, of "m - k"] node.prems b t(2) [OF False] show ?thesis
      by (simp add: climb_snoc node_at_def mth)
  qed
qed

section \<open>What an accepted proof shows\<close>

text \<open>The messages that are hashed to build the tree, and those that are hashed on the way up. The
  theorems below assume that the hash has no collision among these messages, nothing about
  messages that nobody hashed.\<close>

function tree_messages :: "(string \<Rightarrow> string) \<Rightarrow> string list \<Rightarrow> string list" where
  "tree_messages sha D =
     (let k = 2 ^ split_exp (length D)
      in if length D = 0 then [[]]
         else if length D = 1 then [CHR 0x00 # hd D]
         else (CHR 0x01 # mth sha (take k D) @ mth sha (drop k D)) # tree_messages sha (take k D) @ tree_messages sha (drop k D))"
  by pat_completeness auto
termination
proof (relation "measure (\<lambda>(sha, D). length D)", goal_cases)
  case (2 sha D)
  then have "2 \<le> length D" by linarith
  from split_exp_bounds [OF this] 2 show ?case by simp
qed (auto intro!: diff_less)

declare tree_messages.simps [simp del]

definition node_message :: "string \<Rightarrow> bool \<times> string \<Rightarrow> string" where
  "node_message seed = (\<lambda>(left, h). CHR 0x01 # (if left then h @ seed else seed @ h))"

fun climb_messages :: "(string \<Rightarrow> string) \<Rightarrow> string \<Rightarrow> (bool \<times> string) list \<Rightarrow> string list" where
  "climb_messages sha seed [] = []"
| "climb_messages sha seed (t # ts) = node_message seed t # climb_messages sha (node_at sha seed t) ts"

lemma climb_messages_snoc:
  "climb_messages sha seed (ts @ [t]) = climb_messages sha seed ts @ [node_message (climb sha seed ts) t]"
  by (induction ts arbitrary: seed) (simp_all add: climb_def)

lemma node_at_message: "node_at sha seed t = sha (node_message seed t)"
  by (cases t) (simp add: node_at_def node_message_def merkle_node_hash_def)

definition proof_messages :: "(string \<Rightarrow> string) \<Rightarrow> string \<Rightarrow> (bool \<times> string) list \<Rightarrow> string list" where
  "proof_messages sha body ts = (CHR 0x00 # body) # climb_messages sha (merkle_leaf_hash sha body) ts"

definition no_collision :: "(string \<Rightarrow> string) \<Rightarrow> string list \<Rightarrow> string \<Rightarrow> (bool \<times> string) list \<Rightarrow> bool" where
  "no_collision sha D body ts \<longleftrightarrow> inj_on sha (set (tree_messages sha D) \<union> set (proof_messages sha body ts))"

lemma climb_leaf:
  assumes "climb sha (merkle_leaf_hash sha body) ts = mth sha [x]" and "no_collision sha [x] body ts"
  shows "ts = [] \<and> body = x"
proof (cases ts rule: rev_cases)
  case Nil
  then have "sha (CHR 0x00 # body) = sha (CHR 0x00 # x)" using assms(1) by (simp add: climb_def merkle_leaf_hash_def)
  with assms(2) [unfolded no_collision_def] have "CHR 0x00 # body = CHR 0x00 # x"
    by (rule inj_onD) (simp_all add: tree_messages.simps proof_messages_def)
  with Nil show ?thesis by simp
next
  case (snoc us t)
  let ?m = "node_message (climb sha (merkle_leaf_hash sha body) us) t"
  have "sha ?m = sha (CHR 0x00 # x)"
    using assms(1) by (simp add: snoc climb_snoc node_at_message merkle_leaf_hash_def)
  with assms(2) [unfolded no_collision_def] have "?m = CHR 0x00 # x"
    by (rule inj_onD) (simp_all add: tree_messages.simps proof_messages_def snoc climb_messages_snoc)
  then show ?thesis by (cases t) (simp add: node_message_def)
qed

lemma tree_messages_node:
  assumes "2 \<le> length D"
  defines "k \<equiv> 2 ^ split_exp (length D)"
  shows "tree_messages sha D = (CHR 0x01 # mth sha (take k D) @ mth sha (drop k D)) #
           tree_messages sha (take k D) @ tree_messages sha (drop k D)"
  using assms(1) unfolding k_def by (subst tree_messages.simps) (auto simp: Let_def)

lemma climb_node:
  assumes D: "2 \<le> length D" and eq: "climb sha (merkle_leaf_hash sha body) ts = mth sha D"
    and inj: "no_collision sha D body ts"
  defines "k \<equiv> 2 ^ split_exp (length D)"
  obtains us t where "ts = us @ [t]"
    and "node_message (climb sha (merkle_leaf_hash sha body) us) t = CHR 0x01 # mth sha (take k D) @ mth sha (drop k D)"
    and "no_collision sha (take k D) body us" and "no_collision sha (drop k D) body us"
proof (cases ts rule: rev_cases)
  note msgs = tree_messages_node [OF D, of sha, folded k_def]
  let ?n = "CHR 0x01 # mth sha (take k D) @ mth sha (drop k D)"
  have root: "mth sha D = sha ?n" by (simp add: mth_node [OF D] k_def merkle_node_hash_def)
  {
    case Nil
    then have "sha (CHR 0x00 # body) = sha ?n" using eq by (simp add: climb_def root merkle_leaf_hash_def)
    with inj [unfolded no_collision_def] have "CHR 0x00 # body = ?n"
      by (rule inj_onD) (simp_all add: msgs proof_messages_def)
    then show thesis by simp
  next
    case (snoc us t)
    let ?m = "node_message (climb sha (merkle_leaf_hash sha body) us) t"
    have "sha ?m = sha ?n" using eq by (simp add: snoc climb_snoc node_at_message root)
    with inj [unfolded no_collision_def] have "?m = ?n"
      by (rule inj_onD) (simp_all add: msgs proof_messages_def snoc climb_messages_snoc)
    moreover have "no_collision sha (take k D) body us" "no_collision sha (drop k D) body us"
      using inj unfolding no_collision_def
      by (auto simp: msgs proof_messages_def snoc climb_messages_snoc elim!: inj_on_subset)
    ultimately show thesis using snoc that by blast
  }
qed

lemma length_climb:
  "(\<And>x. length (sha x) = 32) \<Longrightarrow> length (climb sha (merkle_leaf_hash sha body) ts) = 32"
  by (cases ts rule: rev_cases) (simp_all add: climb_def merkle_leaf_hash_def node_at_message)

lemma length_mth: "(\<And>x. length (sha x) = 32) \<Longrightarrow> length (mth sha D) = 32"
  by (subst mth.simps) (simp add: merkle_leaf_hash_def merkle_node_hash_def)

text \<open>The two halves of the last node, by the lengths of the hashes.\<close>

lemma node_message_halves:
  assumes "length l = 32" "length r = 32" "length seed = 32" "length (snd t) = 32"
    and "node_message seed t = CHR 0x01 # l @ r"
  shows "if fst t then snd t = l \<and> seed = r else seed = l \<and> snd t = r"
  using assms by (cases t) (simp add: node_message_def split: if_splits)

lemma climb_member:
  assumes "D \<noteq> []" and "\<And>x. length (sha x) = 32" and "list_all (\<lambda>t. length (snd t) = 32) ts"
    and "climb sha (merkle_leaf_hash sha body) ts = mth sha D" and "no_collision sha D body ts"
  shows "body \<in> set D"
  using assms
proof (induction D arbitrary: ts rule: tree_induct)
  case (leaf x)
  then show ?case using climb_leaf by fastforce
next
  case (node D)
  define k :: nat where "k = 2 ^ split_exp (length D)"
  obtain us t where ts: "ts = us @ [t]"
    and m: "node_message (climb sha (merkle_leaf_hash sha body) us) t = CHR 0x01 # mth sha (take k D) @ mth sha (drop k D)"
    and inj: "no_collision sha (take k D) body us" "no_collision sha (drop k D) body us"
    using climb_node [OF node.hyps node.prems(3,4), folded k_def] by blast
  have halves: "if fst t then snd t = mth sha (take k D) \<and> climb sha (merkle_leaf_hash sha body) us = mth sha (drop k D)
      else climb sha (merkle_leaf_hash sha body) us = mth sha (take k D) \<and> snd t = mth sha (drop k D)"
    using node.prems(2) by (intro node_message_halves m length_mth length_climb node.prems(1)) (simp add: ts)
  have us: "list_all (\<lambda>t. length (snd t) = 32) us" using node.prems(2) by (simp add: ts)
  show ?case
  proof (cases "fst t")
    case True
    with halves node.IH(2) [folded k_def, OF node.prems(1) us _ inj(2)] show ?thesis
      by (auto dest: in_set_dropD)
  next
    case False
    with halves node.IH(1) [folded k_def, OF node.prems(1) us _ inj(1)] show ?thesis
      by (auto dest: in_set_takeD)
  qed
qed

lemma climb_exact:
  assumes "D \<noteq> []" and "\<And>x. length (sha x) = 32" and "list_all (\<lambda>h. length h = 32) hs"
    and "m < length D" and "length D \<le> 2 ^ 63" and "length hs = length (turns m (length D))"
    and "climb sha (merkle_leaf_hash sha body) (zip (turns m (length D)) hs) = mth sha D"
    and "no_collision sha D body (zip (turns m (length D)) hs)"
  shows "body = D ! m \<and> hs = audit_path sha m D"
  using assms
proof (induction D arbitrary: m hs rule: tree_induct)
  case (leaf x)
  then show ?case using climb_leaf by (fastforce simp: turns_single [simplified] audit_path.simps)
next
  case (node D)
  define k :: nat where "k = 2 ^ split_exp (length D)"
  note b = split_exp_bounds [OF node.hyps, folded k_def]
  note t = turns_split [OF node.hyps node.prems(3,4), folded k_def]
  define left where "left = (\<not> m < k)"
  define sub where "sub = (if left then turns (m - k) (length D - k) else turns m k)"
  have turns: "turns m (length D) = sub @ [left]" using t by (simp add: sub_def left_def)
  with node.prems(5) obtain gs h where hs: "hs = gs @ [h]" and gs: "length gs = length sub"
    by (cases hs rule: rev_cases) auto
  have z: "zip (turns m (length D)) hs = zip sub gs @ [(left, h)]" by (simp add: turns hs gs)
  have m: "node_message (climb sha (merkle_leaf_hash sha body) (zip sub gs)) (left, h) =
      CHR 0x01 # mth sha (take k D) @ mth sha (drop k D)"
    and inj: "no_collision sha (take k D) body (zip sub gs)" "no_collision sha (drop k D) body (zip sub gs)"
    using climb_node [OF node.hyps node.prems(6,7), folded k_def] unfolding z by blast+
  have h: "if left then h = mth sha (take k D) \<and> climb sha (merkle_leaf_hash sha body) (zip sub gs) = mth sha (drop k D)
      else climb sha (merkle_leaf_hash sha body) (zip sub gs) = mth sha (take k D) \<and> h = mth sha (drop k D)"
    using node_message_halves [OF length_mth length_mth length_climb _ m] node.prems(1,2) by (cases left) (simp_all add: hs)
  have gs32: "list_all (\<lambda>h. length h = 32) gs" using node.prems(2) by (simp add: hs)
  show ?case
  proof (cases left)
    case True
    then have "body = drop k D ! (m - k) \<and> gs = audit_path sha (m - k) (drop k D)"
      using h gs32 gs node.prems(1,3,4) inj(2)
      by (intro node.IH(2) [folded k_def]) (auto simp: sub_def left_def)
    moreover have "drop k D ! (m - k) = D ! m" using True b by (simp add: left_def)
    ultimately show ?thesis using True h node.hyps
      by (subst audit_path.simps) (auto simp: hs left_def k_def Let_def)
  next
    case False
    then have "body = take k D ! m \<and> gs = audit_path sha m (take k D)"
      using h gs32 gs node.prems(1,4) inj(1) b
      by (intro node.IH(1) [folded k_def]) (auto simp: sub_def left_def)
    with False h node.hyps show ?thesis
      by (subst audit_path.simps) (auto simp: hs left_def k_def Let_def)
  qed
qed

text \<open>
  Claim C18 (equivalence). For a log of at most \<open>2^63\<close> entries \<open>D\<close> whose tree head (RFC 6962) is
  the signed root: the climb of the code from the leaf hash of \<open>body\<close> with the index \<open>m\<close> and the
  log's size reaches the root exactly when \<open>body\<close> is the entry at \<open>m\<close> and the proof's hashes are the
  audit path of \<open>m\<close>. So a valid proof is never refused and no other proof is accepted. The hash
  gives 32 bytes, and has no collision among the messages that are hashed here.
\<close>

theorem inclusion_exact:
  assumes "m < length D" and "length D \<le> 2 ^ 63" and "\<And>x. length (sha x) = 32"
    and "list_all (\<lambda>h. length h = 32) hs"
    and "no_collision sha D body (zip (turns m (length D)) hs)"
  shows "inclusion_root sha m (length D) (merkle_leaf_hash sha body) hs = Some (mth sha D) \<longleftrightarrow>
    body = D ! m \<and> hs = audit_path sha m D"
proof -
  have D: "D \<noteq> []" using assms(1) by auto
  show ?thesis
    using climb_exact [OF D assms(3,4,1,2) _ _ assms(5)] audit_path_climbs [OF D assms(1,2), of sha]
    by (auto simp: inclusion_root_climb)
qed

definition pad32 :: "string \<Rightarrow> string" where
  "pad32 x = take 32 (rev x @ replicate 32 CHR ''.'')"

lemma length_pad32: "length (pad32 x) = 32"
  by (simp add: pad32_def)

theorem inclusion_exact_witness:
  "let hs = [pad32 [CHR 0x00, CHR ''b'']] in
   inclusion_root pad32 0 2 (merkle_leaf_hash pad32 ''a'') hs = Some (mth pad32 [''a'', ''b'']) \<longleftrightarrow>
     ''a'' = [''a'', ''b''] ! 0 \<and> hs = audit_path pad32 0 [''a'', ''b'']"
proof -
  have "no_collision pad32 [''a'', ''b''] ''a'' (zip (turns 0 2) [pad32 [CHR 0x00, CHR ''b'']])"
    unfolding no_collision_def by code_simp
  with inclusion_exact [of 0 "[''a'', ''b'']" pad32 "[pad32 [CHR 0x00, CHR ''b'']]" "''a''"] show ?thesis
    by (simp add: length_pad32 Let_def flip: numeral_2_eq_2)
qed

lemma inclusion_root_member:
  assumes "inclusion_root sha index n (merkle_leaf_hash sha body) hs = Some (mth sha D)"
    and "D \<noteq> []" and "\<And>x. length (sha x) = 32" and "list_all (\<lambda>h. length h = 32) hs"
    and "no_collision sha D body (zip (turns index n) hs)"
  shows "body \<in> set D"
proof (rule climb_member [OF assms(2,3)])
  show "list_all (\<lambda>t. length (snd t) = 32) (zip (turns index n) hs)"
    using assms(4) by (auto simp: list_all_iff dest: set_zip_rightD)
qed (use assms in \<open>auto simp: inclusion_root_climb split: if_splits\<close>)

text \<open>The index and the size are not bound to the tree: the second entry of a log with two entries
  is accepted as entry 2 of 3.\<close>

lemma claimed_index_is_not_bound:
  "inclusion_root pad32 2 3 (merkle_leaf_hash pad32 ''b'') [pad32 [CHR 0x00, CHR ''a'']] = Some (mth pad32 [''a'', ''b''])"
  by code_simp

end
