(* ===== verification/Provenance.thy ===== *)
theory Provenance
  imports Certificate Merkle
begin

text \<open>
  Attestations: the DSSE envelope, the Rekor log entry and the in-toto statement
  (\<open>crates/pm/src/provenance.rs\<close>). Documents are JSON values; \<open>serde_json::from_slice\<close> is the
  parameter \<open>J\<close>, the crates for curves, hashes and encodings are the record \<open>K\<close>, and the pinned
  keys and certificates the record \<open>A\<close>. The build without the \<open>fips\<close> feature is modelled.
\<close>

text \<open>\<open>map_err\<close> on a message; a panic passes through.\<close>

fun map_err :: "string \<Rightarrow> prov_error + 'a \<Rightarrow> prov_error + 'a" where
  "map_err what (Inl (Rejected why)) = Inl (Rejected (what @ why))"
| "map_err what r = r"

lemma map_err_Inr: "map_err what r = Inr x \<longleftrightarrow> r = Inr x"
  by (cases "(what, r)" rule: map_err.cases) auto

section \<open>The signed bytes\<close>

definition dsse_pae :: "string \<Rightarrow> string \<Rightarrow> string" where
  "dsse_pae payload_type payload =
     ''DSSEv1 '' @ show_nat (length payload_type) @ '' '' @ payload_type @ '' '' @
     show_nat (length payload) @ '' '' @ payload"

text \<open>\<open>Verifier::verify\<close> hashes the message with the digest of the curve.\<close>

definition verify_dsse_signature :: "crypto \<Rightarrow> ec_public_key \<Rightarrow> string \<Rightarrow> string \<Rightarrow> string \<Rightarrow> prov_error + unit" where
  "verify_dsse_signature K k payload_type payload sig =
     (let pae = dsse_pae payload_type payload
      in case k of
           P256 p \<Rightarrow>
             and_then (ensure (sig256_der K sig) (Rejected ''bad DER signature: '')) (\<lambda>_.
               ensure (verify256 K p (sha256 K pae) sig) (Rejected ''DSSE signature mismatch''))
         | P384 p \<Rightarrow>
             and_then (ensure (sig384_der K sig) (Rejected ''bad DER signature: '')) (\<lambda>_.
               ensure (verify384 K p (sha384 K pae) sig) (Rejected ''DSSE signature mismatch'')))"

section \<open>Rekor\<close>

definition json_u64 :: "json \<Rightarrow> string \<Rightarrow> prov_error + nat" where
  "json_u64 v what =
     ok_or (Rejected (''tlog entry missing '' @ what))
       (case as_u64 v of Some n \<Rightarrow> Some n | None \<Rightarrow> Option.bind (as_str v) (parse_uint u64_max))"

text \<open>\<open>as i64\<close> of an unsigned 64-bit number, and its decimal form.\<close>

definition as_i64 :: "nat \<Rightarrow> int" where
  "as_i64 n = (if n < 2 ^ 63 then int n else int n - 2 ^ 64)"

definition show_int :: "int \<Rightarrow> string" where
  "show_int n = (if n < 0 then CHR ''-'' # show_nat (nat (- n)) else show_nat (nat n))"

text \<open>Indexing a \<open>serde_json::Map\<close> (not a \<open>Value\<close>) panics when the key is missing.\<close>

definition map_index :: "(string \<times> json) list \<Rightarrow> string \<Rightarrow> prov_error + json" where
  "map_index proof k = ok_or Panicked (map_of proof k)"

definition proof_hash :: "crypto \<Rightarrow> json \<Rightarrow> prov_error + string" where
  "proof_hash K h =
     and_then (ok_or (Rejected ''inclusion proof hash is not a string'') (as_str h)) (\<lambda>s.
     and_then (decode_b64 K s ''inclusion proof hash'') (\<lambda>b.
     and_then (ensure (length b = 32) (Rejected ''inclusion proof hash is not 32 bytes'')) (\<lambda>_. Inr b)))"

fun proof_hashes :: "crypto \<Rightarrow> json list \<Rightarrow> prov_error + string list" where
  "proof_hashes K [] = Inr []"
| "proof_hashes K (h # hs) = and_then (proof_hash K h) (\<lambda>x. and_then (proof_hashes K hs) (\<lambda>xs. Inr (x # xs)))"

definition verify_inclusion :: "crypto \<Rightarrow> (string \<times> json) list \<Rightarrow> string \<Rightarrow> string \<Rightarrow> prov_error + unit" where
  "verify_inclusion K proof leaf_hash root_hash =
     and_then (map_index proof ''logIndex'') (\<lambda>li.
     and_then (json_u64 li ''inclusionProof logIndex'') (\<lambda>index.
     and_then (map_index proof ''treeSize'') (\<lambda>ts.
     and_then (json_u64 ts ''inclusionProof treeSize'') (\<lambda>tree_size.
     and_then (ensure (tree_size \<noteq> 0 \<and> index < tree_size) (Rejected ''inclusion proof index out of range'')) (\<lambda>_.
     and_then (map_index proof ''hashes'') (\<lambda>hs.
     and_then (ok_or (Rejected ''inclusionProof missing hashes'') (as_array hs)) (\<lambda>hs.
     and_then (proof_hashes K hs) (\<lambda>hashes.
     and_then (ok_or (Rejected ''inclusion proof hash count mismatch'')
       (inclusion_root (sha256 K) index tree_size leaf_hash hashes)) (\<lambda>computed.
       ensure (computed = root_hash)
         (Rejected ''inclusion proof does not match the checkpoint root hash''))))))))))"

definition rekor_public_key :: "crypto \<Rightarrow> anchors \<Rightarrow> prov_error + ec_public_key" where
  "rekor_public_key K A =
     and_then (ok_or (Rejected ''malformed Rekor SPKI'') (read_tlv (rekor_spki A))) (spki_public_key K)"

definition set_payload :: "crypto \<Rightarrow> string \<Rightarrow> int \<Rightarrow> string \<Rightarrow> nat \<Rightarrow> string" where
  "set_payload K body_b64 integrated_time log_id log_index =
     ''{\"body\":\"'' @ body_b64 @ ''\",\"integratedTime\":'' @ show_int integrated_time @
     '',\"logID\":\"'' @ hex_encode K log_id @ ''\",\"logIndex\":'' @ show_nat log_index @ ''}''"

text \<open>The em dash that marks a signature line of a checkpoint.\<close>

definition em_dash :: string where
  "em_dash = map char_of [0xE2, 0x80, 0x94 :: nat]"

text \<open>The checkpoint: the text of the note up to and with the line feed that ends it, and its
  signature, the last word of the first line with an em dash.\<close>

definition read_checkpoint :: "crypto \<Rightarrow> string \<Rightarrow> prov_error + string \<times> string" where
  "read_checkpoint K envelope =
     and_then (ok_or (Rejected ''malformed checkpoint: missing note separator'')
       (split_once_str [CHR 0x0A, CHR 0x0A] envelope)) (\<lambda>(note, sigs).
     and_then (ok_or (Rejected ''malformed checkpoint: no signature line'')
       (Option.bind (List.find (\<lambda>l. contains l em_dash) (split CHR 0x0A sigs))
         (\<lambda>l. case split_whitespace l of [] \<Rightarrow> None | ws \<Rightarrow> Some (last ws)))) (\<lambda>sig_field.
     and_then (decode_b64 K sig_field ''checkpoint signature'') (\<lambda>raw_sig.
     and_then (ensure (4 \<le> length raw_sig) (Rejected ''malformed checkpoint signature'')) (\<lambda>_.
       Inr (note @ [CHR 0x0A], raw_sig)))))"

definition verify_checkpoint ::
  "crypto \<Rightarrow> ec_public_key \<Rightarrow> string \<Rightarrow> string \<Rightarrow> (string \<times> json) list \<Rightarrow> prov_error + unit" where
  "verify_checkpoint K rekor_key log_id body_b64 proof =
     and_then (map_index proof ''checkpoint'') (\<lambda>cp.
     and_then (ok_or (Rejected ''inclusionProof missing checkpoint envelope'')
       (as_str (json_index cp ''envelope''))) (\<lambda>envelope.
     and_then (read_checkpoint K envelope) (\<lambda>(note_body, raw_sig).
     and_then (ensure (4 \<le> length log_id) Panicked) (\<lambda>_.
     and_then (ensure (take 4 raw_sig = take 4 log_id)
       (Rejected ''checkpoint signature key hint does not match the Rekor log'')) (\<lambda>_.
     and_then (ensure (verify_ecdsa K rekor_key Sha256 note_body (drop 4 raw_sig) = Inr ())
       (Rejected ''checkpoint signature is invalid'')) (\<lambda>_.
     and_then (ensure (2 < length (split CHR 0x0A note_body)) (Rejected ''malformed checkpoint note'')) (\<lambda>_.
     and_then (decode_b64 K (split CHR 0x0A note_body ! 2) ''checkpoint root hash'') (\<lambda>root_hash.
     and_then (decode_b64 K body_b64 ''canonicalizedBody'') (\<lambda>body.
       verify_inclusion K proof (merkle_leaf_hash (sha256 K) body) root_hash)))))))))"

definition verify_rekor :: "crypto \<Rightarrow> anchors \<Rightarrow> json \<Rightarrow> prov_error + unit" where
  "verify_rekor K A entry =
     and_then (ok_or (Rejected ''tlog entry missing logId.keyId'')
       (as_str (json_index (json_index entry ''logId'') ''keyId''))) (\<lambda>log_id_b64.
     and_then (ensure (log_id_b64 = b64_encode K (sha256 K (rekor_spki A)))
       (Rejected ''tlog entry is not from the trusted Sigstore Rekor log'')) (\<lambda>_.
     and_then (decode_b64 K log_id_b64 ''logId.keyId'') (\<lambda>log_id.
     and_then (ok_or (Rejected ''tlog entry missing canonicalizedBody'')
       (as_str (json_index entry ''canonicalizedBody''))) (\<lambda>body_b64.
     and_then (json_u64 (json_index entry ''integratedTime'') ''integratedTime'') (\<lambda>time.
     and_then (json_u64 (json_index entry ''logIndex'') ''logIndex'') (\<lambda>log_index.
     and_then (ok_or (Rejected ''tlog entry missing signedEntryTimestamp'')
       (as_str (json_index (json_index entry ''inclusionPromise'') ''signedEntryTimestamp''))) (\<lambda>set_b64.
     and_then (decode_b64 K set_b64 ''signedEntryTimestamp'') (\<lambda>set_der.
     and_then (rekor_public_key K A) (\<lambda>rekor_key.
     and_then (ensure (verify_ecdsa K rekor_key Sha256 (set_payload K body_b64 (as_i64 time) log_id log_index) set_der = Inr ())
       (Rejected ''Rekor signed entry timestamp (SET) is invalid'')) (\<lambda>_.
       case as_object (json_index entry ''inclusionProof'') of
         None \<Rightarrow> Inr ()
       | Some proof \<Rightarrow> verify_checkpoint K rekor_key log_id body_b64 proof))))))))))"

section \<open>What an entry records\<close>

definition cert_is_leaf :: "crypto \<Rightarrow> string \<Rightarrow> json \<Rightarrow> bool" where
  "cert_is_leaf K leaf_der v \<longleftrightarrow>
     Option.bind (as_str v) (\<lambda>b. Option.bind (b64_decode K b) (\<lambda>pem. Option.bind (from_utf8 pem) (\<lambda>pem.
       b64_decode K (concat (filter (\<lambda>l. \<not> starts_with l ''-----'') (lines pem)))))) = Some leaf_der"

definition sigs_match :: "crypto \<Rightarrow> string \<Rightarrow> json \<Rightarrow> string \<Rightarrow> string \<Rightarrow> string \<Rightarrow> bool" where
  "sigs_match K leaf_der xs sig_key sig_value cert_key \<longleftrightarrow>
     (case as_array xs of
        None \<Rightarrow> False
      | Some sigs \<Rightarrow>
          list_ex (\<lambda>s. as_str (json_index s sig_key) = Some sig_value \<and>
                       cert_is_leaf K leaf_der (json_index s cert_key)) sigs)"

definition entry_binds :: "crypto \<Rightarrow> (string \<Rightarrow> json option) \<Rightarrow> json \<Rightarrow> string \<Rightarrow> string \<Rightarrow> string \<Rightarrow> bool" where
  "entry_binds K J entry leaf_der sig_b64 payload \<longleftrightarrow>
     (case Option.bind (as_str (json_index entry ''canonicalizedBody'')) (\<lambda>b. Option.bind (b64_decode K b) J) of
        None \<Rightarrow> False
      | Some body \<Rightarrow>
          let payload_hash = hex_encode K (sha256 K payload);
              spec = json_index body ''spec'';
              ct = json_index spec ''content''
          in if as_str (json_index body ''kind'') = Some ''intoto'' then
               as_str (json_index (json_index ct ''payloadHash'') ''value'') = Some payload_hash \<and>
               sigs_match K leaf_der (json_index (json_index ct ''envelope'') ''signatures'') ''sig''
                 (b64_encode K sig_b64) ''publicKey''
             else if as_str (json_index body ''kind'') = Some ''dsse'' then
               as_str (json_index (json_index spec ''payloadHash'') ''value'') = Some payload_hash \<and>
               sigs_match K leaf_der (json_index spec ''signatures'') ''signature'' sig_b64 ''verifier''
             else False)"

section \<open>The statement\<close>

definition npm_purl_name :: "string \<Rightarrow> string" where
  "npm_purl_name pkg_name =
     (case strip_prefix_str ''@'' pkg_name of
        Some rest \<Rightarrow> ''pkg:npm/%40'' @ rest
      | None \<Rightarrow> ''pkg:npm/'' @ pkg_name)"

definition subject_matches :: "json \<Rightarrow> string \<Rightarrow> string \<Rightarrow> bool" where
  "subject_matches statement pkg_name version \<longleftrightarrow>
     (case as_array (json_index statement ''subject'') of
        None \<Rightarrow> False
      | Some subjects \<Rightarrow>
          list_ex (\<lambda>s. as_str (json_index s ''name'') = Some (npm_purl_name pkg_name @ ''@'' @ version) \<or>
                       as_str (json_index s ''name'') = Some (pkg_name @ ''@'' @ version)) subjects)"

definition subject_digest_matches :: "json \<Rightarrow> string \<Rightarrow> bool" where
  "subject_digest_matches statement tarball_sha512_hex \<longleftrightarrow>
     (case as_array (json_index statement ''subject'') of
        None \<Rightarrow> False
      | Some subjects \<Rightarrow>
          list_ex (\<lambda>s. case as_str (json_index (json_index s ''digest'') ''sha512'') of
                         None \<Rightarrow> False
                       | Some d \<Rightarrow> map to_lower d = map to_lower tarball_sha512_hex) subjects)"

definition is_statement :: "json \<Rightarrow> bool" where
  "is_statement v \<longleftrightarrow>
     as_str (json_index v ''_type'') = Some ''https://in-toto.io/Statement/v1'' \<or>
     as_str (json_index v ''_type'') = Some ''https://in-toto.io/Statement/v0.1''"

text \<open>The envelope up to the statement: the payload's bytes.\<close>

definition read_payload :: "crypto \<Rightarrow> json \<Rightarrow> prov_error + string" where
  "read_payload K bundle =
     and_then (ok_or (Rejected ''bundle missing mediaType'') (as_str (json_index bundle ''mediaType''))) (\<lambda>media_type.
     and_then (ensure (starts_with media_type ''application/vnd.dev.sigstore.bundle'')
       (Rejected (''unsupported bundle mediaType: '' @ media_type))) (\<lambda>_.
     and_then (ensure (as_object (json_index bundle ''dsseEnvelope'') \<noteq> None)
       (Rejected ''bundle has no dsseEnvelope'')) (\<lambda>_.
     and_then (ok_or (Rejected ''dsseEnvelope missing payloadType'')
       (as_str (json_index (json_index bundle ''dsseEnvelope'') ''payloadType''))) (\<lambda>payload_type.
     and_then (ensure (payload_type = ''application/vnd.in-toto+json'')
       (Rejected (''unsupported DSSE payloadType: '' @ payload_type))) (\<lambda>_.
     and_then (ok_or (Rejected ''dsseEnvelope missing payload'')
       (as_str (json_index (json_index bundle ''dsseEnvelope'') ''payload''))) (\<lambda>payload_b64.
       ok_or (Rejected ''payload is not valid base64: '') (b64_decode K payload_b64)))))))"

definition check_statement ::
  "(string \<Rightarrow> json option) \<Rightarrow> string \<Rightarrow> string \<Rightarrow> string \<Rightarrow> string \<Rightarrow> string \<Rightarrow> prov_error + json" where
  "check_statement J predicate_type payload pkg_name version tarball_sha512_hex =
     and_then (ok_or (Rejected ''in-toto payload is not JSON: '') (J payload)) (\<lambda>statement.
     and_then (ensure (subject_matches statement pkg_name version)
       (Rejected (''provenance subject does not match '' @ pkg_name @ ''@'' @ version))) (\<lambda>_.
     and_then (ensure (subject_digest_matches statement tarball_sha512_hex)
       (Rejected (''provenance subject digest does not match the downloaded tarball of '' @ pkg_name @ ''@'' @ version))) (\<lambda>_.
     and_then (ensure (is_statement statement) (Rejected ''payload is not an in-toto Statement'')) (\<lambda>_.
     and_then (ensure (predicate_type = (case as_str (json_index statement ''predicateType'') of Some t \<Rightarrow> t | None \<Rightarrow> []))
       (Rejected ''predicateType mismatch between attestation and statement'')) (\<lambda>_. Inr statement)))))"

section \<open>One attestation\<close>

text \<open>The first signature that verifies; a malformed one before it is an error.\<close>

fun find_signature :: "crypto \<Rightarrow> ec_public_key \<Rightarrow> string \<Rightarrow> json list \<Rightarrow> prov_error + string option" where
  "find_signature K k payload [] = Inr None"
| "find_signature K k payload (sig # sigs) =
     and_then (ok_or (Rejected ''signature missing sig'') (as_str (json_index sig ''sig''))) (\<lambda>sig_b64.
     and_then (ok_or (Rejected ''signature is not valid base64: '') (b64_decode K sig_b64)) (\<lambda>sig_der.
       if verify_dsse_signature K k ''application/vnd.in-toto+json'' payload sig_der = Inr ()
       then Inr (Some sig_b64) else find_signature K k payload sigs))"

text \<open>Every log entry has to verify; the first one that records this attestation gives the time.\<close>

fun check_tlog ::
  "crypto \<Rightarrow> (string \<Rightarrow> json option) \<Rightarrow> anchors \<Rightarrow> string \<Rightarrow> string \<Rightarrow> string \<Rightarrow> int option \<Rightarrow> json list \<Rightarrow> prov_error + int option" where
  "check_tlog K J A leaf_der sig payload as_of [] = Inr as_of"
| "check_tlog K J A leaf_der sig payload as_of (entry # tlog) =
     and_then (map_err ''invalid Rekor entry: '' (verify_rekor K A entry)) (\<lambda>_.
       if as_of = None \<and> entry_binds K J entry leaf_der sig payload then
         and_then (json_u64 (json_index entry ''integratedTime'') ''integratedTime'') (\<lambda>t.
           check_tlog K J A leaf_der sig payload (Some (as_i64 t)) tlog)
       else check_tlog K J A leaf_der sig payload as_of tlog)"

fun collect_certs :: "crypto \<Rightarrow> string list \<Rightarrow> prov_error + string list" where
  "collect_certs K [] = Inr []"
| "collect_certs K (b # bs) =
     and_then (decode_b64 K b ''certificate rawBytes'') (\<lambda>d. and_then (collect_certs K bs) (\<lambda>ds. Inr (d # ds)))"

text \<open>The certificates of a bundle: \<open>None\<close> when it has none (a bare public-key hint).\<close>

definition bundle_certs :: "json \<Rightarrow> json list" where
  "bundle_certs vm =
     (case as_array (json_index (json_index vm ''x509CertificateChain'') ''certificates'') of Some cs \<Rightarrow> cs | None \<Rightarrow> [])"

definition raw_bytes :: "json \<Rightarrow> string option" where
  "raw_bytes c = as_str (json_index c ''rawBytes'')"

definition leaf_b64 :: "json \<Rightarrow> string option" where
  "leaf_b64 vm = (case bundle_certs vm of c # _ \<Rightarrow> raw_bytes c | [] \<Rightarrow> None)"

record signer_identity =
  oidc_issuer :: string
  san :: string
  source_repo :: "string option"

definition fulcio_oid :: "nat \<Rightarrow> string" where
  "fulcio_oid n = map char_of [0x2b, 0x06, 0x01, 0x04, 0x01, 0x83, 0xbf, 0x30, 0x01, n]"

definition OID_SUBJECT_ALT_NAME :: string where
  "OID_SUBJECT_ALT_NAME = map char_of [0x55, 0x1d, 0x11 :: nat]"

definition der_string :: "string \<Rightarrow> string option" where
  "der_string value = Option.bind (read_tlv value) (\<lambda>t. from_utf8 (content t))"

definition read_signer_identity :: "parsed_cert \<Rightarrow> prov_error + signer_identity" where
  "read_signer_identity leaf =
     and_then (ok_or (Rejected ''provenance certificate has no OIDC issuer extension'')
       (case Option.bind (extension leaf (fulcio_oid 0x08)) der_string of
          Some i \<Rightarrow> Some i
        | None \<Rightarrow> Option.bind (extension leaf (fulcio_oid 0x01)) from_utf8)) (\<lambda>iss.
     and_then (ok_or (Rejected ''provenance certificate has no URI/email subject alternative name'')
       (Option.bind (Option.bind (extension leaf OID_SUBJECT_ALT_NAME) read_tlv) (\<lambda>seq.
          Option.bind (List.find (\<lambda>g. tag g = 0x86 \<or> tag g = 0x81) (children (content seq))) (\<lambda>g.
            from_utf8 (content g))))) (\<lambda>name.
       Inr \<lparr>oidc_issuer = iss, san = name,
            source_repo = Option.bind (extension leaf (fulcio_oid 0x0c)) der_string\<rparr>))"

text \<open>\<open>Unsupported\<close> is \<open>None\<close> here.\<close>

definition verify_signer ::
  "crypto \<Rightarrow> (string \<Rightarrow> json option) \<Rightarrow> anchors \<Rightarrow> json \<Rightarrow> string \<Rightarrow> string list \<Rightarrow> string \<Rightarrow> string \<Rightarrow>
     prov_error + signer_identity" where
  "verify_signer K J A vm leaf_der chain_ders sig payload =
     and_then (ok_or (Rejected ''bundle has no Rekor tlog entries'') (as_array (json_index vm ''tlogEntries''))) (\<lambda>tlog.
     and_then (ensure (tlog \<noteq> []) (Rejected ''bundle has no Rekor transparency log entries'')) (\<lambda>_.
     and_then (check_tlog K J A leaf_der sig payload None tlog) (\<lambda>found.
     and_then (ok_or (Rejected ''no Rekor entry in the bundle records this signature and certificate'') found) (\<lambda>as_of.
     and_then (map_err ''provenance signer is not Fulcio-issued: '' (verify_fulcio_chain K A leaf_der chain_ders as_of)) (\<lambda>_.
     and_then (parse_cert K leaf_der) read_signer_identity)))))"

definition verify_attestation ::
  "crypto \<Rightarrow> (string \<Rightarrow> json option) \<Rightarrow> anchors \<Rightarrow> json \<Rightarrow> string \<Rightarrow> string \<Rightarrow> string \<Rightarrow> prov_error + signer_identity option" where
  "verify_attestation K J A att pkg_name version sha512 =
     and_then (ok_or (Rejected ''attestation missing predicateType'') (as_str (json_index att ''predicateType''))) (\<lambda>pt.
     let bundle = json_index att ''bundle''; envelope = json_index bundle ''dsseEnvelope'';
         vm = json_index bundle ''verificationMaterial''
     in and_then (read_payload K bundle) (\<lambda>payload.
        and_then (check_statement J pt payload pkg_name version sha512) (\<lambda>_.
        case leaf_b64 vm of
          None \<Rightarrow> Inr None
        | Some b64 \<Rightarrow>
            and_then (decode_b64 K b64 ''certificate rawBytes'') (\<lambda>leaf_der.
            and_then (extract_ec_public_key K leaf_der) (\<lambda>k.
            and_then (collect_certs K (List.map_filter raw_bytes (bundle_certs vm))) (\<lambda>chain_ders.
            and_then (ok_or (Rejected ''dsseEnvelope has no signatures array'')
              (as_array (json_index envelope ''signatures''))) (\<lambda>sigs.
            and_then (ensure (sigs \<noteq> []) (Rejected ''dsseEnvelope signatures array empty'')) (\<lambda>_.
            and_then (find_signature K k payload sigs) (\<lambda>found.
            and_then (ok_or (Rejected ''DSSE signature verification failed'') found) (\<lambda>sig.
              map_sum id Some (verify_signer K J A vm leaf_der chain_ders sig payload)))))))))))"

datatype verify_outcome = Verified "signer_identity list" | Unsupported

fun verify_each ::
  "crypto \<Rightarrow> (string \<Rightarrow> json option) \<Rightarrow> anchors \<Rightarrow> json list \<Rightarrow> string \<Rightarrow> string \<Rightarrow> string \<Rightarrow> signer_identity list \<Rightarrow>
     prov_error + verify_outcome" where
  "verify_each K J A [] pkg_name version sha512 signers = Inr (Verified signers)"
| "verify_each K J A (att # atts) pkg_name version sha512 signers =
     and_then (verify_attestation K J A att pkg_name version sha512) (\<lambda>r.
       case r of
         None \<Rightarrow> Inr Unsupported
       | Some s \<Rightarrow> verify_each K J A atts pkg_name version sha512 (signers @ [s]))"

definition verify_attestations ::
  "crypto \<Rightarrow> (string \<Rightarrow> json option) \<Rightarrow> anchors \<Rightarrow> json \<Rightarrow> string \<Rightarrow> string \<Rightarrow> string \<Rightarrow> prov_error + verify_outcome" where
  "verify_attestations K J A response pkg_name version sha512 =
     and_then (ok_or (Rejected ''provenance response missing attestations array'')
       (as_array (json_index response ''attestations''))) (\<lambda>atts.
     and_then (ensure (atts \<noteq> []) (Rejected ''provenance response contains zero attestations'')) (\<lambda>_.
       verify_each K J A atts pkg_name version sha512 []))"

section \<open>What a verified attestation shows\<close>

text \<open>The signed bytes determine what was signed: the length prefixes make the encoding injective.\<close>

lemma show_nat_space: "CHR '' '' \<notin> set (show_nat n)"
  using show_nat_digits [of n] by (auto simp: list_all_iff is_digit_def)

lemma show_nat_prefix:
  assumes "show_nat m @ CHR '' '' # x = show_nat n @ CHR '' '' # y"
  shows "m = n \<and> x = y"
proof -
  have a: "split_once CHR '' '' (show_nat m @ CHR '' '' # x) = Some (show_nat m, x)"
    by (simp add: split_once_Some show_nat_space)
  have b: "split_once CHR '' '' (show_nat n @ CHR '' '' # y) = Some (show_nat n, y)"
    by (simp add: split_once_Some show_nat_space)
  have eq: "(show_nat m, x) = (show_nat n, y)" using trans [OF sym [OF a [unfolded assms]] b] by (rule option.inject [THEN iffD1])
  have "digits_val (show_nat m) = digits_val (show_nat n)" by (rule arg_cong [of _ _ digits_val]) (use eq in blast)
  then have "m = n" by (simp only: digits_val_show_nat)
  with eq show ?thesis by simp
qed

text \<open>
  The DSSE pre-authentication encoding is injective: the bytes that are signed
  determine the payload type and the payload, whatever blanks and digits these contain, so a
  signature cannot be moved to another split of the same bytes.
\<close>

theorem dsse_pae_injective:
  "dsse_pae t p = dsse_pae t' p' \<longleftrightarrow> t = t' \<and> p = p'"
proof
  assume "dsse_pae t p = dsse_pae t' p'"
  then have eq: "show_nat (length t) @ CHR '' '' # t @ CHR '' '' # show_nat (length p) @ CHR '' '' # p =
      show_nat (length t') @ CHR '' '' # t' @ CHR '' '' # show_nat (length p') @ CHR '' '' # p'"
    by (simp add: dsse_pae_def)
  from show_nat_prefix [OF eq] have "t = t'"
    and eq2: "show_nat (length p) @ CHR '' '' # p = show_nat (length p') @ CHR '' '' # p'" by auto
  with show_nat_prefix [OF eq2] show "t = t' \<and> p = p'" by simp
qed simp

text \<open>What the log has to say about an attestation: a valid Rekor entry records this payload, this
  signature and this certificate, and the certificate chain held at the entry's time.\<close>

definition logged_signer ::
  "crypto \<Rightarrow> (string \<Rightarrow> json option) \<Rightarrow> anchors \<Rightarrow> json \<Rightarrow> string \<Rightarrow> string \<Rightarrow> string \<Rightarrow> signer_identity \<Rightarrow> bool" where
  "logged_signer K J A vm leaf_der sig payload signer \<longleftrightarrow>
     (\<exists>tlog entry t chain leaf. as_array (json_index vm ''tlogEntries'') = Some tlog \<and> entry \<in> set tlog \<and>
        (\<forall>e \<in> set tlog. verify_rekor K A e = Inr ()) \<and> entry_binds K J entry leaf_der sig payload \<and>
        json_u64 (json_index entry ''integratedTime'') ''integratedTime'' = Inr t \<and>
        verify_fulcio_chain K A leaf_der chain (as_i64 t) = Inr () \<and>
        parse_cert K leaf_der = Inr leaf \<and> read_signer_identity leaf = Inr signer)"

definition attested ::
  "crypto \<Rightarrow> (string \<Rightarrow> json option) \<Rightarrow> anchors \<Rightarrow> string \<Rightarrow> string \<Rightarrow> string \<Rightarrow> json \<Rightarrow> signer_identity \<Rightarrow> bool" where
  "attested K J A pkg_name version sha512 att signer \<longleftrightarrow>
     (\<exists>payload statement leaf_der k sig sig_der.
        read_payload K (json_index att ''bundle'') = Inr payload \<and> J payload = Some statement \<and>
        subject_matches statement pkg_name version \<and> subject_digest_matches statement sha512 \<and>
        is_statement statement \<and> extract_ec_public_key K leaf_der = Inr k \<and> b64_decode K sig = Some sig_der \<and>
        verify_dsse_signature K k ''application/vnd.in-toto+json'' payload sig_der = Inr () \<and>
        logged_signer K J A (json_index (json_index att ''bundle'') ''verificationMaterial'') leaf_der sig payload signer)"

lemma find_signature_verifies:
  "find_signature K k payload sigs = Inr (Some sig) \<Longrightarrow>
     \<exists>d. b64_decode K sig = Some d \<and> verify_dsse_signature K k ''application/vnd.in-toto+json'' payload d = Inr ()"
  by (induction sigs) (auto simp: result_simps split: if_splits)

lemma check_tlog_entry:
  assumes "check_tlog K J A leaf_der sig payload as_of tlog = Inr (Some t)"
  shows "(\<forall>e \<in> set tlog. verify_rekor K A e = Inr ()) \<and>
    (as_of = Some t \<or> (\<exists>entry \<in> set tlog. entry_binds K J entry leaf_der sig payload \<and>
       (\<exists>n. json_u64 (json_index entry ''integratedTime'') ''integratedTime'' = Inr n \<and> t = as_i64 n)))"
  using assms
proof (induction tlog arbitrary: as_of)
  case (Cons e tlog)
  then have r: "verify_rekor K A e = Inr ()" by (auto simp: result_simps map_err_Inr)
  show ?case
  proof (cases "as_of = None \<and> entry_binds K J e leaf_der sig payload")
    case True
    with Cons.prems r obtain n where n: "json_u64 (json_index e ''integratedTime'') ''integratedTime'' = Inr n"
      and c: "check_tlog K J A leaf_der sig payload (Some (as_i64 n)) tlog = Inr (Some t)"
      by (auto simp: result_simps)
    from Cons.IH [OF c] n True r show ?thesis by auto
  next
    case False
    with Cons.prems r have "check_tlog K J A leaf_der sig payload as_of tlog = Inr (Some t)" by auto
    from Cons.IH [OF this] r show ?thesis by auto
  qed
qed simp

lemma verify_signer_logged:
  assumes "verify_signer K J A vm leaf_der chain sig payload = Inr signer"
  shows "logged_signer K J A vm leaf_der sig payload signer"
proof -
  from assms obtain tlog as_of leaf where t: "as_array (json_index vm ''tlogEntries'') = Some tlog"
    and c: "check_tlog K J A leaf_der sig payload None tlog = Inr (Some as_of)"
    and f: "verify_fulcio_chain K A leaf_der chain as_of = Inr ()"
    and l: "parse_cert K leaf_der = Inr leaf" "read_signer_identity leaf = Inr signer"
    by (auto simp: verify_signer_def result_simps map_err_Inr)
  from check_tlog_entry [OF c] t f l show ?thesis unfolding logged_signer_def by blast
qed

lemma map_sum_Some: "map_sum id Some r = Inr (Some x) \<longleftrightarrow> r = Inr x"
  by (cases r) auto

lemma verify_attestation_attested:
  assumes "verify_attestation K J A att pkg_name version sha512 = Inr (Some signer)"
  shows "attested K J A pkg_name version sha512 att signer"
proof -
  from assms obtain pt payload statement b64 leaf_der k chain sigs sig where
    p: "read_payload K (json_index att ''bundle'') = Inr payload"
      "check_statement J pt payload pkg_name version sha512 = Inr statement"
    and k: "extract_ec_public_key K leaf_der = Inr k"
    and sig: "find_signature K k payload sigs = Inr (Some sig)"
    and v: "verify_signer K J A (json_index (json_index att ''bundle'') ''verificationMaterial'') leaf_der chain sig payload = Inr signer"
    unfolding verify_attestation_def
    by (auto simp: result_simps Let_def map_sum_Some split: option.split_asm)
  from p(2) have "J payload = Some statement" "subject_matches statement pkg_name version"
    "subject_digest_matches statement sha512" "is_statement statement"
    by (auto simp: check_statement_def result_simps)
  with p(1) k find_signature_verifies [OF sig] verify_signer_logged [OF v] show ?thesis
    unfolding attested_def by blast
qed

lemma verify_each_attested:
  assumes "verify_each K J A atts pkg_name version sha512 acc = Inr (Verified signers)"
  shows "\<exists>new. signers = acc @ new \<and> list_all2 (attested K J A pkg_name version sha512) atts new"
  using assms
proof (induction atts arbitrary: acc)
  case (Cons att atts)
  then obtain s where s: "verify_attestation K J A att pkg_name version sha512 = Inr (Some s)"
    and rest: "verify_each K J A atts pkg_name version sha512 (acc @ [s]) = Inr (Verified signers)"
    by (auto simp: result_simps split: option.splits)
  from Cons.IH [OF rest] verify_attestation_attested [OF s] show ?case by fastforce
qed simp

lemma verify_attestations_attested:
  assumes "verify_attestations K J A response pkg_name version sha512 = Inr (Verified signers)"
  shows "\<exists>atts. as_array (json_index response ''attestations'') = Some atts \<and> atts \<noteq> [] \<and>
    list_all2 (attested K J A pkg_name version sha512) atts signers"
proof -
  from assms obtain atts where "as_array (json_index response ''attestations'') = Some atts" "atts \<noteq> []"
    "verify_each K J A atts pkg_name version sha512 [] = Inr (Verified signers)"
    by (auto simp: verify_attestations_def result_simps)
  with verify_each_attested show ?thesis by fastforce
qed

section \<open>The entry and the log\<close>

lemma proof_hashes_32: "proof_hashes K hs = Inr xs \<Longrightarrow> list_all (\<lambda>h. length h = 32) xs"
  by (induction hs arbitrary: xs) (auto simp: result_simps proof_hash_def)

lemma verify_inclusion_root:
  assumes "verify_inclusion K proof leaf_hash root_hash = Inr ()"
  shows "\<exists>index n hs. list_all (\<lambda>h. length h = 32) hs \<and> inclusion_root (sha256 K) index n leaf_hash hs = Some root_hash"
  using assms proof_hashes_32 [of K] by (auto simp: verify_inclusion_def result_simps) blast

lemma verify_checkpoint_root:
  assumes "verify_checkpoint K k log_id body_b64 proof = Inr ()"
  obtains msg sig root body where "verify_ecdsa K k Sha256 msg sig = Inr ()"
    "2 < length (split CHR 0x0A msg)" "b64_decode K (split CHR 0x0A msg ! 2) = Some root"
    "b64_decode K body_b64 = Some body" "verify_inclusion K proof (merkle_leaf_hash (sha256 K) body) root = Inr ()"
  using assms by (auto simp: verify_checkpoint_def result_simps decode_b64_def split: prod.splits)


end
