(* ===== verification/Signer_Policy.thy ===== *)
theory Signer_Policy
  imports Provenance Step_System
begin

text \<open>
  Who may sign a package: the repository a signer vouches for and the signer recorded on first
  install (\<open>SignerIdentity\<close>, \<open>normalize_repository\<close> and \<open>check_signer_pin\<close> of
  \<open>crates/pm/src/provenance.rs\<close>), and the check of every downloaded package in
  \<open>crates/pm/src/lib.rs\<close> (\<open>check_signers\<close> and the provenance part of the install loop).

  The file \<open>.3va/provenance-signers.json\<close> is the map it holds, empty when it is missing or does not
  parse. Whether a write succeeds is a parameter; a write that fails is taken to leave the file.
\<close>

section \<open>Repositories\<close>

definition signer_repository :: "signer_identity \<Rightarrow> string option" where
  "signer_repository s =
     (case source_repo s of
        Some r \<Rightarrow> Some r
      | None \<Rightarrow> map_option fst (split_once_str ''/.github/'' (san s)))"

definition signer_pin :: "signer_identity \<Rightarrow> string" where
  "signer_pin s = oidc_issuer s @ '' '' @ (case signer_repository s of Some r \<Rightarrow> r | None \<Rightarrow> san s)"

text \<open>\<open>replace\<close> of every occurrence of a non-empty pattern.\<close>

definition replace_str :: "string \<Rightarrow> string \<Rightarrow> string \<Rightarrow> string" where
  "replace_str p r s = join r (split_str p s)"

definition strip_git :: "string \<Rightarrow> string" where
  "strip_git s =
     (let s = (case strip_prefix_str ''git+'' s of Some rest \<Rightarrow> rest | None \<Rightarrow> s)
      in case strip_prefix_str ''git://'' s of Some rest \<Rightarrow> ''https://'' @ rest | None \<Rightarrow> s)"

definition expand_shorthand :: "string \<Rightarrow> string" where
  "expand_shorthand s =
     (case strip_prefix_str ''git@'' s of
        Some rest \<Rightarrow>
          ''https://'' @ (case split_once CHR '':'' rest of Some (a, b) \<Rightarrow> a @ ''/'' @ b | None \<Rightarrow> rest)
      | None \<Rightarrow>
          (case strip_prefix_str ''github:'' s of
             Some rest \<Rightarrow> ''https://github.com/'' @ rest
           | None \<Rightarrow>
               if \<not> contains s ''://'' \<and> length (split CHR ''/'' s) = 2 then ''https://github.com/'' @ s else s))"

definition normalize_repository :: "string \<Rightarrow> string" where
  "normalize_repository r =
     (let s = expand_shorthand (strip_git (map to_lower (trim r)));
          s = replace_str ''http://'' ''https://'' (replace_str ''ssh://git@'' ''https://'' s);
          s = trim_end_matches ''/'' s
      in case strip_suffix_str ''.git'' s of Some t \<Rightarrow> t | None \<Rightarrow> s)"

section \<open>Trust on first use\<close>

type_synonym pins = "string \<rightharpoonup> string"

definition check_signer_pin :: "(pins \<Rightarrow> bool) \<Rightarrow> pins \<Rightarrow> string \<Rightarrow> string option \<Rightarrow> pins \<times> (string + unit)" where
  "check_signer_pin wr p pkg_name signer =
     (case (p pkg_name, signer) of
        (Some recorded, Some s) \<Rightarrow>
          if recorded = s then (p, Inr ())
          else (p, Inl (''provenance is signed by '' @ s @ '', but earlier versions were signed by '' @ recorded))
      | (Some recorded, None) \<Rightarrow>
          (p, Inl (''earlier versions carried provenance signed by '' @ recorded @ '', this one has none''))
      | (None, Some s) \<Rightarrow>
          let q = p(pkg_name \<mapsto> s)
          in if wr q then (q, Inr ()) else (p, Inl ''cannot record provenance signer'')
      | (None, None) \<Rightarrow> (p, Inr ()))"

definition declared_repository :: "json option \<Rightarrow> string option" where
  "declared_repository manifest =
     map_option normalize_repository (Option.bind manifest (\<lambda>m.
       case json_index m ''repository'' of
         String s \<Rightarrow> Some s
       | v \<Rightarrow> as_str (json_index v ''url'')))"

definition repository_ok :: "string option \<Rightarrow> bool \<Rightarrow> signer_identity \<Rightarrow> bool" where
  "repository_ok declared require signer \<longleftrightarrow>
     (case (declared, map_option normalize_repository (signer_repository signer)) of
        (Some d, Some s) \<Rightarrow> d = s
      | (None, _) \<Rightarrow> \<not> require
      | (Some _, None) \<Rightarrow> False)"

fun check_each_signer ::
  "(pins \<Rightarrow> bool) \<Rightarrow> string option \<Rightarrow> bool \<Rightarrow> pins \<Rightarrow> string \<Rightarrow> signer_identity list \<Rightarrow> pins \<times> (string + unit)" where
  "check_each_signer wr declared require p pkg_name [] = (p, Inr ())"
| "check_each_signer wr declared require p pkg_name (s # ss) =
     (if \<not> repository_ok declared require s
      then (p, Inl ''provenance was built from another repository than the package declares'')
      else case check_signer_pin wr p pkg_name (Some (signer_pin s)) of
        (q, Inl e) \<Rightarrow> (q, Inl e)
      | (q, Inr _) \<Rightarrow> check_each_signer wr declared require q pkg_name ss)"

definition check_signers ::
  "(pins \<Rightarrow> bool) \<Rightarrow> pins \<Rightarrow> string \<Rightarrow> json option \<Rightarrow> signer_identity list \<Rightarrow> bool \<Rightarrow> pins \<times> (string + unit)" where
  "check_signers wr p pkg_name manifest signers require =
     check_each_signer wr (declared_repository manifest) require p pkg_name signers"

section \<open>The check of a downloaded package\<close>

datatype fetched = Attestations json | No_Attestations | Fetch_Failed

text \<open>What the install loop does with a package: it goes on (\<open>Inr\<close>) or records an error.\<close>

definition no_provenance :: "(pins \<Rightarrow> bool) \<Rightarrow> pins \<Rightarrow> string \<Rightarrow> bool \<Rightarrow> string \<Rightarrow> pins \<times> (string + unit)" where
  "no_provenance wr p pkg_name require why =
     (case check_signer_pin wr p pkg_name None of
        (q, Inl e) \<Rightarrow> (q, Inl e)
      | (q, Inr _) \<Rightarrow> if require then (q, Inl why) else (q, Inr ()))"

definition provenance_gate ::
  "crypto \<Rightarrow> (string \<Rightarrow> json option) \<Rightarrow> anchors \<Rightarrow> (pins \<Rightarrow> bool) \<Rightarrow> bool \<Rightarrow> pins \<Rightarrow> string \<Rightarrow> string \<Rightarrow> string \<Rightarrow>
     json option \<Rightarrow> fetched \<Rightarrow> pins \<times> (string + unit)" where
  "provenance_gate K J A wr require p pkg_name version sha512 manifest result =
     (case result of
        Attestations att \<Rightarrow>
          (case verify_attestations K J A att pkg_name version sha512 of
             Inr (Verified signers) \<Rightarrow> check_signers wr p pkg_name manifest signers require
           | Inr Unsupported \<Rightarrow>
               no_provenance wr p pkg_name require ''provenance required but its bundle format can not be verified''
           | Inl _ \<Rightarrow> (p, Inl ''invalid provenance''))
      | No_Attestations \<Rightarrow>
          no_provenance wr p pkg_name require ''provenance required but the registry publishes none''
      | Fetch_Failed \<Rightarrow> no_provenance wr p pkg_name require ''provenance required but unavailable'')"

section \<open>Pins are kept\<close>

lemma check_signer_pin_keeps: "check_signer_pin wr p pkg s = (q, r) \<Longrightarrow> p \<subseteq>\<^sub>m q"
  by (auto simp: check_signer_pin_def Let_def map_le_def split: option.splits if_splits)

lemma check_signer_pin_ok:
  "check_signer_pin wr p pkg (Some s) = (q, Inr u) \<Longrightarrow> q pkg = Some s"
  by (auto simp: check_signer_pin_def Let_def split: option.splits if_splits)

lemma check_each_signer_keeps: "check_each_signer wr d require p pkg ss = (q, r) \<Longrightarrow> p \<subseteq>\<^sub>m q"
proof (induction ss arbitrary: p)
  case (Cons s ss)
  then show ?case
    using check_signer_pin_keeps [of wr p pkg "Some (signer_pin s)"] map_le_trans
    by (fastforce split: if_splits prod.splits sum.splits)
qed simp

lemma check_each_signer_ok:
  "check_each_signer wr d require p pkg ss = (q, Inr u) \<Longrightarrow>
     list_all (\<lambda>s. repository_ok d require s \<and> q pkg = Some (signer_pin s)) ss"
proof (induction ss arbitrary: p)
  case (Cons s ss)
  from Cons.prems obtain p' where r: "repository_ok d require s"
    and c: "check_signer_pin wr p pkg (Some (signer_pin s)) = (p', Inr ())"
    and rest: "check_each_signer wr d require p' pkg ss = (q, Inr u)"
    by (auto split: if_splits prod.splits sum.splits)
  have "q pkg = Some (signer_pin s)"
    using check_signer_pin_ok [OF c] check_each_signer_keeps [OF rest] by (auto simp: map_le_def dom_def)
  with r Cons.IH [OF rest] show ?case by simp
qed simp

lemma no_provenance_keeps: "no_provenance wr p pkg require why = (q, r) \<Longrightarrow> p \<subseteq>\<^sub>m q"
  using check_signer_pin_keeps by (fastforce simp: no_provenance_def split: if_splits prod.splits sum.splits)

lemma no_provenance_ok: "no_provenance wr p pkg require why = (q, Inr u) \<Longrightarrow> p pkg = None \<and> \<not> require"
  by (auto simp: no_provenance_def check_signer_pin_def split: if_splits prod.splits sum.splits option.splits)

lemma provenance_gate_keeps:
  "provenance_gate K J A wr require p pkg version sha manifest result = (q, r) \<Longrightarrow> p \<subseteq>\<^sub>m q"
  using check_each_signer_keeps no_provenance_keeps
  by (fastforce simp: provenance_gate_def check_signers_def split: fetched.splits sum.splits verify_outcome.splits)
text \<open>The installs of a project, as far as the recorded signers go: any package, with whatever the
  registry answers for it.\<close>

inductive install_step :: "pins \<Rightarrow> pins \<Rightarrow> bool" where
  install: "provenance_gate K J A wr require p pkg version sha manifest result = (q, r) \<Longrightarrow> install_step p q"

interpretation recorded_signers: step_relation install_step "\<lambda>p q. p \<subseteq>\<^sub>m q"
proof unfold_locales
  show "p \<subseteq>\<^sub>m q" if "install_step p q" for p q
    using that by cases (rule provenance_gate_keeps)
qed (auto intro: map_le_trans)


lemma repository_ok_required:
  "repository_ok declared True i \<Longrightarrow>
     \<exists>d. declared = Some d \<and> map_option normalize_repository (signer_repository i) = Some d"
  by (auto simp: repository_ok_def split: option.split_asm)

text \<open>
  Claim C14 (safety). With \<open>--require-provenance\<close> a package gets past the check only when it is
  attested: the registry's answer is verified, every signer built from the repository that the
  package's own manifest declares, and all signers are the one on record afterwards.
\<close>

theorem required_provenance_is_attested:
  assumes "provenance_gate K J A wr True p pkg version sha manifest result = (q, Inr ())"
  shows "\<exists>att signers atts. result = Attestations att \<and> as_array (json_index att ''attestations'') = Some atts \<and>
    atts \<noteq> [] \<and> list_all2 (attested K J A pkg version sha) atts signers \<and>
    list_all (\<lambda>i. \<exists>d. declared_repository manifest = Some d \<and>
      map_option normalize_repository (signer_repository i) = Some d \<and> q pkg = Some (signer_pin i)) signers"
proof -
  have none: "no_provenance wr p pkg True why \<noteq> (q, Inr ())" for why using no_provenance_ok by fastforce
  with assms obtain att signers where r: "result = Attestations att"
    and v: "verify_attestations K J A att pkg version sha = Inr (Verified signers)"
    and c: "check_each_signer wr (declared_repository manifest) True p pkg signers = (q, Inr ())"
    by (auto simp: provenance_gate_def check_signers_def split: fetched.splits sum.splits verify_outcome.splits)
  from check_each_signer_ok [OF c]
  have "list_all (\<lambda>i. \<exists>d. declared_repository manifest = Some d \<and>
      map_option normalize_repository (signer_repository i) = Some d \<and> q pkg = Some (signer_pin i)) signers"
    by (rule list.pred_mono_strong) (use repository_ok_required in blast)
  with r verify_attestations_attested [OF v] show ?thesis by blast
qed

end
