(* ===== verification/Attestation_Example.thy ===== *)
theory Attestation_Example
  imports Signer_Policy
begin

text \<open>
  An attested package: a bundle for \<open>p@1\<close> that passes every check, with the identity as base64,
  \<open>pad32\<close> as hash and one signing key. It instantiates the crates' parameters, shows that the
  hypotheses of the theorems on provenance can hold, and evaluates the cases in which the code does
  not refuse what it should.
\<close>

definition signed_leaf :: string where
  "signed_leaf = demo_cert ''r'' ''l''
     [(OID_EXT_KEY_USAGE, der_encode 0x30 (der_encode 0x06 OID_CODE_SIGNING)),
      (fulcio_oid 0x08, der_encode 0x0c ''oidc''), (OID_SUBJECT_ALT_NAME, der_encode 0x30 (der_encode 0x86 ''uri'')),
      (fulcio_oid 0x0c, der_encode 0x0c ''https://h/o/r'')]"

definition demo_keys :: crypto where
  "demo_keys = demo_crypto\<lparr>sha256 := pad32, b64_decode := (\<lambda>s. Some (if s = ''leaf'' then signed_leaf else if s = ''pem'' then ''leaf'' else s))\<rparr>"

definition demo_statement :: json where
  "demo_statement = Object
     [(''subject'', Array [Object [(''name'', String ''p@1''), (''digest'', Object [(''sha512'', String ''AB'')])]]),
      (''_type'', String ''https://in-toto.io/Statement/v1''), (''predicateType'', String ''slsa'')]"

definition demo_body :: json where
  "demo_body = Object
     [(''kind'', String ''dsse''),
      (''spec'', Object [(''payloadHash'', Object [(''value'', String (pad32 ''payload''))]),
         (''signatures'', Array [Object [(''signature'', String ''s''), (''verifier'', String ''pem'')]])])]"

definition demo_json :: "string \<Rightarrow> json option" where
  "demo_json s = (if s = ''payload'' then Some demo_statement else if s = ''body'' then Some demo_body else None)"

definition demo_log_id :: string where
  "demo_log_id = pad32 (demo_spki ''k'')"

definition demo_checkpoint :: string where
  "demo_checkpoint =
     ''rekor'' @ [CHR 0x0A] @ ''1'' @ [CHR 0x0A] @ mth pad32 [''body''] @ [CHR 0x0A, CHR 0x0A] @
     em_dash @ '' rekor '' @ take 4 demo_log_id @ ''s''"

definition demo_proof :: json where
  "demo_proof = Object
     [(''checkpoint'', Object [(''envelope'', String demo_checkpoint)]),
      (''logIndex'', Number 0), (''treeSize'', Number 1), (''hashes'', Array [])]"

definition demo_entry :: "json \<Rightarrow> json" where
  "demo_entry incl = Object
     [(''logId'', Object [(''keyId'', String demo_log_id)]), (''canonicalizedBody'', String ''body''),
      (''integratedTime'', Number 1700000000), (''logIndex'', Number 0),
      (''inclusionPromise'', Object [(''signedEntryTimestamp'', String ''s'')]), (''inclusionProof'', incl)]"

definition demo_attestation :: "json \<Rightarrow> json" where
  "demo_attestation vm = Object
     [(''predicateType'', String ''slsa''),
      (''bundle'', Object
         [(''mediaType'', String ''application/vnd.dev.sigstore.bundle.v0.3+json''),
          (''dsseEnvelope'', Object [(''payloadType'', String ''application/vnd.in-toto+json''),
             (''payload'', String ''payload''), (''signatures'', Array [Object [(''sig'', String ''s'')]])]),
          (''verificationMaterial'', vm)])]"

definition demo_material :: json where
  "demo_material = Object
     [(''x509CertificateChain'', Object [(''certificates'', Array [Object [(''rawBytes'', String ''leaf'')]])]),
      (''tlogEntries'', Array [demo_entry demo_proof])]"

definition demo_response :: "json list \<Rightarrow> json" where
  "demo_response atts = Object [(''attestations'', Array atts)]"

definition demo_signer :: signer_identity where
  "demo_signer = \<lparr>oidc_issuer = ''oidc'', san = ''uri'', source_repo = Some ''https://h/o/r''\<rparr>"

lemma demo_verified:
  "verify_attestations demo_keys demo_json demo_anchors (demo_response [demo_attestation demo_material])
     ''p'' ''1'' ''ab'' = Inr (Verified [demo_signer])"
  by code_simp

definition demo_manifest :: "json option" where
  "demo_manifest = Some (Object [(''repository'', String ''git+https://h/o/r.git'')])"

definition demo_pin :: string where
  "demo_pin = ''oidc https://h/o/r''"

lemma demo_signer_ok:
  "repository_ok (declared_repository demo_manifest) True demo_signer" "signer_pin demo_signer = demo_pin"
  by code_simp+

lemma demo_gate:
  assumes "p = Map.empty \<or> p = [''p'' \<mapsto> demo_pin]"
  shows "provenance_gate demo_keys demo_json demo_anchors (\<lambda>_. True) True p ''p'' ''1'' ''ab'' demo_manifest
    (Attestations (demo_response [demo_attestation demo_material])) = ([''p'' \<mapsto> demo_pin], Inr ())"
  using assms demo_signer_ok
  by (auto simp: provenance_gate_def demo_verified check_signers_def check_signer_pin_def Let_def)

theorem required_provenance_is_attested_witness:
  "\<exists>att signers atts. Attestations (demo_response [demo_attestation demo_material]) = Attestations att \<and>
    as_array (json_index att ''attestations'') = Some atts \<and>
    atts \<noteq> [] \<and> list_all2 (attested demo_keys demo_json demo_anchors ''p'' ''1'' ''ab'') atts signers \<and>
    list_all (\<lambda>i. \<exists>d. declared_repository demo_manifest = Some d \<and>
      map_option normalize_repository (signer_repository i) = Some d \<and> [''p'' \<mapsto> demo_pin] ''p'' = Some (signer_pin i)) signers"
  by (rule required_provenance_is_attested [OF demo_gate [of Map.empty]]) simp



text \<open>An inclusion proof without a checkpoint is not refused with an error: the lookup panics.\<close>

lemma missing_checkpoint_panics:
  "verify_rekor demo_keys demo_anchors (demo_entry (Object [(''logIndex'', Number 0)])) = Inl Panicked"
  by code_simp

text \<open>An attestation without a certificate ends the loop: the one behind it, whose signature is
  wrong, is an error on its own but is not looked at.\<close>

definition tampered_attestation :: json where
  "tampered_attestation = Object [(''predicateType'', String ''slsa''), (''bundle'', Null)]"

lemma unsupported_hides_the_rest:
  "verify_attestations demo_keys demo_json demo_anchors (demo_response [demo_attestation Null, tampered_attestation])
     ''p'' ''1'' ''ab'' = Inr Unsupported \<and>
   verify_attestations demo_keys demo_json demo_anchors (demo_response [tampered_attestation])
     ''p'' ''1'' ''ab'' = Inl (Rejected ''bundle missing mediaType'')"
  by code_simp

end
