(* ===== verification/Tarball.thy ===== *)
theory Tarball
  imports Fs_Path
begin

text \<open>
  Unpacking a package: the loop of \<open>extract_tarball_with_limits\<close> in \<open>crates/pm/src/lib.rs\<close>. The
  archive is what the \<open>tar\<close> crate reads from it: for every entry its path (as components), its kind
  and the size its header declares, or an error. The file system answers per entry, since the
  loop itself changes it: \<open>real\<close> gives the canonical form of a path that exists.
\<close>

datatype entry_kind = Regular | Directory | Symlink | Link

record tar_entry =
  entry_path :: "path option"
  entry_kind :: entry_kind
  entry_size :: "nat option"
  real :: "path \<Rightarrow> path option"
  mkdir_ok :: bool
  unpack_ok :: bool

record extract_limits =
  max_file_bytes :: nat
  max_total_bytes :: nat
  max_entries :: nat

definition default_limits :: extract_limits where
  "default_limits = \<lparr>max_file_bytes = 512 * 1024 * 1024, max_total_bytes = 2 * 1024 * 1024 * 1024, max_entries = 100000\<rparr>"

datatype extract_error = Bad_Archive | Too_Many_Entries | File_Too_Large | Total_Too_Large | Io_Error

text \<open>The nearest existing ancestor of a path, resolved.\<close>

function check_base :: "(path \<Rightarrow> path option) \<Rightarrow> path \<Rightarrow> path \<Rightarrow> path" where
  "check_base r dest_canonical p =
     (case r p of
        Some c \<Rightarrow> c
      | None \<Rightarrow> if p = [] \<or> p = [RootDir] then dest_canonical else check_base r dest_canonical (butlast p))"
  by pat_completeness auto
termination
  by (relation "measure (\<lambda>(r, d, p). length p)") auto

declare check_base.simps [simp del]

definition is_unsafe :: "path \<Rightarrow> bool" where
  "is_unsafe cleaned \<longleftrightarrow> list_ex (\<lambda>c. c = ParentDir \<or> c = RootDir) cleaned"

text \<open>What happens to one entry: it is skipped, or unpacked to a path with its declared size.\<close>

datatype entry_verdict = Skip | Unpack path nat

definition judge_entry :: "extract_limits \<Rightarrow> path \<Rightarrow> path \<Rightarrow> tar_entry \<Rightarrow> nat \<Rightarrow> extract_error + entry_verdict" where
  "judge_entry lim dest dest_canonical e tot =
     (case entry_path e of
        None \<Rightarrow> Inl Bad_Archive
      | Some p \<Rightarrow>
          let cleaned = drop 1 p; out = path_join dest cleaned
          in if cleaned = [] then Inr Skip
             else if is_unsafe cleaned then Inr Skip
             else if \<not> prefix dest_canonical (check_base (real e) dest_canonical out) then Inr Skip
             else if entry_kind e = Symlink \<or> entry_kind e = Link then Inr Skip
             else if \<not> mkdir_ok e then Inl Io_Error
             else (case entry_size e of
                     None \<Rightarrow> Inl Bad_Archive
                   | Some declared \<Rightarrow>
                       if declared > max_file_bytes lim then Inl File_Too_Large
                       else if min u64_max (tot + declared) > max_total_bytes lim then Inl Total_Too_Large
                       else if \<not> unpack_ok e then Inl Io_Error
                       else Inr (Unpack out declared)))"

text \<open>The loop: the paths written so far and the result. A file whose unpacking fails counts as not
  written.\<close>

fun extract_entries ::
  "extract_limits \<Rightarrow> path \<Rightarrow> path \<Rightarrow> nat \<Rightarrow> nat \<Rightarrow> tar_entry option list \<Rightarrow> (path \<times> nat) list \<Rightarrow>
     (path \<times> nat) list \<times> (extract_error + unit)" where
  "extract_entries lim dest dest_canonical seen tot [] out = (out, Inr ())"
| "extract_entries lim dest dest_canonical seen tot (None # es) out = (out, Inl Bad_Archive)"
| "extract_entries lim dest dest_canonical seen tot (Some e # es) out =
     (if seen + 1 > max_entries lim then (out, Inl Too_Many_Entries)
      else (case judge_entry lim dest dest_canonical e tot of
              Inl err \<Rightarrow> (out, Inl err)
            | Inr Skip \<Rightarrow> extract_entries lim dest dest_canonical (seen + 1) tot es out
            | Inr (Unpack p n) \<Rightarrow>
                extract_entries lim dest dest_canonical (seen + 1) (min u64_max (tot + n)) es (out @ [(p, n)])))"

definition extract_tarball_with_limits ::
  "extract_limits \<Rightarrow> path \<Rightarrow> path \<Rightarrow> tar_entry option list \<Rightarrow> (path \<times> nat) list \<times> (extract_error + unit)" where
  "extract_tarball_with_limits lim dest dest_canonical es = extract_entries lim dest dest_canonical 0 0 es []"

section \<open>What is written\<close>

definition written_inside :: "path \<Rightarrow> path \<Rightarrow> bool" where
  "written_inside dest p \<longleftrightarrow> (\<exists>ns. ns \<noteq> [] \<and> p = dest @ map Normal ns)"

text \<open>The components of a path after its first: no further root, and no dot.\<close>

definition archive_path :: "path \<Rightarrow> bool" where
  "archive_path p \<longleftrightarrow> CurDir \<notin> set (tl p)"

lemma safe_components:
  "\<not> is_unsafe cs \<Longrightarrow> CurDir \<notin> set cs \<Longrightarrow> \<exists>ns. cs = map Normal ns"
proof (induction cs)
  case (Cons c cs)
  then obtain ns where "cs = map Normal ns" by (auto simp: is_unsafe_def)
  moreover obtain s where "c = Normal s" using Cons.prems by (cases c) (auto simp: is_unsafe_def)
  ultimately show ?case by (intro exI [of _ "s # ns"]) simp
qed simp

lemma judge_entry_unpack:
  assumes "judge_entry lim dest dc e tot = Inr (Unpack p n)"
    and "dest \<noteq> []" and "\<And>q. entry_path e = Some q \<Longrightarrow> archive_path q"
  shows "written_inside dest p" and "n \<le> max_file_bytes lim" and "min u64_max (tot + n) \<le> max_total_bytes lim"
    and "entry_kind e \<noteq> Symlink" and "entry_kind e \<noteq> Link"
proof -
  from assms(1) obtain q where q: "entry_path e = Some q" by (auto simp: judge_entry_def split: option.splits)
  with assms(1) have u: "drop 1 q \<noteq> []" "\<not> is_unsafe (drop 1 q)" "p = path_join dest (drop 1 q)"
    "n \<le> max_file_bytes lim" "min u64_max (tot + n) \<le> max_total_bytes lim"
    "entry_kind e \<noteq> Symlink" "entry_kind e \<noteq> Link"
    by (auto simp: judge_entry_def Let_def not_less split: if_splits option.splits)
  then show "n \<le> max_file_bytes lim" "min u64_max (tot + n) \<le> max_total_bytes lim"
    "entry_kind e \<noteq> Symlink" "entry_kind e \<noteq> Link" by simp_all
  have "CurDir \<notin> set (drop 1 q)" using assms(3) [OF q] by (simp add: archive_path_def drop_Suc)
  then obtain ns where ns: "drop 1 q = map Normal ns" using safe_components [OF u(2)] by blast
  then have "path_join dest (drop 1 q) = dest @ map Normal ns"
    using assms(2) by (cases ns) (auto simp: path_join_def is_absolute_def filter_id_conv)
  moreover have "ns \<noteq> []" using u(1) ns by auto
  ultimately show "written_inside dest p" using u(3) by (auto simp: written_inside_def)
qed

definition archive_ok :: "tar_entry option list \<Rightarrow> bool" where
  "archive_ok es \<longleftrightarrow> (\<forall>e q. Some e \<in> set es \<and> entry_path e = Some q \<longrightarrow> archive_path q)"
lemma extract_entries_bounds:
  assumes "extract_entries lim dest dc seen tot es out = (ws, r)"
    and "dest \<noteq> []" and "archive_ok es" and "max_total_bytes lim < u64_max"
    and "list_all (\<lambda>(p, n). written_inside dest p \<and> n \<le> max_file_bytes lim) out"
    and "length out \<le> seen" and "seen \<le> max_entries lim" and "sum_list (map snd out) = tot" and "tot \<le> max_total_bytes lim"
  shows "list_all (\<lambda>(p, n). written_inside dest p \<and> n \<le> max_file_bytes lim) ws \<and>
    length ws \<le> max_entries lim \<and> sum_list (map snd ws) \<le> max_total_bytes lim"
  using assms
proof (induction lim dest dc seen tot es out rule: extract_entries.induct)
  case (3 lim dest dc seen tot e es out)
  have ok: "archive_ok es" using "3.prems"(3) by (auto simp: archive_ok_def)
  have path: "\<And>q. entry_path e = Some q \<Longrightarrow> archive_path q" using "3.prems"(3) by (auto simp: archive_ok_def)
  show ?case
  proof (cases "seen + 1 > max_entries lim")
    case False
    show ?thesis
    proof (cases "judge_entry lim dest dc e tot")
      case (Inr v)
      show ?thesis
      proof (cases v)
        case Skip
        have "extract_entries lim dest dc (seen + 1) tot es out = (ws, r)" using "3.prems"(1) False Inr Skip by simp
        with "3.IH"(1) [OF False Inr Skip] "3.prems" ok False show ?thesis by simp
      next
        case (Unpack p n)
        note j = judge_entry_unpack [OF Inr [unfolded Unpack] "3.prems"(2) path]
        have t: "min u64_max (tot + n) = tot + n" using j(3) "3.prems"(4) by (simp add: min_def split: if_splits)
        have "extract_entries lim dest dc (seen + 1) (min u64_max (tot + n)) es (out @ [(p, n)]) = (ws, r)"
          using "3.prems"(1) False Inr Unpack by simp
        with "3.IH"(2) [OF False Inr Unpack] "3.prems" ok False j t show ?thesis by simp
      qed
    qed (use "3.prems" False in simp)
  qed (use "3.prems" in simp)
qed simp_all

text \<open>
  Claim C13 (safety). Whatever an archive holds, and whether the loop ends well or with an error:
  every file that is unpacked lies under the package's directory, at ordinary names only (no
  \<open>..\<close>, no absolute path), none is larger than the per-file cap, all of them together declare at
  most the total cap, and there are at most as many as the entry cap. The archive's paths are
  those that \<open>Path::components\<close> yields (no dot after the first component).
\<close>

theorem extraction_is_confined:
  assumes "extract_tarball_with_limits lim dest dc es = (ws, r)" and "dest \<noteq> []" and "archive_ok es"
    and "max_total_bytes lim < u64_max"
  shows "list_all (\<lambda>(p, n). written_inside dest p \<and> n \<le> max_file_bytes lim) ws \<and>
    length ws \<le> max_entries lim \<and> sum_list (map snd ws) \<le> max_total_bytes lim"
  using assms extract_entries_bounds [of lim dest dc 0 0 es "[]" ws r]
  by (simp add: extract_tarball_with_limits_def)

definition demo_tar :: "path \<Rightarrow> entry_kind \<Rightarrow> tar_entry option" where
  "demo_tar p k =
     Some \<lparr>entry_path = Some p, entry_kind = k, entry_size = Some 10,
           real = (\<lambda>q. if q = [RootDir, Normal ''d''] then Some q else None), mkdir_ok = True, unpack_ok = True\<rparr>"

definition demo_archive :: "tar_entry option list" where
  "demo_archive =
     [demo_tar [Normal ''package'', Normal ''index.js''] Regular,
      demo_tar [Normal ''package'', ParentDir, ParentDir, Normal ''etc''] Regular,
      demo_tar [Normal ''package'', Normal ''link''] Symlink,
      demo_tar [RootDir, Normal ''a''] Regular]"

theorem extraction_is_confined_witness:
  "let ws = fst (extract_tarball_with_limits default_limits [RootDir, Normal ''d''] [RootDir, Normal ''d''] demo_archive)
   in ws = [([RootDir, Normal ''d'', Normal ''index.js''], 10), ([RootDir, Normal ''d'', Normal ''a''], 10)] \<and>
      list_all (\<lambda>(p, n). written_inside [RootDir, Normal ''d''] p \<and> n \<le> max_file_bytes default_limits) ws"
proof -
  let ?r = "extract_tarball_with_limits default_limits [RootDir, Normal ''d''] [RootDir, Normal ''d''] demo_archive"
  have ws: "fst ?r = [([RootDir, Normal ''d'', Normal ''index.js''], 10), ([RootDir, Normal ''d'', Normal ''a''], 10)]"
    by code_simp
  have "archive_ok demo_archive" by (auto simp: archive_ok_def demo_archive_def demo_tar_def archive_path_def)
  with extraction_is_confined [of default_limits "[RootDir, Normal ''d'']" "[RootDir, Normal ''d'']" demo_archive "fst ?r" "snd ?r"]
  show ?thesis using ws by (simp add: default_limits_def Let_def)
qed

end
