(* ===== verification/Package_Names.thy ===== *)
theory Package_Names
  imports Fs_Path Semver_Order Json
begin

text \<open>
  Package names and what the package manager makes of them (\<open>crates/pm/src/lib.rs\<close>): valid names,
  the specs of the command line and of manifests, the version that is installed for a range, the
  directory a package is unpacked into and what \<open>3va remove\<close> takes away. Upper case is that of ASCII.
\<close>

section \<open>Names and specs\<close>

definition is_upper :: "char \<Rightarrow> bool" where
  "is_upper c \<longleftrightarrow> 65 \<le> (of_char c :: nat) \<and> (of_char c :: nat) \<le> 90"

definition is_valid_package_name :: "string \<Rightarrow> bool" where
  "is_valid_package_name name \<longleftrightarrow>
     (if name = [] \<or> length name > 214 then False
      else if starts_with name ''@'' then
        let parts = split CHR ''/'' name
        in length parts \<ge> 2 \<and> length (hd parts) \<ge> 2 \<and> list_all (\<lambda>p. p \<noteq> []) parts
      else if list_ex is_upper name then False
      else let parts = split CHR ''/'' name
           in if length parts > 1 \<and> (hd parts = [] \<or> last parts = []) then False
              else \<not> contains name ''::'' \<and> \<not> contains name ''..'')"

definition normalize_version :: "string \<Rightarrow> string" where
  "normalize_version version =
     (let v = dropWhile (\<lambda>c. c = CHR ''*'') (dropWhile (\<lambda>c. c = CHR ''^'') version)
      in if v = [] then ''*'' else v)"

definition is_registry_range :: "string \<Rightarrow> bool" where
  "is_registry_range rng =
     (let r = trim rng
      in if r = [] \<or> r = ''*'' \<or> r = ''latest'' then True
         else if contains r ''://'' \<or> CHR '':'' \<in> set r then False else True)"

definition saved_range :: "string \<Rightarrow> string option \<Rightarrow> bool \<Rightarrow> string" where
  "saved_range resolved save_prefix save_exact =
     (if save_exact then resolved
      else let prefix = (case save_prefix of Some p \<Rightarrow> p | None \<Rightarrow> ''^'')
           in if prefix = [] then resolved
              else if CHR ''-'' \<in> set resolved then resolved
              else prefix @ resolved)"

definition manifest_spec :: "string \<Rightarrow> string \<Rightarrow> string" where
  "manifest_spec name rng =
     (let r = trim rng
      in if r = [] \<or> r = ''*'' then name
         else if is_registry_range r then name @ ''@'' @ r
         else name @ ''@'' @ normalize_version r)"

definition parse_package_spec :: "string \<Rightarrow> string + (string \<times> string option)" where
  "parse_package_spec input =
     (case strip_prefix_str ''@'' input of
        Some after_at \<Rightarrow>
          (case split_once CHR ''/'' after_at of
             None \<Rightarrow> Inl ''Invalid scoped package format''
           | Some (scope, after_slash) \<Rightarrow>
               (case split_once CHR ''@'' after_slash of
                  Some (base, version) \<Rightarrow>
                    let name = ''@'' @ scope @ ''/'' @ base
                    in if \<not> is_valid_package_name name then Inl ''Invalid scoped package name''
                       else if version = [] then Inl ''Empty version specified''
                       else Inr (name, Some version)
                | None \<Rightarrow>
                    if \<not> is_valid_package_name input then Inl ''Invalid package name'' else Inr (input, None)))
      | None \<Rightarrow>
          let (name, version) = (case split_once CHR ''@'' input of
                                   None \<Rightarrow> (input, None)
                                 | Some (n, v) \<Rightarrow> (n, Some v))
          in if \<not> is_valid_package_name name then Inl ''Invalid package name''
             else (case version of
                     Some v \<Rightarrow> if CHR '':'' \<in> set v then Inl ''Invalid version'' else Inr (name, version)
                   | None \<Rightarrow> Inr (name, version)))"

text \<open>A name that does not hold a second \<open>@\<close>.\<close>

definition plain_spec_name :: "string \<Rightarrow> bool" where
  "plain_spec_name name \<longleftrightarrow> is_valid_package_name name \<and> CHR ''@'' \<notin> set (tl name)"

lemma valid_name_not_Nil: "is_valid_package_name name \<Longrightarrow> name \<noteq> []"
  by (auto simp: is_valid_package_name_def)

lemma parse_spec_plain:
  assumes "plain_spec_name name" and "v \<noteq> []" and "CHR '':'' \<notin> set v"
  shows "parse_package_spec (name @ CHR ''@'' # v) = Inr (name, Some v)"
proof -
  have ne: "name \<noteq> []" and valid: "is_valid_package_name name" and tl: "CHR ''@'' \<notin> set (tl name)"
    using assms(1) valid_name_not_Nil by (simp_all add: plain_spec_name_def)
  then obtain c t where name: "name = c # t" by (cases name) auto
  show ?thesis
  proof (cases "c = CHR ''@''")
    case True
    from valid have "2 \<le> length (split CHR ''/'' name)" by (simp add: is_valid_package_name_def name True starts_with_def Let_def split: if_splits)
    then have "CHR ''/'' \<in> set name" using split_no_sep [of "CHR ''/''" name] by (cases "CHR ''/'' \<in> set name") simp_all
    then have "CHR ''/'' \<in> set t" by (simp add: name True)
    then obtain scope base where t: "t = scope @ CHR ''/'' # base" "CHR ''/'' \<notin> set scope"
      by (meson split_list_first)
    have s1: "split_once CHR ''/'' (t @ CHR ''@'' # v) = Some (scope, base @ CHR ''@'' # v)"
      using t by (simp add: split_once_Some)
    have s2: "split_once CHR ''@'' (base @ CHR ''@'' # v) = Some (base, v)"
      using tl t by (simp add: name split_once_Some)
    have "strip_prefix_str ''@'' (name @ CHR ''@'' # v) = Some (t @ CHR ''@'' # v)"
      by (simp add: name True strip_prefix_str_def)
    moreover have "''@'' @ scope @ ''/'' @ base = name" by (simp add: name True t)
    ultimately show ?thesis using valid assms(2) by (simp add: parse_package_spec_def s1 s2)
  next
    case False
    have "CHR ''@'' \<notin> set name" using tl False by (simp add: name)
    then have "split_once CHR ''@'' (name @ CHR ''@'' # v) = Some (name, v)" by (simp add: split_once_Some)
    moreover have "strip_prefix_str ''@'' (name @ CHR ''@'' # v) = None" using False by (simp add: name strip_prefix_str_def)
    ultimately show ?thesis using valid assms(3) by (simp add: parse_package_spec_def)
  qed
qed

text \<open>
  A dependency of a manifest reaches the resolver unchanged: for a valid name
  without a second \<open>@\<close>, and a range that the registry resolves and that is not blank or a star, the
  spec that \<open>manifest_spec\<close> writes is read back by \<open>parse_package_spec\<close> as exactly that name and that
  range, operators included, for plain and for scoped names.
\<close>

theorem manifest_range_reaches_resolver:
  assumes "plain_spec_name name" and "is_registry_range rng" and "trim rng \<notin> {[], ''*''}"
  shows "parse_package_spec (manifest_spec name rng) = Inr (name, Some (trim rng))"
proof -
  have "CHR '':'' \<notin> set (trim rng)"
    using assms(2,3) by (auto simp: is_registry_range_def Let_def split: if_splits)
  moreover have "is_registry_range (trim rng)" using assms(2) by (simp add: is_registry_range_def)
  ultimately show ?thesis
    using parse_spec_plain [OF assms(1), of "trim rng"] assms(3) by (simp add: manifest_spec_def Let_def)
qed

section \<open>The version for a range\<close>

text \<open>\<open>SemverRange::Any\<close> stands in for a range that does not parse.\<close>

definition range_or_any :: "string \<Rightarrow> semver_range" where
  "range_or_any s = (case parse_range s of Some r \<Rightarrow> r | None \<Rightarrow> Any)"

definition satisfying :: "string list \<Rightarrow> semver_range \<Rightarrow> (semver \<times> string) list" where
  "satisfying versions r =
     filter (\<lambda>(sv, _). range_matches r sv)
       (List.map_filter (\<lambda>v. map_option (\<lambda>sv. (sv, v)) (semver_parse v)) versions)"

definition select_best_version :: "string list \<Rightarrow> string \<Rightarrow> string option \<Rightarrow> string" where
  "select_best_version versions range_str latest =
     (case max_by (\<lambda>a b. semver_cmp (fst a) (fst b)) (satisfying versions (range_or_any range_str)) of
        Some (_, v) \<Rightarrow> v
      | None \<Rightarrow>
          (case latest of
             Some l \<Rightarrow> l
           | None \<Rightarrow> if versions = [] then ''latest'' else last versions))"

definition installed_version_satisfies :: "string \<Rightarrow> string option \<Rightarrow> bool" where
  "installed_version_satisfies installed requested =
     (case requested of
        None \<Rightarrow> True
      | Some requested \<Rightarrow>
          let requested = trim requested
          in if requested = [] \<or> requested = ''*'' \<or> requested = ''latest'' then True
             else if is_registry_range requested then
               (case parse_range requested of
                  None \<Rightarrow> True
                | Some r \<Rightarrow> (case semver_parse installed of None \<Rightarrow> False | Some sv \<Rightarrow> range_matches r sv))
             else True)"

interpretation published: comparison "\<lambda>a b :: semver \<times> string. semver_cmp (fst a) (fst b)"
  by (rule semver.comparison_on)

lemma satisfying_iff:
  "(sv, v) \<in> set (satisfying versions r) \<longleftrightarrow> v \<in> set versions \<and> semver_parse v = Some sv \<and> range_matches r sv"
  by (auto simp: satisfying_def List.map_filter_def) (force split: option.splits)+

text \<open>
  \<open>select_best_version\<close> picks, whenever a published version satisfies the
  range, a published version that satisfies it and whose precedence no other published version
  that satisfies it exceeds. Only when none does, it falls back to the registry's \<open>latest\<close>, then to
  the last published version, then to the word \<open>latest\<close>.
\<close>

theorem select_best_version_spec:
  "let r = range_or_any range_str;
       ok = (\<lambda>v sv. v \<in> set versions \<and> semver_parse v = Some sv \<and> range_matches r sv);
       best = select_best_version versions range_str latest
   in if \<exists>v sv. ok v sv
      then \<exists>sv. ok best sv \<and> \<not> (\<exists>v sv'. ok v sv' \<and> semver_cmp sv' sv = Greater)
      else best = (case latest of Some l \<Rightarrow> l | None \<Rightarrow> if versions = [] then ''latest'' else last versions)"
proof -
  let ?r = "range_or_any range_str" and ?cmp = "\<lambda>a b :: semver \<times> string. semver_cmp (fst a) (fst b)"
  show ?thesis
  proof (cases "max_by ?cmp (satisfying versions ?r)")
    case None
    then have "satisfying versions ?r = []" by (simp only: published.max_by_None)
    then have "\<not> (\<exists>v sv. v \<in> set versions \<and> semver_parse v = Some sv \<and> range_matches ?r sv)"
      using satisfying_iff [of _ _ versions ?r] by auto
    with None show ?thesis by (auto simp: select_best_version_def Let_def)
  next
    case (Some m)
    obtain sv v where m: "m = (sv, v)" by (cases m)
    from published.max_by_greatest [OF Some]
    have "(sv, v) \<in> set (satisfying versions ?r)" and "\<forall>y \<in> set (satisfying versions ?r). semver_cmp (fst y) sv \<noteq> Greater"
      by (simp_all add: m)
    then have best: "v \<in> set versions \<and> semver_parse v = Some sv \<and> range_matches ?r sv"
      and "\<not> (\<exists>v sv'. (v \<in> set versions \<and> semver_parse v = Some sv' \<and> range_matches ?r sv') \<and> semver_cmp sv' sv = Greater)"
      using satisfying_iff [of _ _ versions ?r] by fastforce+
    moreover have "select_best_version versions range_str latest = v" by (simp add: select_best_version_def Some m)
    ultimately show ?thesis by (auto simp: Let_def)
  qed
qed

section \<open>Where a package is unpacked\<close>

fun lex_step :: "path \<Rightarrow> component \<Rightarrow> path" where
  "lex_step out CurDir = out"
| "lex_step out ParentDir = (case pop_component out of Some p \<Rightarrow> p | None \<Rightarrow> out @ [ParentDir])"
| "lex_step out RootDir = [RootDir]"
| "lex_step out (Normal s) = out @ [Normal s]"

definition lexically_normalize :: "path \<Rightarrow> path" where
  "lexically_normalize p = foldl lex_step [] p"

definition safe_node_modules_path :: "path \<Rightarrow> string \<Rightarrow> string + path" where
  "safe_node_modules_path node_modules name =
     (let dest_norm = lexically_normalize (path_join node_modules (parse_path name))
      in if prefix node_modules dest_norm then Inr dest_norm
         else Inl ''resolved path escapes node_modules'')"

text \<open>In a normalised path only the first component, or the second after the root, is special.\<close>

definition special_at_front :: "path \<Rightarrow> bool" where
  "special_at_front p \<longleftrightarrow>
     (\<forall>i < length p. (\<exists>s. p ! i = Normal s) \<or> i = 0 \<or> (i = 1 \<and> p ! 0 = RootDir))"

lemma special_at_front_butlast: "special_at_front p \<Longrightarrow> special_at_front (butlast p)"
  by (auto simp: special_at_front_def nth_butlast)

lemma special_at_front_step: "special_at_front p \<Longrightarrow> special_at_front (lex_step p c)"
proof (cases c)
  case ParentDir
  assume "special_at_front p"
  with ParentDir special_at_front_butlast [of p] show ?thesis
    by (auto simp: pop_component_def special_at_front_def nth_append less_Suc_eq split: option.splits if_splits)
qed (auto simp: special_at_front_def nth_append less_Suc_eq)

lemma lexically_normalize_special: "special_at_front (lexically_normalize p)"
proof -
  have "special_at_front (foldl lex_step out p)" if "special_at_front out" for out
    using that by (induction p arbitrary: out) (auto intro: special_at_front_step)
  then show ?thesis by (simp add: lexically_normalize_def special_at_front_def)
qed

text \<open>
  Claim C12 (safety). Whatever a registry or a command line gives as a package's name, with \<open>..\<close>
  segments, dots, a leading slash or anything else: the directory that \<open>safe_node_modules_path\<close>
  lets it be installed in is \<open>node_modules\<close> followed by ordinary names only, so it lies inside
  \<open>node_modules\<close> and no later resolution of \<open>..\<close> can leave it.
\<close>

theorem install_path_is_inside:
  assumes "safe_node_modules_path node_modules name = Inr d" and "\<exists>p s. node_modules = p @ [Normal s]"
  shows "\<exists>ns. d = node_modules @ map Normal ns"
proof -
  from assms(1) obtain rest where d: "d = node_modules @ rest"
    and norm: "d = lexically_normalize (path_join node_modules (parse_path name))"
    by (auto simp: safe_node_modules_path_def Let_def prefix_def split: if_splits)
  from assms(2) obtain p s where nm: "node_modules = p @ [Normal s]" by blast
  have "\<exists>t. rest ! i = Normal t" if "i < length rest" for i
  proof -
    let ?i = "length node_modules + i"
    have "special_at_front d" unfolding norm by (rule lexically_normalize_special)
    moreover have "?i < length d" using that by (simp add: d)
    ultimately have "(\<exists>t. d ! ?i = Normal t) \<or> ?i = 0 \<or> (?i = 1 \<and> d ! 0 = RootDir)"
      unfolding special_at_front_def by blast
    moreover have "\<not> (?i = 1 \<and> d ! 0 = RootDir)" by (auto simp: d nm nth_append)
    ultimately show ?thesis by (auto simp: d nth_append nm split: if_splits)
  qed
  then have "rest = map Normal (map (\<lambda>i. SOME t. rest ! i = Normal t) [0..<length rest])"
    by (intro nth_equalityI) (auto intro: someI_ex)
  with d show ?thesis by blast
qed

theorem install_path_is_inside_witness:
  "\<exists>ns. [RootDir, Normal ''p'', Normal ''node_modules'', Normal ''b''] = [RootDir, Normal ''p'', Normal ''node_modules''] @ map Normal ns"
proof (rule install_path_is_inside)
  show "safe_node_modules_path [RootDir, Normal ''p'', Normal ''node_modules''] ''@a/../b'' =
      Inr [RootDir, Normal ''p'', Normal ''node_modules'', Normal ''b'']" by code_simp
  show "\<exists>p s. [RootDir, Normal ''p'', Normal ''node_modules''] = p @ [Normal s]"
    by (rule exI [of _ "[RootDir, Normal ''p'']"]) simp
qed

text \<open>Inside, but not always below it, nor in a directory of the package's own: the scoped name
  \<open>@a/..\<close> and the name \<open>.\<close> are valid and give \<open>node_modules\<close> itself (which unpacking first
  deletes), and \<open>@a/../b\<close> is valid and gives the directory of the package \<open>b\<close>.\<close>

lemma valid_names_outside_their_directory:
  "is_valid_package_name ''@a/..'' \<and> safe_node_modules_path [RootDir, Normal ''node_modules''] ''@a/..'' = Inr [RootDir, Normal ''node_modules''] \<and>
   is_valid_package_name ''.'' \<and> safe_node_modules_path [RootDir, Normal ''node_modules''] ''.'' = Inr [RootDir, Normal ''node_modules''] \<and>
   is_valid_package_name ''@a/../b'' \<and>
   safe_node_modules_path [RootDir, Normal ''node_modules''] ''@a/../b'' = safe_node_modules_path [RootDir, Normal ''node_modules''] ''b''"
  by code_simp

section \<open>\<open>3va remove\<close>\<close>

definition removal_name :: "string \<Rightarrow> string" where
  "removal_name name =
     (let pkg_name = dropWhile (\<lambda>c. c = CHR ''@'') (hd (split CHR ''@'' name))
      in if starts_with name ''@'' then
           (case split_once CHR ''/'' (dropWhile (\<lambda>c. c = CHR ''@'') name) of
              Some (scope, rest) \<Rightarrow> ''@'' @ hd (split CHR ''@'' (scope @ ''/'' @ rest))
            | None \<Rightarrow> pkg_name)
         else pkg_name)"

definition removal_target :: "path \<Rightarrow> string \<Rightarrow> path" where
  "removal_target root name = path_join (root @ [Normal ''node_modules'']) (parse_path (removal_name name))"

text \<open>A mutable index into a JSON value: a missing key is inserted with \<open>Null\<close>, and a value that
  is neither an object nor \<open>Null\<close> panics (\<open>None\<close>).\<close>

fun index_mut :: "json \<Rightarrow> string \<Rightarrow> (string \<times> json) list option" where
  "index_mut (Object fs) k = Some (if map_of fs k = None then fs @ [(k, Null)] else fs)"
| "index_mut Null k = Some [(k, Null)]"
| "index_mut _ k = None"

definition remove_key :: "string \<Rightarrow> json \<Rightarrow> json" where
  "remove_key k v = (case as_object v of Some fs \<Rightarrow> Object (filter (\<lambda>(k', _). k' \<noteq> k) fs) | None \<Rightarrow> v)"

definition has_key :: "string \<Rightarrow> json \<Rightarrow> bool" where
  "has_key k v \<longleftrightarrow> json_get v k \<noteq> None"

fun remove_from_fields :: "string \<Rightarrow> string list \<Rightarrow> json \<times> bool \<Rightarrow> (json \<times> bool) option" where
  "remove_from_fields name [] r = Some r"
| "remove_from_fields name (k # ks) (v, modified) =
     Option.bind (index_mut v k) (\<lambda>fs.
       let deps = (case map_of fs k of Some d \<Rightarrow> d | None \<Rightarrow> Null)
       in remove_from_fields name ks
            (Object (map (\<lambda>(k', x). (k', if k' = k then remove_key name x else x)) fs), modified \<or> has_key name deps))"

definition dependency_fields :: "string list" where
  "dependency_fields = [''dependencies'', ''devDependencies'', ''peerDependencies'', ''optionalDependencies'']"

text \<open>What is written back to \<open>package.json\<close>: \<open>Some None\<close> leaves the file alone.\<close>

definition remove_from_manifest :: "string \<Rightarrow> json \<Rightarrow> json option option" where
  "remove_from_manifest name v =
     map_option (\<lambda>(v', modified). if modified then Some v' else None)
       (remove_from_fields name dependency_fields (v, False))"

definition removed_lock_keys :: "string \<Rightarrow> string list \<Rightarrow> string list" where
  "removed_lock_keys name ks = filter (\<lambda>k. starts_with k name) ks"

text \<open>Removing a scope without a package deletes the whole \<open>node_modules\<close>; removing \<open>react\<close> takes
  the lockfile's entries for \<open>react-dom\<close> along; and the manifest that is written back has a \<open>null\<close>
  for every dependency field it did not have.\<close>

lemma remove_scope_removes_everything:
  "removal_target [RootDir, Normal ''p''] ''@types'' = [RootDir, Normal ''p'', Normal ''node_modules'']"
  by code_simp

lemma remove_takes_other_lock_entries:
  "removed_lock_keys ''react'' [''react@18.2.0'', ''react-dom@18.2.0'', ''vue@3.0.0''] = [''react@18.2.0'', ''react-dom@18.2.0'']"
  by code_simp

lemma remove_writes_null_fields:
  "remove_from_manifest ''a'' (Object [(''dependencies'', Object [(''a'', String ''1''), (''b'', String ''2'')])]) =
     Some (Some (Object [(''dependencies'', Object [(''b'', String ''2'')]), (''devDependencies'', Null),
       (''peerDependencies'', Null), (''optionalDependencies'', Null)]))"
  by code_simp

end
