(* ===== verification/Lockfile.thy ===== *)
theory Lockfile
  imports Resolver Platform Package_Names
begin

text \<open>
  The lockfile \<open>3va-lock.json\<close> (\<open>crates/pm/src/lockfile.rs\<close>) and how an install uses it
  (\<open>crates/pm/src/lib.rs\<close>): what it records, which package may not be installed under it, and
  what can be resolved from it without asking the registry. Hash maps are maps or, where they are
  iterated, lists of entries with distinct keys. Reading and writing the file is not modelled.
\<close>

section \<open>The file's contents\<close>

record lockfile_package =
  pkg_version :: string
  pkg_resolved :: "string option"
  pkg_integrity :: "string option"
  pkg_registry :: "string option"

record lockfile_dep =
  dep_version :: string
  dep_resolved :: "string option"
  dep_integrity :: "string option"
  dep_dependencies :: "(string \<times> string) list option"
  dep_registry :: "string option"
  dep_optional :: "bool option"
  dep_os :: "json option"
  dep_cpu :: "json option"
  dep_libc :: "json option"

record lockfile =
  lockfile_version :: nat
  lock_name :: string
  lock_version :: string
  lock_packages :: "string \<rightharpoonup> lockfile_package"
  lock_dependencies :: "string \<rightharpoonup> lockfile_dep"

definition new_dep :: "string \<Rightarrow> lockfile_dep" where
  "new_dep v = \<lparr>dep_version = v, dep_resolved = None, dep_integrity = None, dep_dependencies = None,
                dep_registry = None, dep_optional = None, dep_os = None, dep_cpu = None, dep_libc = None\<rparr>"

definition new_package :: "string \<Rightarrow> lockfile_package" where
  "new_package v = \<lparr>pkg_version = v, pkg_resolved = None, pkg_integrity = None, pkg_registry = None\<rparr>"

definition node_packages :: "dependency_node \<Rightarrow> (string \<times> lockfile_package) list" where
  "node_packages n =
     [(''node_modules/'' @ node_name n,
       (new_package (node_version n))\<lparr>pkg_resolved := resolved_url n, pkg_integrity := integrity n\<rparr>),
      (''node_modules/'' @ node_name n @ ''/package.json'', new_package (node_version n))]"

definition node_dep :: "dependency_node \<Rightarrow> lockfile_dep" where
  "node_dep n =
     (new_dep (node_version n))\<lparr>dep_resolved := resolved_url n, dep_integrity := integrity n,
        dep_dependencies := (if dependencies n = [] then None else Some (dependencies n))\<rparr>"

text \<open>The loop over the nodes inserts, so a later node of the same name replaces an earlier one; the
  order of a hash map's values is the order of the list.\<close>

definition generate :: "dependency_graph \<Rightarrow> string \<Rightarrow> string \<Rightarrow> lockfile" where
  "generate g name version =
     (let ns = map snd (nodes g)
      in \<lparr>lockfile_version = 3, lock_name = name, lock_version = version,
          lock_packages = map_of (rev (('''', new_package version) # concat (map node_packages ns))),
          lock_dependencies = map_of (rev (map (\<lambda>n. (node_name n, node_dep n)) ns))\<rparr>)"

definition pin :: "lockfile \<Rightarrow> string \<Rightarrow> lockfile_dep option" where
  "pin l name = lock_dependencies l name"

definition registry_for :: "lockfile \<Rightarrow> string \<Rightarrow> string option" where
  "registry_for l pkg_name = Option.bind (lock_dependencies l pkg_name) dep_registry"

text \<open>\<open>registries_needed\<close>: the packages of a host, in the order of the argument.\<close>

definition registries_needed :: "lockfile \<Rightarrow> string list \<Rightarrow> string \<rightharpoonup> string list" where
  "registries_needed l pkgs host =
     (case filter (\<lambda>p. registry_for l p = Some host) pkgs of [] \<Rightarrow> None | ps \<Rightarrow> Some ps)"

definition set_registry :: "lockfile \<Rightarrow> string \<Rightarrow> string \<Rightarrow> lockfile" where
  "set_registry l pkg_name host =
     (let key = ''node_modules/'' @ pkg_name
      in l\<lparr>lock_dependencies := (case lock_dependencies l pkg_name of
             Some d \<Rightarrow> (lock_dependencies l)(pkg_name \<mapsto> d\<lparr>dep_registry := Some host\<rparr>)
           | None \<Rightarrow> lock_dependencies l),
           lock_packages := (case lock_packages l key of
             Some p \<Rightarrow> (lock_packages l)(key \<mapsto> p\<lparr>pkg_registry := Some host\<rparr>)
           | None \<Rightarrow> lock_packages l)\<rparr>)"

section \<open>What the lockfile forbids\<close>

text \<open>The reasons, in the order of the code.\<close>

datatype lock_problem =
    Not_Recorded
  | Other_Version string
  | Not_Comparable string string
  | Other_Integrity string "string option"
  | No_Integrity

definition hash_algo :: "string \<Rightarrow> string" where
  "hash_algo h = map to_lower (hd (split CHR ''-'' h))"

definition lock_violation :: "lockfile option \<Rightarrow> bool \<Rightarrow> string \<Rightarrow> string \<Rightarrow> string option \<Rightarrow> lock_problem option" where
  "lock_violation lock strict name version served =
     (case Option.bind lock (\<lambda>l. pin l name) of
        None \<Rightarrow> if strict then Some Not_Recorded else None
      | Some p \<Rightarrow>
          if dep_version p \<noteq> version then (if strict then Some (Other_Version (dep_version p)) else None)
          else (case (dep_integrity p, served) of
                  (Some locked, Some s) \<Rightarrow>
                    if locked = s then None
                    else if hash_algo locked \<noteq> hash_algo s
                    then (if strict then Some (Not_Comparable (hash_algo locked) (hash_algo s)) else None)
                    else Some (Other_Integrity locked served)
                | (Some locked, None) \<Rightarrow> Some (Other_Integrity locked served)
                | (None, _) \<Rightarrow> if strict then Some No_Integrity else None))"

lemma lock_violation_strict:
  "lock_violation lock True name version served = None \<longleftrightarrow>
     (\<exists>p h. Option.bind lock (\<lambda>l. pin l name) = Some p \<and> dep_version p = version \<and>
        dep_integrity p = Some h \<and> served = Some h)"
  by (cases "Option.bind lock (\<lambda>l. pin l name)") (auto simp: lock_violation_def split: option.splits if_splits)

text \<open>
  Claim C10 (error). Under \<open>3va ci\<close> (\<open>strict\<close>) a package, direct or transitive, is let through
  exactly when the lockfile records it with this very version and an integrity, and the registry
  serves that very integrity: no lockfile, no entry, another version, no recorded hash, another
  hash, a hash of another algorithm and no served hash are all violations.
\<close>

theorem strict_lock_is_exact:
  "lock_violation lock True name version served = None \<longleftrightarrow>
     (\<exists>l p h. lock = Some l \<and> pin l name = Some p \<and> dep_version p = version \<and>
        dep_integrity p = Some h \<and> served = Some h)"
  unfolding lock_violation_strict by (cases lock) auto

text \<open>Without \<open>strict\<close> the recorded integrity does not pin the bytes when the registry answers with a
  hash of another algorithm, strong or weak.\<close>

lemma other_algorithm_bypasses_the_lock:
  "let l = \<lparr>lockfile_version = 3, lock_name = ''p'', lock_version = ''1'', lock_packages = Map.empty,
            lock_dependencies = [''a'' \<mapsto> (new_dep ''1.0.0'')\<lparr>dep_integrity := Some ''sha512-AAA''\<rparr>]\<rparr>
   in lock_violation (Some l) False ''a'' ''1.0.0'' (Some ''sha1-EVIL'') = None \<and>
      lock_violation (Some l) False ''a'' ''1.0.0'' (Some ''sha512-EVIL'') \<noteq> None"
  by code_simp

section \<open>Writing it after an install\<close>

record skipped_optional =
  skip_name :: string
  skip_version :: string
  skip_os :: "json option"
  skip_cpu :: "json option"
  skip_libc :: "json option"

definition option_or :: "'a option \<Rightarrow> 'a option \<Rightarrow> 'a option" where
  "option_or a b = (case a of Some x \<Rightarrow> Some x | None \<Rightarrow> b)"

definition locked_entry :: "lockfile option \<Rightarrow> string \<Rightarrow> string \<Rightarrow> string \<times> string \<times> string option \<Rightarrow> lockfile_dep" where
  "locked_entry old registry name = (\<lambda>(version, tarball, served).
     let previous = (case Option.bind old (\<lambda>l. pin l name) of
                       Some p \<Rightarrow> if dep_version p = version then Some p else None
                     | None \<Rightarrow> None)
     in (new_dep version)\<lparr>dep_resolved := Some tarball,
          dep_integrity := option_or served (Option.bind previous dep_integrity),
          dep_registry := option_or (Option.bind previous dep_registry) (Some registry)\<rparr>)"

definition skipped_entry :: "skipped_optional \<Rightarrow> lockfile_dep" where
  "skipped_entry sk =
     (new_dep (skip_version sk))\<lparr>dep_optional := Some True, dep_os := skip_os sk, dep_cpu := skip_cpu sk,
        dep_libc := skip_libc sk\<rparr>"

definition manifest_field :: "json option \<Rightarrow> string \<Rightarrow> string" where
  "manifest_field manifest k = (case Option.bind manifest (\<lambda>m. as_str (json_index m k)) of Some s \<Rightarrow> s | None \<Rightarrow> [])"

definition add_skipped :: "(string \<rightharpoonup> lockfile_dep) \<Rightarrow> skipped_optional \<Rightarrow> (string \<rightharpoonup> lockfile_dep)" where
  "add_skipped deps sk = (if deps (skip_name sk) \<noteq> None then deps else deps(skip_name sk \<mapsto> skipped_entry sk))"

definition write_manifest_lockfile ::
  "lockfile option \<Rightarrow> json option \<Rightarrow> string \<Rightarrow> (string \<times> string \<times> string \<times> string option) list \<Rightarrow>
     skipped_optional list \<Rightarrow> lockfile" where
  "write_manifest_lockfile old manifest registry resolved skipped =
     \<lparr>lockfile_version = 3, lock_name = manifest_field manifest ''name'', lock_version = manifest_field manifest ''version'',
      lock_packages = (case old of Some l \<Rightarrow> lock_packages l | None \<Rightarrow> Map.empty),
      lock_dependencies =
        foldl add_skipped (foldl (\<lambda>deps (name, r). deps(name \<mapsto> locked_entry old registry name r)) Map.empty resolved) skipped\<rparr>"

lemma foldl_upd_map_of:
  "distinct (map fst xs) \<Longrightarrow> foldl (\<lambda>m (k, x). m(k \<mapsto> f k x)) m0 xs k0 = (case map_of xs k0 of Some x \<Rightarrow> Some (f k0 x) | None \<Rightarrow> m0 k0)"
proof (induction xs arbitrary: m0)
  case (Cons a xs)
  obtain k x where a: "a = (k, x)" by (cases a)
  have "map_of xs k = None" using Cons.prems by (simp add: a map_of_eq_None_iff)
  with Cons show ?case by (auto simp: a)
qed simp

lemma add_skipped_keeps: "m k = Some d \<Longrightarrow> foldl add_skipped m sks k = Some d"
proof (induction sks arbitrary: m)
  case (Cons sk sks)
  then have "add_skipped m sk k = Some d" by (auto simp: add_skipped_def)
  with Cons.IH show ?case by simp
qed simp

lemma add_skipped_new:
  "m k = None \<Longrightarrow> foldl add_skipped m sks k = Some d \<Longrightarrow> dep_integrity d = None"
proof (induction sks arbitrary: m)
  case (Cons sk sks)
  show ?case
  proof (cases "add_skipped m sk k")
    case (Some e)
    then have "e = skipped_entry sk" using Cons.prems(1) by (auto simp: add_skipped_def split: if_splits)
    then have "dep_integrity e = None" by (simp add: skipped_entry_def new_dep_def)
    with add_skipped_keeps [of "add_skipped m sk" k e sks] Some Cons.prems(2) show ?thesis by simp
  qed (use Cons in auto)
qed simp


definition demo_resolved :: "(string \<times> string \<times> string \<times> string option) list" where
  "demo_resolved = [(''a'', ''1.0.0'', ''t'', Some ''sha512-A''), (''b'', ''2.0.0'', ''u'', None)]"


section \<open>Resolving without the registry\<close>

definition collect_optional_dep_specs :: "json \<Rightarrow> (string \<times> string) list" where
  "collect_optional_dep_specs meta =
     filter (\<lambda>(name, _). is_valid_package_name name) (string_entries (json_index meta ''optionalDependencies''))"

definition peer_is_optional :: "json \<Rightarrow> string \<Rightarrow> bool" where
  "peer_is_optional meta name \<longleftrightarrow>
     as_bool (json_index (json_index (json_index meta ''peerDependenciesMeta'') name) ''optional'') = Some True"

definition collect_dep_specs :: "json \<Rightarrow> (string \<times> string) list" where
  "collect_dep_specs meta =
     filter (\<lambda>(name, _). json_get (json_index meta ''optionalDependencies'') name = None \<and> is_valid_package_name name)
       (string_entries (json_index meta ''dependencies'')) @
     filter (\<lambda>(name, _). \<not> peer_is_optional meta name \<and> is_valid_package_name name)
       (string_entries (json_index meta ''peerDependencies''))"

record version_meta =
  meta_tarball :: string
  meta_integrity :: "string option"
  meta_optional_deps :: "(string \<times> string) list"

record registry_info =
  info_versions :: "string list"
  info_latest :: "string option"
  info_meta :: "(string \<times> version_meta) list"

record wave_node =
  wave_name :: string
  wave_requested :: "string option"
  wave_optional :: bool

text \<open>The content store: the manifest of a cached package, if it is cached and its manifest parses.\<close>

type_synonym stored_manifest = "string \<Rightarrow> string \<Rightarrow> string \<Rightarrow> json option"

definition offline_resolution ::
  "lockfile option \<Rightarrow> stored_manifest \<Rightarrow> string \<Rightarrow> platform \<Rightarrow> wave_node \<Rightarrow>
     (registry_info \<times> (string \<times> string) list) option" where
  "offline_resolution lock store registry plat node =
     Option.bind (Option.bind lock (\<lambda>l. pin l (wave_name node))) (\<lambda>p.
     Option.bind (dep_integrity p) (\<lambda>h.
     let requested = (case wave_requested node of Some r \<Rightarrow> r | None \<Rightarrow> ''latest'')
     in if \<not> is_registry_range requested \<or> list_all is_alpha (trim requested) then None
        else Option.bind (parse_range requested) (\<lambda>r.
             Option.bind (semver_parse (dep_version p)) (\<lambda>v.
             if \<not> range_matches r v then None
             else Option.bind (store registry (wave_name node) (dep_version p)) (\<lambda>manifest.
               if wave_optional node \<and> \<not> manifest_accepts manifest plat then None
               else Some (\<lparr>info_versions = [dep_version p], info_latest = None,
                           info_meta = [(dep_version p,
                             \<lparr>meta_tarball = (case dep_resolved p of Some t \<Rightarrow> t | None \<Rightarrow> []),
                              meta_integrity = Some h, meta_optional_deps = collect_optional_dep_specs manifest\<rparr>)]\<rparr>,
                          collect_dep_specs manifest))))))"

definition lock_says_not_for_this_platform :: "lockfile option \<Rightarrow> platform \<Rightarrow> wave_node \<Rightarrow> bool" where
  "lock_says_not_for_this_platform lock plat node =
     (case Option.bind lock (\<lambda>l. pin l (wave_name node)) of
        None \<Rightarrow> False
      | Some p \<Rightarrow>
          if dep_optional p \<noteq> Some True \<or> (dep_os p = None \<and> dep_cpu p = None \<and> dep_libc p = None) then False
          else let in_range = (case (Option.bind (wave_requested node) parse_range, semver_parse (dep_version p)) of
                                 (Some r, Some v) \<Rightarrow> range_matches r v
                               | _ \<Rightarrow> False);
                   constraints = List.map_filter (\<lambda>(k, x). map_option (Pair k) x)
                                   [(''os'', dep_os p), (''cpu'', dep_cpu p), (''libc'', dep_libc p)]
               in in_range \<and> \<not> manifest_accepts (Object constraints) plat)"

text \<open>
  A package that is resolved offline needs no further check: the version the
  offline answer offers is the one the lockfile pins, it satisfies the requested range, the store
  has it, the integrity it comes with is the recorded one (so even the strict lock check passes),
  its own dependencies all have valid names, and \<open>select_best_version\<close> picks that version.
\<close>

theorem offline_resolution_respects_lock:
  assumes "offline_resolution lock store registry plat node = Some (info, deps)"
  shows "\<exists>l p h requested r v meta.
    lock = Some l \<and> pin l (wave_name node) = Some p \<and> dep_integrity p = Some h \<and>
    wave_requested node = Some requested \<and> parse_range requested = Some r \<and> semver_parse (dep_version p) = Some v \<and>
    range_matches r v \<and> store registry (wave_name node) (dep_version p) \<noteq> None \<and>
    info_meta info = [(dep_version p, meta)] \<and> meta_integrity meta = Some h \<and>
    lock_violation lock True (wave_name node) (dep_version p) (meta_integrity meta) = None \<and>
    select_best_version (info_versions info) requested (info_latest info) = dep_version p \<and>
    list_all (\<lambda>(name, _). is_valid_package_name name) (deps @ meta_optional_deps meta)"
proof -
  from assms obtain l p h r v manifest where l: "lock = Some l" "pin l (wave_name node) = Some p" "dep_integrity p = Some h"
    and r: "parse_range (case wave_requested node of Some r \<Rightarrow> r | None \<Rightarrow> ''latest'') = Some r"
      "semver_parse (dep_version p) = Some v" "range_matches r v"
    and s: "store registry (wave_name node) (dep_version p) = Some manifest"
    and req: "\<not> list_all is_alpha (trim (case wave_requested node of Some r \<Rightarrow> r | None \<Rightarrow> ''latest''))"
    and i: "info_versions info = [dep_version p]" "info_latest info = None" "deps = collect_dep_specs manifest"
      "\<exists>meta. info_meta info = [(dep_version p, meta)] \<and> meta_integrity meta = Some h \<and>
         meta_optional_deps meta = collect_optional_dep_specs manifest"
    by (auto simp: offline_resolution_def bind_eq_Some_conv Let_def split: if_splits)
  have "list_all is_alpha (trim ''latest'')" by code_simp
  with req obtain q where q: "wave_requested node = Some q" by (cases "wave_requested node") auto
  have best: "select_best_version [dep_version p] q None = dep_version p"
    using r q by (simp add: select_best_version_def satisfying_def range_or_any_def List.map_filter_def)
  have "list_all (\<lambda>(name, _). is_valid_package_name name) (collect_dep_specs manifest @ collect_optional_dep_specs manifest)"
    by (auto simp: collect_dep_specs_def collect_optional_dep_specs_def list_all_iff)
  with l r s q i best show ?thesis by (auto simp: lock_violation_strict)
qed

end
