(* ===== verification/Http_Parser.thy ===== *)
theory Http_Parser
  imports Utf8
begin

text \<open>
  The HTTP/1.1 server's view of the wire: request heads, body framing and responses
  (\<open>crates/js/src/builtins/http_server.rs\<close>). The connection is the bytes that the client sends and
  what comes after them: its end, or nothing in time (or an I/O error). Reads hand over what has
  arrived; the checks of the minimum rate and of the body deadline, which depend on the clock, are
  a parameter that says after how many bytes they fail.
\<close>

section \<open>The connection\<close>

datatype stream_end = Eof | Stalled

record reader =
  bytes :: string
  ending :: stream_end

datatype parse_error = Respond nat string | Silent string

definition bad_request :: parse_error where
  "bad_request = Respond 400 ''Bad Request''"

definition too_large :: parse_error where
  "too_large = Respond 413 ''Payload Too Large''"

text \<open>\<open>read_line\<close>: up to and with a line feed; at the end of the connection, what is left, which
  may be nothing. Bytes that are no UTF-8 are an error.\<close>

definition read_line :: "string \<Rightarrow> reader \<Rightarrow> parse_error + string \<times> reader" where
  "read_line what r =
     (case split_once CHR 0x0A (bytes r) of
        Some (l, rest) \<Rightarrow>
          if valid_utf8 (l @ [CHR 0x0A]) then Inr (l @ [CHR 0x0A], r\<lparr>bytes := rest\<rparr>)
          else Inl (Silent ''stream did not contain valid UTF-8'')
      | None \<Rightarrow>
          if ending r = Stalled then Inl (Silent what)
          else if valid_utf8 (bytes r) then Inr (bytes r, r\<lparr>bytes := []\<rparr>)
          else Inl (Silent ''stream did not contain valid UTF-8''))"

definition is_eol :: "char \<Rightarrow> bool" where
  "is_eol c \<longleftrightarrow> c = CHR 0x0D \<or> c = CHR 0x0A"

definition trim_eol :: "string \<Rightarrow> string" where
  "trim_eol s = rev (dropWhile is_eol (rev s))"

section \<open>The request head\<close>

datatype body_framing = No_Body | Length nat | Chunked

record parsed_head =
  req_method :: string
  req_path :: string
  req_headers :: "(string \<times> string) list"
  http10 :: bool
  framing :: body_framing

definition HARD_MAX_BODY :: nat where
  "HARD_MAX_BODY = 100 * 1024 * 1024"

definition body_limit :: "nat \<Rightarrow> nat" where
  "body_limit max_body_bytes = (if max_body_bytes = 0 then HARD_MAX_BODY else max_body_bytes)"

text \<open>The request line: blank lines before it are skipped, but count. Every line that is read
  is shorter than what is left of the input, or ends it.\<close>

lemma read_line_shorter:
  "read_line what r = Inr (l, r') \<Longrightarrow> l \<noteq> [] \<Longrightarrow> length (bytes r') < length (bytes r)"
  by (auto simp: read_line_def split: option.splits if_splits) (auto simp: split_once_Some)

function read_request_line :: "nat \<Rightarrow> nat \<Rightarrow> reader \<Rightarrow> parse_error + (string \<times> nat) \<times> reader" where
  "read_request_line max_header_bytes skipped r =
     (case read_line ''timeout: request line not received in time (Slowloris?)'' r of
        Inl e \<Rightarrow> Inl e
      | Inr (line, r') \<Rightarrow>
          if line = [] then Inl (Silent ''connection closed before request line'')
          else let skipped' = skipped + length line
               in if skipped' > max_header_bytes then Inl (Silent ''request line flood'')
                  else if trim_eol line = [] then read_request_line max_header_bytes skipped' r'
                  else Inr ((line, skipped'), r'))"
  by pat_completeness auto
termination
  by (relation "measure (\<lambda>(m, s, r). length (bytes r))") (auto dest: read_line_shorter)

declare read_request_line.simps [simp del]

text \<open>\<open>splitn(3, ' ')\<close> with the defaults of the code.\<close>

definition request_parts :: "string \<Rightarrow> string \<times> string \<times> string" where
  "request_parts line =
     (case split_once CHR '' '' line of
        None \<Rightarrow> (line, ''/'', ''HTTP/1.1'')
      | Some (m, rest) \<Rightarrow>
          (case split_once CHR '' '' rest of
             None \<Rightarrow> (m, rest, ''HTTP/1.1'')
           | Some (p, v) \<Rightarrow> (m, p, v)))"

record head_state =
  hs_headers :: "(string \<times> string) list"
  hs_length :: "nat option"
  hs_te :: "string option"

definition add_length :: "nat \<Rightarrow> string \<Rightarrow> head_state \<Rightarrow> parse_error + head_state" where
  "add_length max_body value st =
     (if value = [] \<or> \<not> list_all is_digit value then Inl bad_request
      else case parse_uint u64_max value of
        None \<Rightarrow> Inl too_large
      | Some n \<Rightarrow>
          if hs_length st \<noteq> None \<and> hs_length st \<noteq> Some n then Inl bad_request
          else if n > max_body then Inl too_large
          else Inr (st\<lparr>hs_length := Some n, hs_headers := hs_headers st @ [(''content-length'', show_nat n)]\<rparr>))"

definition add_te :: "string \<Rightarrow> head_state \<Rightarrow> parse_error + head_state" where
  "add_te value st =
     (let lower = map to_lower value
      in if hs_te st \<noteq> None \<and> hs_te st \<noteq> Some lower then Inl bad_request
         else Inr (st\<lparr>hs_te := Some lower, hs_headers := hs_headers st @ [(''transfer-encoding'', value)]\<rparr>))"

definition header_line :: "nat \<Rightarrow> nat \<Rightarrow> string \<Rightarrow> head_state \<Rightarrow> parse_error + head_state" where
  "header_line max_header_count max_body line st =
     (let trimmed = trim_eol line
      in if length (hs_headers st) \<ge> max_header_count then Inl (Silent ''header flood: too many headers'')
         else if starts_with line '' '' \<or> starts_with line [CHR 0x09] then Inl bad_request
         else case split_once CHR '':'' trimmed of
           None \<Rightarrow> Inl bad_request
         | Some (raw_name, rest) \<Rightarrow>
             if raw_name = [] \<or> list_ex (\<lambda>c. c = CHR '' '' \<or> c = CHR 0x09) raw_name then Inl bad_request
             else let name = map to_lower raw_name; value = trim rest
                  in if name = ''content-length'' then add_length max_body value st
                     else if name = ''transfer-encoding'' then add_te value st
                     else Inr (st\<lparr>hs_headers := hs_headers st @ [(name, value)]\<rparr>))"

function read_headers ::
  "nat \<Rightarrow> nat \<Rightarrow> nat \<Rightarrow> nat \<Rightarrow> head_state \<Rightarrow> reader \<Rightarrow> parse_error + head_state \<times> reader" where
  "read_headers max_header_count max_header_bytes max_body seen st r =
     (case read_line ''timeout: headers not received in time (Slowloris?)'' r of
        Inl e \<Rightarrow> Inl e
      | Inr (line, r') \<Rightarrow>
          let seen' = seen + length line
          in if seen' > max_header_bytes then Inl (Silent ''header flood: exceeded bytes'')
             else if trim_eol line = [] then Inr (st, r')
             else (case header_line max_header_count max_body line st of
                     Inl e \<Rightarrow> Inl e
                   | Inr st' \<Rightarrow> read_headers max_header_count max_header_bytes max_body seen' st' r'))"
  by pat_completeness auto
termination
  by (relation "measure (\<lambda>(c, b, m, s, st, r). length (bytes r))") (auto simp: trim_eol_def dest: read_line_shorter)

declare read_headers.simps [simp del]

definition decide_framing :: "head_state \<Rightarrow> parse_error + body_framing" where
  "decide_framing st =
     (if hs_length st \<noteq> None \<and> hs_te st \<noteq> None then Inl bad_request
      else case hs_te st of
        Some te \<Rightarrow>
          if trim (last (split CHR '','' te)) \<noteq> ''chunked'' then Inl (Respond 501 ''Not Implemented'') else Inr Chunked
      | None \<Rightarrow>
          (case hs_length st of
             Some n \<Rightarrow> Inr (if n > 0 then Length n else No_Body)
           | None \<Rightarrow> Inr No_Body))"

definition parse_request_head ::
  "nat \<Rightarrow> nat \<Rightarrow> nat \<Rightarrow> reader \<Rightarrow> parse_error + parsed_head \<times> reader" where
  "parse_request_head max_header_count max_header_bytes max_body_bytes r =
     and_then (read_request_line max_header_bytes 0 r) (\<lambda>((line, len), r1).
       let (m, p, v) = request_parts (trim_eol line)
       in and_then (read_headers max_header_count max_header_bytes (body_limit max_body_bytes) len
                      \<lparr>hs_headers = [], hs_length = None, hs_te = None\<rparr> r1) (\<lambda>(st, r2).
          and_then (decide_framing st) (\<lambda>f.
            Inr (\<lparr>req_method = m, req_path = p, req_headers = hs_headers st, http10 = (v = ''HTTP/1.0''), framing = f\<rparr>, r2))))"
section \<open>The body\<close>

definition BODY_READ_MAX :: nat where
  "BODY_READ_MAX = 64 * 1024"

text \<open>The clock: \<open>late n\<close> says that the deadline has passed when \<open>n\<close> bytes of the body are in, \<open>slow n\<close>
  that the rate is below the minimum then.\<close>

record body_clock =
  late :: "nat \<Rightarrow> bool"
  slow :: "nat \<Rightarrow> bool"

text \<open>The read loop of both framings: \<open>remaining\<close> bytes are to come after \<open>got\<close>. It gives the slices
  that are handed on and how it ended.\<close>

function pump_span :: "body_clock \<Rightarrow> nat \<Rightarrow> nat \<Rightarrow> reader \<Rightarrow> string \<times> (parse_error + reader)" where
  "pump_span c got remaining r =
     (if remaining = 0 then ([], Inr r)
      else if late c got then ([], Inl (Silent ''timeout: body deadline exceeded (RUDY?)''))
      else if bytes r = [] then
        ([], Inl (Silent (if ending r = Eof then ''connection closed before body complete''
                          else ''timeout: body stalled (RUDY?)'')))
      else let chunk = take (min remaining BODY_READ_MAX) (bytes r); n = length chunk
           in if slow c (got + n) then (chunk, Inl (Silent ''body rate too low: RUDY?''))
              else let (rest, result) = pump_span c (got + n) (remaining - n) (r\<lparr>bytes := drop n (bytes r)\<rparr>)
                   in (chunk @ rest, result))"
  by pat_completeness auto
termination
  by (relation "measure (\<lambda>(c, g, m, r). m)") (auto simp: BODY_READ_MAX_def)

declare pump_span.simps [simp del]

lemma pump_span_0 [simp]: "pump_span c got 0 r = ([], Inr r)"
  by (subst pump_span.simps) simp

definition pump_length :: "body_clock \<Rightarrow> nat \<Rightarrow> reader \<Rightarrow> string \<times> (parse_error + reader)" where
  "pump_length c content_length r = pump_span c 0 content_length r"

definition hex_val :: "char \<Rightarrow> nat option" where
  "hex_val c =
     (if is_digit c then Some (digit_val c)
      else if byte_in 97 102 c then Some (byte c - 87)
      else if byte_in 65 70 c then Some (byte c - 55)
      else None)"

definition hex_number :: "string \<Rightarrow> nat" where
  "hex_number s = foldl (\<lambda>n c. 16 * n + (case hex_val c of Some v \<Rightarrow> v | None \<Rightarrow> 0)) 0 s"

text \<open>\<open>usize::from_str_radix(s, 16)\<close>, which takes a plus sign.\<close>

definition parse_hex :: "string \<Rightarrow> nat option" where
  "parse_hex s =
     (let ds = (case s of [] \<Rightarrow> [] | c # t \<Rightarrow> if c = CHR ''+'' then t else s)
      in if ds \<noteq> [] \<and> list_all (\<lambda>c. hex_val c \<noteq> None) ds \<and> hex_number ds \<le> u64_max then Some (hex_number ds) else None)"

lemma read_line_le: "read_line what r = Inr (l, r') \<Longrightarrow> length (bytes r') \<le> length (bytes r)"
  by (auto simp: read_line_def split: option.splits if_splits) (auto simp: split_once_Some)

text \<open>A span that is read completely takes exactly its bytes off the input.\<close>

lemma pump_span_Inr:
  "pump_span c got remaining r = (d, Inr r') \<Longrightarrow>
     bytes r = d @ bytes r' \<and> length d = remaining \<and> ending r' = ending r"
proof (induction c got remaining r arbitrary: d rule: pump_span.induct)
  case (1 c got remaining r)
  note step = pump_span.simps [of c got remaining r]
  show ?case
  proof (cases "remaining = 0")
    case True
    with "1.prems" show ?thesis by simp
  next
    case False
    define chunk where "chunk = take (min remaining BODY_READ_MAX) (bytes r)"
    from "1.prems" False have l: "\<not> late c got" "bytes r \<noteq> []" by (auto simp: step split: if_splits)
    with "1.prems" False have s: "\<not> slow c (got + length chunk)" by (auto simp: step Let_def chunk_def)
    with "1.prems" False l obtain rest where d: "d = chunk @ rest"
      and rec: "pump_span c (got + length chunk) (remaining - length chunk)
        (r\<lparr>bytes := drop (length chunk) (bytes r)\<rparr>) = (rest, Inr r')"
      by (auto simp: step Let_def chunk_def split: prod.splits)
    from "1.IH" [OF False l refl refl, folded chunk_def, OF s rec]
    have "drop (length chunk) (bytes r) = rest @ bytes r'" "length rest = remaining - length chunk" "ending r' = ending r"
      by simp_all
    moreover have "take (length chunk) (bytes r) = chunk" "length chunk \<le> remaining"
      by (simp_all add: chunk_def min_def)
    ultimately show ?thesis using append_take_drop_id [of "length chunk" "bytes r"] by (simp add: d)
  qed
qed

lemma pump_span_le: "pump_span c got remaining r = (d, Inr r') \<Longrightarrow> length (bytes r') \<le> length (bytes r)"
  using pump_span_Inr by fastforce

function read_trailers :: "nat \<Rightarrow> nat \<Rightarrow> reader \<Rightarrow> parse_error + reader" where
  "read_trailers max_header_bytes seen r =
     (case read_line ''timeout: trailers stalled'' r of
        Inl e \<Rightarrow> Inl e
      | Inr (line, r') \<Rightarrow>
          if line = [] then Inr r'
          else let seen' = seen + length line
               in if seen' > max_header_bytes then Inl (Silent ''trailer flood'')
                  else if trim_eol line = [] then Inr r'
                  else read_trailers max_header_bytes seen' r')"
  by pat_completeness auto
termination
  by (relation "measure (\<lambda>(m, s, r). length (bytes r))") (auto dest: read_line_shorter)

declare read_trailers.simps [simp del]

text \<open>The size of a chunk, without its extensions.\<close>

definition chunk_size :: "string \<Rightarrow> nat option" where
  "chunk_size line = parse_hex (trim (hd (split CHR '';'' (trim_eol line))))"

function pump_chunked :: "body_clock \<Rightarrow> nat \<Rightarrow> nat \<Rightarrow> nat \<Rightarrow> reader \<Rightarrow> string \<times> (parse_error + reader)" where
  "pump_chunked c max_body max_header_bytes tot r =
     (case read_line ''timeout: chunk size line stalled'' r of
        Inl e \<Rightarrow> ([], Inl e)
      | Inr (line, r1) \<Rightarrow>
          if line = [] then ([], Inl (Silent ''connection closed mid-chunked-body''))
          else (case chunk_size line of
            None \<Rightarrow> ([], Inl bad_request)
          | Some n \<Rightarrow>
              if n > max_body \<or> min u64_max (tot + n) > max_body then ([], Inl too_large)
              else if n = 0 then ([], read_trailers max_header_bytes 0 r1)
              else (case pump_span c tot n r1 of
                (d, Inl e) \<Rightarrow> (d, Inl e)
              | (d, Inr r2) \<Rightarrow>
                  (case read_line ''chunk terminator stalled'' r2 of
                     Inl e \<Rightarrow> (d, Inl e)
                   | Inr (crlf, r3) \<Rightarrow>
                       if trim_eol crlf \<noteq> [] then (d, Inl bad_request)
                       else let (rest, result) = pump_chunked c max_body max_header_bytes (tot + n) r3
                            in (d @ rest, result)))))"
  by pat_completeness auto
termination
proof (relation "measure (\<lambda>(c, m, h, t, r). length (bytes r))", goal_cases)
  case (2 c max_body mh tot r x line r1 n d y r2 z crlf r3)
  then show ?case using read_line_shorter [of _ r line r1] pump_span_le [of c tot n r1 d r2] read_line_le [of _ r2 crlf r3]
    by fastforce
qed simp

declare pump_chunked.simps [simp del]

definition pump_body ::
  "body_clock \<Rightarrow> nat \<Rightarrow> nat \<Rightarrow> body_framing \<Rightarrow> reader \<Rightarrow> string \<times> (parse_error + reader)" where
  "pump_body c max_body_bytes max_header_bytes f r =
     (case f of
        No_Body \<Rightarrow> ([], Inr r)
      | Length n \<Rightarrow> pump_length c n r
      | Chunked \<Rightarrow> pump_chunked c (body_limit max_body_bytes) max_header_bytes 0 r)"

section \<open>One way to read a head\<close>

definition header_values :: "(string \<times> string) list \<Rightarrow> string \<Rightarrow> string list" where
  "header_values hs k = map snd (filter (\<lambda>(k', _). k' = k) hs)"

definition clean_name :: "string \<Rightarrow> bool" where
  "clean_name n \<longleftrightarrow> n \<noteq> [] \<and> list_all (\<lambda>c. c \<noteq> CHR '' '' \<and> c \<noteq> CHR 0x09 \<and> c \<noteq> CHR '':'' \<and> \<not> byte_in 65 90 c) n"

definition head_inv :: "nat \<Rightarrow> nat \<Rightarrow> head_state \<Rightarrow> bool" where
  "head_inv max_header_count max_body st \<longleftrightarrow>
     set (header_values (hs_headers st) ''content-length'') =
       (case hs_length st of None \<Rightarrow> {} | Some n \<Rightarrow> {show_nat n}) \<and>
     (case hs_length st of None \<Rightarrow> True | Some n \<Rightarrow> n \<le> max_body) \<and>
     set (map (map to_lower) (header_values (hs_headers st) ''transfer-encoding'')) =
       (case hs_te st of None \<Rightarrow> {} | Some te \<Rightarrow> {te}) \<and>
     length (hs_headers st) \<le> max_header_count \<and> list_all (\<lambda>(k, _). clean_name k) (hs_headers st)"

lemma header_values_snoc:
  "header_values (hs @ [(k, v)]) k' = header_values hs k' @ (if k = k' then [v] else [])"
  by (simp add: header_values_def)

lemma to_lower_clean:
  assumes "raw \<noteq> []" "CHR '':'' \<notin> set raw" "\<not> list_ex (\<lambda>c. c = CHR '' '' \<or> c = CHR 0x09) raw"
  shows "clean_name (map to_lower raw)"
proof -
  have L: "to_lower c \<noteq> CHR '' '' \<and> to_lower c \<noteq> CHR 0x09 \<and> to_lower c \<noteq> CHR '':'' \<and> \<not> byte_in 65 90 (to_lower c)"
    if c: "c \<noteq> CHR '' ''" "c \<noteq> CHR 0x09" "c \<noteq> CHR '':''" for c
  proof (cases "65 \<le> (of_char c :: nat) \<and> (of_char c :: nat) \<le> 90")
    case True
    then have b: "byte (to_lower c) = of_char c + 32" by (simp add: to_lower_def byte_def)
    have "byte (CHR '' '') = 32" "byte (CHR 0x09) = 9" "byte (CHR '':'') = 58" by code_simp+
    with b True show ?thesis by (auto simp: byte_in_def)
  next
    case False
    then have "to_lower c = c" unfolding to_lower_def by (rule if_not_P)
    with c False show ?thesis by (simp add: byte_in_def byte_def)
  qed
  have "c \<noteq> CHR '' ''" "c \<noteq> CHR 0x09" "c \<noteq> CHR '':''" if "c \<in> set raw" for c
    using assms(2,3) that by (auto simp: list_ex_iff)
  then show ?thesis using assms(1) L by (simp add: clean_name_def list_all_iff)
qed

lemma fixed_names_clean: "clean_name ''content-length''" "clean_name ''transfer-encoding''"
  by code_simp+

lemma add_length_inv:
  assumes "add_length max_body value st = Inr st'" "head_inv mc max_body st" "length (hs_headers st) < mc"
  shows "head_inv mc max_body st'"
proof -
  from assms(1) obtain n where n: "hs_length st = None \<or> hs_length st = Some n" "n \<le> max_body"
    and st': "st' = st\<lparr>hs_length := Some n, hs_headers := hs_headers st @ [(''content-length'', show_nat n)]\<rparr>"
    by (auto simp: add_length_def split: if_splits option.splits)
  have ne: "''content-length'' \<noteq> ''transfer-encoding''" by simp
  show ?thesis
    using assms(2,3) n fixed_names_clean unfolding head_inv_def st'
    by (auto simp: header_values_snoc ne split: option.splits)
qed

lemma add_te_inv:
  assumes "add_te value st = Inr st'" "head_inv mc max_body st" "length (hs_headers st) < mc"
  shows "head_inv mc max_body st'"
proof -
  from assms(1) have te: "hs_te st = None \<or> hs_te st = Some (map to_lower value)"
    and st': "st' = st\<lparr>hs_te := Some (map to_lower value), hs_headers := hs_headers st @ [(''transfer-encoding'', value)]\<rparr>"
    by (auto simp: add_te_def Let_def split: if_splits)
  have ne: "''transfer-encoding'' \<noteq> ''content-length''" by simp
  show ?thesis
    using assms(2,3) te fixed_names_clean unfolding head_inv_def st'
    by (auto simp: header_values_snoc ne split: option.splits)
qed

lemma header_line_inv:
  assumes "header_line mc max_body line st = Inr st'" "head_inv mc max_body st"
  shows "head_inv mc max_body st'"
proof -
  from assms(1) obtain raw rest where raw: "split_once CHR '':'' (trim_eol line) = Some (raw, rest)" "raw \<noteq> []"
    "\<not> list_ex (\<lambda>c. c = CHR '' '' \<or> c = CHR 0x09) raw" and len: "length (hs_headers st) < mc"
    and st': "(let name = map to_lower raw; value = trim rest
       in if name = ''content-length'' then add_length max_body value st
          else if name = ''transfer-encoding'' then add_te value st
          else Inr (st\<lparr>hs_headers := hs_headers st @ [(name, value)]\<rparr>)) = Inr st'"
    by (auto simp: header_line_def Let_def split: if_splits option.splits)
  have "CHR '':'' \<notin> set raw" using raw(1) by (simp add: split_once_Some)
  note clean = to_lower_clean [OF raw(2) this raw(3)]
  show ?thesis
  proof (cases "map to_lower raw = ''content-length'' \<or> map to_lower raw = ''transfer-encoding''")
    case True
    with st' add_length_inv add_te_inv assms(2) len show ?thesis by (auto simp: Let_def split: if_splits)
  next
    case False
    then have "st' = st\<lparr>hs_headers := hs_headers st @ [(map to_lower raw, trim rest)]\<rparr>" using st' by (simp add: Let_def)
    with False assms(2) len clean show ?thesis
      unfolding head_inv_def by (simp add: header_values_snoc split: option.splits)
  qed
qed

lemma read_headers_inv:
  assumes "read_headers mc mb max_body seen st r = Inr (st', r')" "head_inv mc max_body st"
  shows "head_inv mc max_body st'"
  using assms
proof (induction mc mb max_body seen st r rule: read_headers.induct)
  case (1 mc mb max_body seen st r)
  note step = read_headers.simps [of mc mb max_body seen st r]
  from "1.prems"(1) obtain line r1 where rl: "read_line ''timeout: headers not received in time (Slowloris?)'' r = Inr (line, r1)"
    and small: "\<not> seen + length line > mb"
    by (auto simp: step Let_def split: sum.splits if_splits)
  show ?case
  proof (cases "trim_eol line = []")
    case True
    with "1.prems" rl small show ?thesis by (simp add: step)
  next
    case False
    with "1.prems" rl small obtain st1 where h: "header_line mc max_body line st = Inr st1"
      and rec: "read_headers mc mb max_body (seen + length line) st1 r1 = Inr (st', r')"
      by (auto simp: step Let_def split: sum.splits)
    from "1.IH" [OF rl refl refl small False h rec header_line_inv [OF h "1.prems"(2)]] show ?thesis .
  qed
qed

text \<open>
  Claim C23 (safety). No request smuggling through ambiguous framing: of an accepted head the body's
  framing can be read in only one way. A chunked body comes with transfer-encoding headers that all
  end in \<open>chunked\<close> and with no content-length; a fixed length comes with content-length headers that
  all say exactly this number, which is positive and within the limit, and with no
  transfer-encoding; no body comes with no transfer-encoding and with no length or only zeros. The
  names have no blank, colon or upper case in them, and there are at most as many as the limit.
\<close>

theorem framing_is_unambiguous:
  assumes "parse_request_head max_header_count max_header_bytes max_body_bytes r = Inr (h, r')"
  shows "(let lengths = header_values (req_headers h) ''content-length'';
              codings = header_values (req_headers h) ''transfer-encoding''
          in case framing h of
               Chunked \<Rightarrow> lengths = [] \<and> codings \<noteq> [] \<and>
                 list_all (\<lambda>v. trim (last (split CHR '','' (map to_lower v))) = ''chunked'') codings
             | Length n \<Rightarrow> codings = [] \<and> set lengths = {show_nat n} \<and> 0 < n \<and> n \<le> body_limit max_body_bytes
             | No_Body \<Rightarrow> codings = [] \<and> set lengths \<subseteq> {show_nat 0}) \<and>
    length (req_headers h) \<le> max_header_count \<and> list_all (\<lambda>(k, _). clean_name k) (req_headers h)"
proof -
  from assms obtain line len r1 st where
    rh: "read_headers max_header_count max_header_bytes (body_limit max_body_bytes) len
       \<lparr>hs_headers = [], hs_length = None, hs_te = None\<rparr> r1 = Inr (st, r')"
    and f: "decide_framing st = Inr (framing h)" and h: "req_headers h = hs_headers st"
    by (auto simp: parse_request_head_def and_then_Inr Let_def case_prod_unfold)
  have "head_inv max_header_count (body_limit max_body_bytes) \<lparr>hs_headers = [], hs_length = None, hs_te = None\<rparr>"
    by (simp add: head_inv_def header_values_def)
  from read_headers_inv [OF rh this] have inv: "head_inv max_header_count (body_limit max_body_bytes) st" .
  have te: "list_all (\<lambda>v. map to_lower v = te) (header_values (hs_headers st) ''transfer-encoding'') \<and>
      header_values (hs_headers st) ''transfer-encoding'' \<noteq> []" if "hs_te st = Some te" for te
    using inv that by (auto simp: head_inv_def list_all_iff)
  have none: "header_values (hs_headers st) ''transfer-encoding'' = []" if "hs_te st = None"
    using inv that by (auto simp: head_inv_def)
  have len: "set (header_values (hs_headers st) ''content-length'') = {show_nat n} \<and> n \<le> body_limit max_body_bytes"
    if "hs_length st = Some n" for n
    using inv that by (auto simp: head_inv_def)
  have nolen: "header_values (hs_headers st) ''content-length'' = []" if "hs_length st = None"
    using inv that by (auto simp: head_inv_def)
  have count: "length (req_headers h) \<le> max_header_count \<and> list_all (\<lambda>(k, _). clean_name k) (req_headers h)"
    using inv by (simp add: head_inv_def h)
  consider (chunked) te where "hs_te st = Some te" "hs_length st = None" "framing h = Chunked"
      "trim (last (split CHR '','' te)) = ''chunked''"
    | (length) n where "hs_te st = None" "hs_length st = Some n" "framing h = (if n > 0 then Length n else No_Body)"
    | (nothing) "hs_te st = None" "hs_length st = None" "framing h = No_Body"
    using f by (auto simp: decide_framing_def split: option.splits if_splits)
  then show ?thesis
  proof cases
    case chunked
    with te nolen show ?thesis using count
      by (auto simp: h Let_def list_all_iff)
  next
    case (length n)
    with none len [of n] show ?thesis using count by (auto simp: h Let_def)
  next
    case nothing
    with none nolen show ?thesis using count by (simp add: h Let_def)
  qed
qed

definition demo_request :: string where
  "demo_request = ''POST /a HTTP/1.1'' @ [CHR 0x0D, CHR 0x0A] @ ''Content-Length: 05'' @ [CHR 0x0D, CHR 0x0A, CHR 0x0D, CHR 0x0A] @ ''hello''"

theorem framing_is_unambiguous_witness:
  "header_values [(''content-length'', ''5'')] ''transfer-encoding'' = [] \<and> 5 \<le> body_limit 0"
proof -
  have p: "parse_request_head 100 8192 0 \<lparr>bytes = demo_request, ending = Stalled\<rparr> =
      Inr (\<lparr>req_method = ''POST'', req_path = ''/a'', req_headers = [(''content-length'', ''5'')], http10 = False,
            framing = Length 5\<rparr>, \<lparr>bytes = ''hello'', ending = Stalled\<rparr>)"
    by code_simp
  from framing_is_unambiguous [OF p] show ?thesis by (simp add: Let_def)
qed

text \<open>A head that the client breaks off is taken for a complete one: the end of the connection counts
  as the blank line, also in the middle of a header.\<close>

lemma truncated_head_is_accepted:
  "parse_request_head 100 8192 0
     \<lparr>bytes = ''POST / HTTP/1.1'' @ [CHR 0x0D, CHR 0x0A] @ ''Content-Length: 1'', ending = Eof\<rparr> =
   Inr (\<lparr>req_method = ''POST'', req_path = ''/'', req_headers = [(''content-length'', ''1'')], http10 = False,
         framing = Length 1\<rparr>, \<lparr>bytes = [], ending = Eof\<rparr>)"
  by code_simp

text \<open>The size of a chunk may have a plus sign, which the grammar of HTTP does not have.\<close>

lemma chunk_size_takes_a_sign: "chunk_size (''+5'' @ [CHR 0x0D, CHR 0x0A]) = Some 5"
  by code_simp

end
