(* ===== verification/Http_Body.thy ===== *)
theory Http_Body
  imports Http_Parser Step_System
begin

text \<open>
  Bodies and responses of the HTTP server (\<open>crates/js/src/builtins/http_server.rs\<close>): the two body
  framings against their encodings, the pipe between the connection and the script, and the bytes
  of a response.
\<close>

section \<open>Encoding and reading a body\<close>

definition hex_char :: "nat \<Rightarrow> char" where
  "hex_char d = (if d < 10 then digit_char d else char_of (87 + d))"

fun show_hex :: "nat \<Rightarrow> string" where
  "show_hex n = (if n < 16 then [hex_char n] else show_hex (n div 16) @ [hex_char (n mod 16)])"

declare show_hex.simps [simp del]

definition crlf :: string where
  "crlf = [CHR 0x0D, CHR 0x0A]"

definition encode_chunk :: "string \<Rightarrow> string" where
  "encode_chunk d = show_hex (length d) @ crlf @ d @ crlf"

definition encode_chunked :: "string list \<Rightarrow> string" where
  "encode_chunked ds = concat (map encode_chunk ds) @ ''0'' @ crlf @ crlf"

definition patient :: body_clock where
  "patient = \<lparr>late = (\<lambda>_. False), slow = (\<lambda>_. False)\<rparr>"

lemma hex_val_hex_char: "d < 16 \<Longrightarrow> hex_val (hex_char d) = Some d"
  by (cases "d < 10") (auto simp: hex_val_def hex_char_def is_digit_def digit_val_def byte_in_def byte_def)

lemma hex_digits: "list_all (\<lambda>c. hex_val c \<noteq> None) (show_hex n)"
proof (induction n rule: show_hex.induct)
  case (1 n)
  then show ?case by (cases "n < 16") (simp_all add: show_hex.simps [of n] hex_val_hex_char)
qed

lemma hex_number_snoc: "hex_number (s @ [c]) = 16 * hex_number s + (case hex_val c of Some v \<Rightarrow> v | None \<Rightarrow> 0)"
  by (simp add: hex_number_def)

lemma hex_number_show: "hex_number (show_hex n) = n"
proof (induction n rule: show_hex.induct)
  case (1 n)
  show ?case
  proof (cases "n < 16")
    case True
    then show ?thesis by (simp add: show_hex.simps [of n] hex_number_def hex_val_hex_char)
  next
    case False
    with 1 show ?thesis by (simp add: show_hex.simps [of n] hex_number_snoc hex_val_hex_char)
  qed
qed

lemma show_hex_not_Nil: "show_hex n \<noteq> []"
  by (subst show_hex.simps) simp

text \<open>A hexadecimal digit is none of the characters that the reader looks for.\<close>

lemma hex_val_plain:
  assumes "hex_val c \<noteq> None"
  shows "c \<noteq> CHR ''+'' \<and> c \<noteq> CHR '';'' \<and> \<not> is_ws c \<and> \<not> is_eol c \<and> c \<noteq> CHR 0x0A \<and> byte c < 0x80"
proof -
  have b: "48 \<le> byte c \<and> byte c \<le> 57 \<or> 97 \<le> byte c \<and> byte c \<le> 102 \<or> 65 \<le> byte c \<and> byte c \<le> 70"
    using assms by (auto simp: hex_val_def is_digit_def byte_in_def byte_def split: if_splits)
  have "byte (CHR ''+'') = 43" "byte (CHR '';'') = 59" "byte (CHR '' '') = 32" "byte (CHR 0x0D) = 13" "byte (CHR 0x0A) = 10"
    by code_simp+
  with b show ?thesis unfolding is_ws_def is_eol_def by (auto simp: byte_def)
qed

lemma show_hex_plain:
  assumes "c \<in> set (show_hex n)"
  shows "c \<noteq> CHR ''+'' \<and> c \<noteq> CHR '';'' \<and> \<not> is_ws c \<and> \<not> is_eol c \<and> c \<noteq> CHR 0x0A \<and> byte c < 0x80"
  by (rule hex_val_plain) (use hex_digits [of n] assms in \<open>simp add: list_all_iff\<close>)

lemma parse_hex_show: "n \<le> u64_max \<Longrightarrow> parse_hex (show_hex n) = Some n"
proof -
  assume n: "n \<le> u64_max"
  obtain c t where s: "show_hex n = c # t" using show_hex_not_Nil [of n] by (cases "show_hex n") auto
  then have "c \<noteq> CHR ''+''" using show_hex_plain [of c n] by simp
  with n show ?thesis using hex_digits [of n] hex_number_show [of n] by (simp add: parse_hex_def s)
qed

lemma trim_eol_line: "list_all (Not \<circ> is_eol) s \<Longrightarrow> trim_eol (s @ crlf) = s"
proof -
  assume "list_all (Not \<circ> is_eol) s"
  then have "dropWhile is_eol (rev s) = rev s" by (cases "rev s") (auto simp: list_all_iff dest: arg_cong [of "rev s" _ set])
  then show ?thesis by (simp add: trim_eol_def crlf_def is_eol_def)
qed

lemma chunk_size_show: "n \<le> u64_max \<Longrightarrow> chunk_size (show_hex n @ crlf) = Some n"
proof -
  assume n: "n \<le> u64_max"
  have "list_all (Not \<circ> is_eol) (show_hex n)" "CHR '';'' \<notin> set (show_hex n)" "list_all (Not \<circ> is_ws) (show_hex n)"
    using show_hex_plain [of _ n] by (auto simp: list_all_iff)
  then show ?thesis by (simp add: chunk_size_def trim_eol_line split_no_sep parse_hex_show [OF n])
qed

lemma read_line_crlf:
  assumes "CHR 0x0A \<notin> set s" and "list_all (\<lambda>c. byte c < 0x80) s" and "bytes r = s @ crlf @ rest"
  shows "read_line what r = Inr (s @ crlf, r\<lparr>bytes := rest\<rparr>)"
proof -
  have cr: "byte CHR 0x0D < 0x80" "byte CHR 0x0A < 0x80" by code_simp+
  have "split_once CHR 0x0A (bytes r) = Some (s @ [CHR 0x0D], rest)"
    using assms(1,3) by (simp add: split_once_Some crlf_def)
  moreover have "valid_utf8 (s @ crlf)"
    using assms(2) cr by (intro ascii_valid_utf8) (simp add: crlf_def)
  ultimately show ?thesis by (simp add: read_line_def crlf_def)
qed

lemma pump_span_all:
  "bytes r = d @ rest \<Longrightarrow> length d = n \<Longrightarrow> pump_span patient got n r = (d, Inr (r\<lparr>bytes := rest\<rparr>))"
proof (induction patient got n r arbitrary: d rule: pump_span.induct)
  case (1 got n r)
  note step = pump_span.simps [of patient got n r]
  show ?case
  proof (cases "n = 0")
    case True
    with "1.prems" show ?thesis by (cases r) simp
  next
    case False
    define k where "k = min n BODY_READ_MAX"
    have k: "0 < k" "k \<le> n" using False by (simp_all add: k_def BODY_READ_MAX_def)
    have chunk: "take (min n BODY_READ_MAX) (bytes r) = take k d" "length (take k d) = k"
      using k "1.prems" by (simp_all add: k_def)
    have ne: "bytes r \<noteq> []" using "1.prems" False by auto
    have "pump_span patient (got + k) (n - k) (r\<lparr>bytes := drop k (bytes r)\<rparr>) = (drop k d, Inr (r\<lparr>bytes := rest\<rparr>))"
      using "1.hyps" [OF False _ ne refl refl, unfolded chunk, of "drop k d"] "1.prems" k
      by (simp add: patient_def)
    with False ne chunk show ?thesis by (subst step) (simp add: patient_def Let_def)
  qed
qed
lemma zero_chunk: "chunk_size (''0'' @ crlf) = Some 0"
  by code_simp

lemma pump_chunked_end:
  assumes "2 \<le> max_header_bytes" and "tot \<le> max_body" and "bytes r = ''0'' @ crlf @ crlf @ rest"
  shows "pump_chunked c max_body max_header_bytes tot r = ([], Inr (r\<lparr>bytes := rest\<rparr>))"
proof -
  have ascii: "CHR 0x0A \<notin> set ''0''" "list_all (\<lambda>c. byte c < 0x80) ''0''" by code_simp+
  have l1: "read_line what r = Inr (''0'' @ crlf, r\<lparr>bytes := crlf @ rest\<rparr>)" for what
    by (rule read_line_crlf [OF ascii assms(3)])
  have l2: "read_line what (r\<lparr>bytes := crlf @ rest\<rparr>) = Inr (crlf, r\<lparr>bytes := rest\<rparr>)" for what
    using read_line_crlf [of "[]" "r\<lparr>bytes := crlf @ rest\<rparr>" rest what] by simp
  have "trim_eol crlf = []" "crlf \<noteq> []" "length crlf = 2" by code_simp+
  then have "read_trailers max_header_bytes 0 (r\<lparr>bytes := crlf @ rest\<rparr>) = Inr (r\<lparr>bytes := rest\<rparr>)"
    using assms(1) by (subst read_trailers.simps) (simp add: l2)
  with assms(2) zero_chunk show ?thesis by (subst pump_chunked.simps) (simp add: l1)
qed

lemma pump_chunked_step:
  assumes "d \<noteq> []" and "tot + length d \<le> max_body" and "tot + length d \<le> u64_max"
    and "bytes r = encode_chunk d @ rest"
    and "pump_chunked patient max_body mh (tot + length d) (r\<lparr>bytes := rest\<rparr>) = (ds, result)"
  shows "pump_chunked patient max_body mh tot r = (d @ ds, result)"
proof -
  let ?n = "length d"
  have plain: "CHR 0x0A \<notin> set (show_hex ?n)" "list_all (\<lambda>c. byte c < 0x80) (show_hex ?n)"
    using show_hex_plain [of _ ?n] by (auto simp: list_all_iff)
  have l1: "read_line what r = Inr (show_hex ?n @ crlf, r\<lparr>bytes := d @ crlf @ rest\<rparr>)" for what
    by (rule read_line_crlf [OF plain]) (simp add: assms(4) encode_chunk_def)
  have span: "pump_span patient tot ?n (r\<lparr>bytes := d @ crlf @ rest\<rparr>) = (d, Inr (r\<lparr>bytes := crlf @ rest\<rparr>))"
    using pump_span_all [of "r\<lparr>bytes := d @ crlf @ rest\<rparr>" d "crlf @ rest" ?n tot] by simp
  have l2: "read_line what (r\<lparr>bytes := crlf @ rest\<rparr>) = Inr (crlf, r\<lparr>bytes := rest\<rparr>)" for what
    using read_line_crlf [of "[]" "r\<lparr>bytes := crlf @ rest\<rparr>" rest what] by simp
  have "trim_eol crlf = []" by code_simp
  moreover have "chunk_size (show_hex ?n @ crlf) = Some ?n" by (rule chunk_size_show) (use assms(3) in simp)
  ultimately show ?thesis
    using assms(1,2,3,5) show_hex_not_Nil [of ?n]
    by (subst pump_chunked.simps) (simp add: l1 l2 span min_def)
qed

lemma pump_chunked_all:
  assumes "list_all (\<lambda>d. d \<noteq> []) ds" and "tot + length (concat ds) \<le> max_body" and "max_body \<le> u64_max"
    and "2 \<le> max_header_bytes"
  shows "pump_chunked patient max_body max_header_bytes tot \<lparr>bytes = encode_chunked ds @ rest, ending = e\<rparr> =
    (concat ds, Inr \<lparr>bytes = rest, ending = e\<rparr>)"
  using assms
proof (induction ds arbitrary: tot)
  case Nil
  then show ?case
    using pump_chunked_end [of max_header_bytes tot max_body "\<lparr>bytes = encode_chunked [] @ rest, ending = e\<rparr>" rest patient]
    by (simp add: encode_chunked_def)
next
  case (Cons d ds)
  have "pump_chunked patient max_body max_header_bytes (tot + length d) \<lparr>bytes = encode_chunked ds @ rest, ending = e\<rparr> =
      (concat ds, Inr \<lparr>bytes = rest, ending = e\<rparr>)"
    using Cons.prems by (intro Cons.IH) simp_all
  then show ?case
    using Cons.prems pump_chunked_step [of d tot max_body "\<lparr>bytes = encode_chunked (d # ds) @ rest, ending = e\<rparr>"
        "encode_chunked ds @ rest" max_header_bytes "concat ds" "Inr \<lparr>bytes = rest, ending = e\<rparr>"]
    by (simp add: encode_chunked_def)
qed

text \<open>
  Claim C25 (roundtrip). A body is read back exactly, and nothing after it: with a client that is
  neither late nor slow, a body cut into any non-empty chunks and encoded in the chunked coding is
  handed on as the same bytes, and a body of a fixed length likewise, whatever bytes it has (line
  feeds and bytes that are no text included), as long as it is within the limit; and what follows on
  the connection, the next request, is left untouched for the next head.
\<close>

theorem body_roundtrip:
  assumes "list_all (\<lambda>d. d \<noteq> []) ds" and "length (concat ds) \<le> body_limit max_body_bytes"
    and "body_limit max_body_bytes \<le> u64_max" and "2 \<le> max_header_bytes"
  shows "pump_body patient max_body_bytes max_header_bytes Chunked \<lparr>bytes = encode_chunked ds @ rest, ending = e\<rparr> =
      (concat ds, Inr \<lparr>bytes = rest, ending = e\<rparr>) \<and>
    pump_body patient max_body_bytes max_header_bytes (Length (length body)) \<lparr>bytes = body @ rest, ending = e\<rparr> =
      (body, Inr \<lparr>bytes = rest, ending = e\<rparr>)"
  using pump_chunked_all [of ds 0 "body_limit max_body_bytes" max_header_bytes rest e] assms
    pump_span_all [of "\<lparr>bytes = body @ rest, ending = e\<rparr>" body rest "length body" 0]
  by (simp add: pump_body_def pump_length_def)

theorem body_roundtrip_witness:
  "pump_body patient 0 8192 Chunked \<lparr>bytes = encode_chunked [[CHR 0x0A, CHR 0xFF], ''bc''] @ ''GET / HTTP/1.1'', ending = Eof\<rparr> =
     ([CHR 0x0A, CHR 0xFF] @ ''bc'', Inr \<lparr>bytes = ''GET / HTTP/1.1'', ending = Eof\<rparr>)"
  using body_roundtrip [of "[[CHR 0x0A, CHR 0xFF], ''bc'']" 0 8192 "''GET / HTTP/1.1''" Eof]
  by (simp add: body_limit_def HARD_MAX_BODY_def)

section \<open>The pipe to the script\<close>

definition BODY_PIPE_MAX :: nat where
  "BODY_PIPE_MAX = 2 ^ 20"

record body_state =
  queue :: "string list"
  queued :: nat
  eof :: bool
  error :: "string option"
  released :: bool

datatype body_read = Data string | Eof_Read | Eagain | Error string

definition pipe_new :: body_state where
  "pipe_new = \<lparr>queue = [], queued = 0, eof = False, error = None, released = False\<rparr>"

text \<open>\<open>push\<close>: \<open>None\<close> while the producer has to wait for room. A released pipe swallows the chunk.\<close>

definition pipe_push :: "string \<Rightarrow> body_state \<Rightarrow> body_state option" where
  "pipe_push chunk st =
     (if chunk = [] then Some st
      else if released st then Some st
      else if queued st + length chunk \<le> BODY_PIPE_MAX \<or> queue st = []
      then Some (st\<lparr>queued := queued st + length chunk, queue := queue st @ [chunk]\<rparr>)
      else None)"

definition pipe_finish :: "body_state \<Rightarrow> body_state" where
  "pipe_finish st = st\<lparr>eof := True\<rparr>"

definition pipe_fail :: "string \<Rightarrow> body_state \<Rightarrow> body_state" where
  "pipe_fail msg st = st\<lparr>error := Some msg, eof := True\<rparr>"

definition pipe_read :: "nat \<Rightarrow> body_state \<Rightarrow> body_read \<times> body_state" where
  "pipe_read limit st =
     (let limit = max limit 1; head = (case queue st of [] \<Rightarrow> [] | c # _ \<Rightarrow> c)
      in if head \<noteq> [] then
           (if length head \<le> limit
            then (Data head, st\<lparr>queue := tl (queue st), queued := queued st - length head\<rparr>)
            else (Data (take limit head),
                  st\<lparr>queue := drop limit head # tl (queue st), queued := queued st - limit\<rparr>))
         else (case error st of
                 Some e \<Rightarrow> (Error e, st\<lparr>error := None, released := True\<rparr>)
               | None \<Rightarrow> if eof st then (Eof_Read, st\<lparr>released := True\<rparr>) else (Eagain, st)))"

text \<open>The pipe with what went in and what came out so far. A released pipe takes nothing more. The producer pushes slices of at most
  \<open>BODY_READ_MAX\<close> bytes; the script reads at any time.\<close>

record pipe_run =
  pipe :: body_state
  pushed :: string
  delivered :: string

inductive pipe_step :: "pipe_run \<Rightarrow> pipe_run \<Rightarrow> bool" where
  push: "length chunk \<le> BODY_READ_MAX \<Longrightarrow> \<not> released (pipe s) \<Longrightarrow> pipe_push chunk (pipe s) = Some st \<Longrightarrow>
     pipe_step s (s\<lparr>pipe := st, pushed := pushed s @ chunk\<rparr>)"
| finish: "pipe_step s (s\<lparr>pipe := pipe_finish (pipe s)\<rparr>)"
| fail: "pipe_step s (s\<lparr>pipe := pipe_fail msg (pipe s)\<rparr>)"
| read: "pipe_read limit (pipe s) = (r, st) \<Longrightarrow>
     pipe_step s (s\<lparr>pipe := st, delivered := delivered s @ (case r of Data d \<Rightarrow> d | _ \<Rightarrow> [])\<rparr>)"

definition queue_ok :: "body_state \<Rightarrow> bool" where
  "queue_ok st \<longleftrightarrow> list_all (\<lambda>c. c \<noteq> []) (queue st) \<and> queued st = length (concat (queue st))"

definition pipe_inv :: "pipe_run \<Rightarrow> bool" where
  "pipe_inv s \<longleftrightarrow> queue_ok (pipe s) \<and> queued (pipe s) \<le> BODY_PIPE_MAX \<and>
     delivered s @ concat (queue (pipe s)) = pushed s"

lemma read_queue:
  assumes "pipe_read limit st = (r, st')" and "queue_ok st"
  shows "queue_ok st' \<and> queued st' \<le> queued st \<and>
    (case r of Data d \<Rightarrow> d | _ \<Rightarrow> []) @ concat (queue st') = concat (queue st)"
proof (cases "queue st")
  case Nil
  with assms show ?thesis by (auto simp: pipe_read_def queue_ok_def Let_def split: option.splits if_splits)
next
  case (Cons c cs)
  with assms(2) have c: "c \<noteq> []" "list_all (\<lambda>c. c \<noteq> []) cs" "queued st = length c + length (concat cs)"
    by (auto simp: queue_ok_def)
  show ?thesis
  proof (cases "length c \<le> max limit 1")
    case True
    with assms(1) c Cons show ?thesis by (auto simp: pipe_read_def Let_def queue_ok_def)
  next
    case False
    with assms(1) c Cons show ?thesis by (auto simp: pipe_read_def Let_def queue_ok_def)
  qed
qed

interpretation body_pipe: step_invariant
  "\<lambda>s. s = \<lparr>pipe = pipe_new, pushed = [], delivered = []\<rparr>" pipe_step pipe_inv
proof unfold_locales
  fix s t assume inv: "pipe_inv s" and "pipe_step s t"
  from this(2) show "pipe_inv t"
  proof cases
    case (push chunk st)
    have "length chunk \<le> BODY_PIPE_MAX" using push(2) by (simp add: BODY_READ_MAX_def BODY_PIPE_MAX_def)
    with push inv show ?thesis by (auto simp: pipe_push_def pipe_inv_def queue_ok_def split: if_splits)
  next
    case (read limit r st)
    with inv read_queue [OF read(2)] show ?thesis
      by (fastforce simp: pipe_inv_def)
  qed (use inv in \<open>auto simp: pipe_inv_def queue_ok_def pipe_finish_def pipe_fail_def\<close>)
qed (simp add: pipe_inv_def queue_ok_def pipe_new_def)

text \<open>
  Claim C26 (invariant). However the connection's reads and the script's reads interleave: what the
  script has received, followed by what is queued, is what the connection has delivered, in order,
  nothing lost and nothing twice; and at most a mebibyte is queued, whatever the body's declared
  length.
\<close>

theorem body_pipe_is_a_bounded_stream:
  assumes "pipe_step\<^sup>*\<^sup>* \<lparr>pipe = pipe_new, pushed = [], delivered = []\<rparr> s"
  shows "delivered s @ concat (queue (pipe s)) = pushed s \<and> queued (pipe s) = length (concat (queue (pipe s))) \<and>
    queued (pipe s) \<le> BODY_PIPE_MAX"
  using body_pipe.reachable_inv [OF refl assms] by (simp add: pipe_inv_def queue_ok_def)

theorem body_pipe_is_a_bounded_stream_witness:
  "let s = \<lparr>pipe = pipe_new\<lparr>queue := [''ab''], queued := 2\<rparr>, pushed = ''ab'', delivered = []\<rparr>
   in delivered s @ concat (queue (pipe s)) = pushed s \<and> queued (pipe s) \<le> BODY_PIPE_MAX"
proof -
  let ?s = "\<lparr>pipe = pipe_new\<lparr>queue := [''ab''], queued := 2\<rparr>, pushed = ''ab'', delivered = []\<rparr> :: pipe_run"
  have "pipe_step \<lparr>pipe = pipe_new, pushed = [], delivered = []\<rparr> ?s"
    using pipe_step.push [of "''ab''" "\<lparr>pipe = pipe_new, pushed = [], delivered = []\<rparr>" "pipe_new\<lparr>queue := [''ab''], queued := 2\<rparr>"]
    by (simp add: BODY_READ_MAX_def BODY_PIPE_MAX_def pipe_push_def pipe_new_def)
  from body_pipe_is_a_bounded_stream [OF r_into_rtranclp [of pipe_step, OF this]] show ?thesis by (simp add: Let_def)
qed

text \<open>The script reads until the stream ends: it never sees \<open>Eagain\<close> again once the body is complete,
  and every read takes a byte or ends the stream.\<close>

fun drain :: "nat \<Rightarrow> nat \<Rightarrow> body_state \<Rightarrow> string \<times> body_read option" where
  "drain 0 limit st = ([], None)"
| "drain (Suc n) limit st =
     (case pipe_read limit st of
        (Data d, st') \<Rightarrow> (let (rest, r) = drain n limit st' in (d @ rest, r))
      | (r, st') \<Rightarrow> ([], Some r))"

lemma pipe_read_data:
  assumes "queue_ok st" and "queue st \<noteq> []"
  shows "\<exists>d st'. pipe_read limit st = (Data d, st') \<and> queued st' < queued st \<and> eof st' = eof st \<and> error st' = error st"
proof -
  obtain c cs where q: "queue st = c # cs" using assms(2) by (cases "queue st") auto
  with assms(1) have "c \<noteq> []" "queued st = length c + length (concat cs)" by (auto simp: queue_ok_def)
  then show ?thesis by (auto simp: pipe_read_def Let_def q)
qed

lemma drain_complete:
  assumes "queue_ok st" and "eof st" and "queued st < n"
  shows "drain n limit st = (concat (queue st), Some (case error st of Some e \<Rightarrow> Error e | None \<Rightarrow> Eof_Read))"
  using assms
proof (induction n arbitrary: st)
  case (Suc n)
  show ?case
  proof (cases "queue st = []")
    case True
    with Suc.prems show ?thesis by (simp add: pipe_read_def split: option.splits)
  next
    case False
    from pipe_read_data [OF Suc.prems(1) False, of limit] obtain d st' where
      r: "pipe_read limit st = (Data d, st')" "queued st' < queued st" "eof st' = eof st" "error st' = error st" by blast
    from read_queue [OF r(1) Suc.prems(1)] have q: "queue_ok st'" "d @ concat (queue st') = concat (queue st)" by simp_all
    from Suc.IH [OF q(1)] r Suc.prems have "drain n limit st' = (concat (queue st'), Some (case error st of Some e \<Rightarrow> Error e | None \<Rightarrow> Eof_Read))"
      by simp
    with r(1) q(2) show ?thesis by simp
  qed
qed simp

text \<open>
  Claim C27 (liveness). A body always ends for the script: once the connection has marked the body as
  complete or failed, the script's reads, with any buffer size (zero included), return data until
  everything queued is delivered and then the end of the stream or the error, after at most one
  read per queued byte and one more; none of them reports that it should try again.
\<close>

theorem body_always_ends:
  assumes "pipe_step\<^sup>*\<^sup>* \<lparr>pipe = pipe_new, pushed = [], delivered = []\<rparr> s" and "eof (pipe s)"
  shows "\<exists>n \<le> queued (pipe s) + 1. \<exists>rest. drain n limit (pipe s) =
      (rest, Some (case error (pipe s) of Some e \<Rightarrow> Error e | None \<Rightarrow> Eof_Read)) \<and> delivered s @ rest = pushed s"
proof -
  have inv: "pipe_inv s" by (rule body_pipe.reachable_inv [OF refl assms(1)])
  then have "drain (queued (pipe s) + 1) limit (pipe s) =
      (concat (queue (pipe s)), Some (case error (pipe s) of Some e \<Rightarrow> Error e | None \<Rightarrow> Eof_Read))"
    using assms(2) by (intro drain_complete) (simp_all add: pipe_inv_def)
  moreover have "delivered s @ concat (queue (pipe s)) = pushed s" using inv by (simp add: pipe_inv_def)
  ultimately show ?thesis by blast
qed

theorem body_always_ends_witness:
  "\<exists>n \<le> (1::nat). \<exists>rest. drain n 0 (pipe_finish pipe_new) = (rest, Some Eof_Read) \<and> [] @ rest = []"
proof -
  let ?s0 = "\<lparr>pipe = pipe_new, pushed = [], delivered = []\<rparr> :: pipe_run"
  have "pipe_step ?s0 (?s0\<lparr>pipe := pipe_finish (pipe ?s0)\<rparr>)" by (rule pipe_step.finish)
  from body_always_ends [OF r_into_rtranclp [of pipe_step, OF this], of 0] show ?thesis
    by (simp add: pipe_finish_def pipe_new_def)
qed

section \<open>Responses\<close>

definition is_token_char :: "char \<Rightarrow> bool" where
  "is_token_char c \<longleftrightarrow> c \<in> set ''!#$%&*+-.^_`|~'' \<or> c = CHR 0x27 \<or> is_alpha c \<or> is_digit c"

definition is_valid_header_name :: "string \<Rightarrow> bool" where
  "is_valid_header_name name \<longleftrightarrow> name \<noteq> [] \<and> list_all is_token_char name"

definition is_valid_header_value :: "string \<Rightarrow> bool" where
  "is_valid_header_value value \<longleftrightarrow> list_all (\<lambda>c. byte c = 9 \<or> (\<not> byte c \<le> 0x1F \<and> byte c \<noteq> 0x7F)) value"

definition is_valid_status_text :: "string \<Rightarrow> bool" where
  "is_valid_status_text value \<longleftrightarrow> list_all (\<lambda>c. byte c = 9 \<or> byte_in 0x20 0x7e c \<or> byte c \<ge> 0x80) value"

datatype response_error = Invalid_Status | Invalid_Header string

text \<open>The headers that the application set, except those the server writes itself.\<close>

fun app_headers :: "(string \<times> string) list \<Rightarrow> response_error + string list" where
  "app_headers [] = Inr []"
| "app_headers ((k, v) # hs) =
     (let kl = map to_lower k
      in if kl = ''content-length'' \<or> kl = ''connection'' \<or> kl = ''date'' then app_headers hs
         else if \<not> is_valid_header_name k \<or> \<not> is_valid_header_value v then Inl (Invalid_Header kl)
         else and_then (app_headers hs) (\<lambda>ls. Inr ((k @ '': '' @ v) # ls)))"

definition server_headers :: "string \<Rightarrow> bool \<Rightarrow> nat \<Rightarrow> string list" where
  "server_headers date close_after n =
     [''Date: '' @ date, if close_after then ''Connection: close'' else ''Connection: keep-alive'',
      ''Content-Length: '' @ show_nat n]"

definition http_respond ::
  "string \<Rightarrow> nat \<Rightarrow> string \<Rightarrow> (string \<times> string) list \<Rightarrow> bool \<Rightarrow> string \<Rightarrow> response_error + string" where
  "http_respond date status status_text extra close_after body =
     (if \<not> is_valid_status_text status_text then Inl Invalid_Status
      else and_then (app_headers extra) (\<lambda>ls.
        Inr (''HTTP/1.1 '' @ show_nat status @ '' '' @ status_text @ crlf @ concat (map (\<lambda>l. l @ crlf) ls) @
             concat (map (\<lambda>l. l @ crlf) (server_headers date close_after (length body))) @ crlf @ body)))"

definition one_line :: "string \<Rightarrow> bool" where
  "one_line l \<longleftrightarrow> CHR 0x0D \<notin> set l \<and> CHR 0x0A \<notin> set l"

lemma one_line_append [simp]: "one_line (a @ b) \<longleftrightarrow> one_line a \<and> one_line b"
  by (auto simp: one_line_def)

lemma one_line_Cons [simp]: "one_line (c # s) \<longleftrightarrow> c \<noteq> CHR 0x0D \<and> c \<noteq> CHR 0x0A \<and> one_line s" "one_line []"
  by (auto simp: one_line_def)

lemma one_line_bytes: "list_all (\<lambda>c. byte c \<noteq> 13 \<and> byte c \<noteq> 10) l \<Longrightarrow> one_line l"
proof -
  have "byte CHR 0x0D = 13" "byte CHR 0x0A = 10" by code_simp+
  then show "list_all (\<lambda>c. byte c \<noteq> 13 \<and> byte c \<noteq> 10) l \<Longrightarrow> one_line l"
    by (auto simp: one_line_def list_all_iff)
qed

lemma token_bytes: "is_token_char c \<Longrightarrow> byte c \<noteq> 13 \<and> byte c \<noteq> 10"
  by (auto simp: is_token_char_def is_alpha_def is_digit_def byte_def)

lemma valid_parts_one_line:
  "is_valid_header_name k \<Longrightarrow> one_line k" "is_valid_header_value v \<Longrightarrow> one_line v" "is_valid_status_text s \<Longrightarrow> one_line s"
proof -
  show "is_valid_header_name k \<Longrightarrow> one_line k"
    by (rule one_line_bytes) (auto simp: is_valid_header_name_def list_all_iff dest: token_bytes)
  show "is_valid_header_value v \<Longrightarrow> one_line v" "is_valid_status_text s \<Longrightarrow> one_line s"
    by (rule one_line_bytes; force simp: is_valid_header_value_def is_valid_status_text_def byte_in_def list_all_iff)+
qed

lemma one_line_show_nat: "one_line (show_nat n)"
  by (rule one_line_bytes) (use show_nat_digits [of n] in \<open>auto simp: list_all_iff is_digit_def byte_def\<close>)

lemma app_headers_one_line: "app_headers hs = Inr ls \<Longrightarrow> list_all one_line ls \<and> length ls \<le> length hs"
proof (induction hs arbitrary: ls)
  case (Cons h hs)
  obtain k v where h: "h = (k, v)" by (cases h)
  show ?case
  proof (cases "map to_lower k = ''content-length'' \<or> map to_lower k = ''connection'' \<or> map to_lower k = ''date''")
    case True
    with Cons h show ?thesis by (auto simp: Let_def le_SucI)
  next
    case False
    with Cons.prems h obtain rest where "app_headers hs = Inr rest" "ls = (k @ '': '' @ v) # rest"
      "is_valid_header_name k" "is_valid_header_value v"
      by (auto simp: Let_def and_then_Inr split: if_splits)
    with Cons.IH valid_parts_one_line show ?thesis by simp
  qed
qed simp

text \<open>
  Claim C24 (safety). No response splitting: whatever status text, header names and values and body the
  script passes, either the call is an error or the bytes on the wire are a status line, at most
  one line per header it set and the three lines of the server, each ended by CRLF and with no CR
  or LF inside, then one blank line and the body. So a script, or data it echoes, cannot add a
  header or a second response; and the content-length line is the length of the body.
\<close>

theorem response_is_not_split:
  assumes "http_respond date status status_text extra close_after body = Inr out" and "one_line date"
  shows "\<exists>ls. out = concat (map (\<lambda>l. l @ crlf)
        ((''HTTP/1.1 '' @ show_nat status @ '' '' @ status_text) # ls @ server_headers date close_after (length body))) @
      crlf @ body \<and>
    list_all one_line ((''HTTP/1.1 '' @ show_nat status @ '' '' @ status_text) # ls @ server_headers date close_after (length body)) \<and>
    length ls \<le> length extra"
proof -
  from assms(1) obtain ls where ls: "app_headers extra = Inr ls" and s: "is_valid_status_text status_text"
    and out: "out = ''HTTP/1.1 '' @ show_nat status @ '' '' @ status_text @ crlf @ concat (map (\<lambda>l. l @ crlf) ls) @
        concat (map (\<lambda>l. l @ crlf) (server_headers date close_after (length body))) @ crlf @ body"
    by (auto simp: http_respond_def and_then_Inr split: if_splits)
  have "list_all one_line (server_headers date close_after (length body))"
    using assms(2) one_line_show_nat by (simp add: server_headers_def)
  with app_headers_one_line [OF ls] s valid_parts_one_line(3) one_line_show_nat out
  show ?thesis by (intro exI [of _ ls]) simp
qed

theorem response_is_not_split_witness:
  "(\<exists>ls. ''HTTP/1.1 200 OK'' @ crlf @ ''X-A: b'' @ crlf @ ''Date: d'' @ crlf @ ''Connection: close'' @ crlf @ ''Content-Length: 1'' @ crlf @ crlf @ ''x'' =
     concat (map (\<lambda>l. l @ crlf) ((''HTTP/1.1 '' @ show_nat 200 @ '' '' @ ''OK'') # ls @ server_headers ''d'' True (length ''x''))) @ crlf @ ''x'' \<and>
     list_all one_line ((''HTTP/1.1 '' @ show_nat 200 @ '' '' @ ''OK'') # ls @ server_headers ''d'' True (length ''x'')) \<and>
     length ls \<le> length [(''X-A'', ''b'')])"
proof (rule response_is_not_split)
  show "http_respond ''d'' 200 ''OK'' [(''X-A'', ''b'')] True ''x'' =
      Inr (''HTTP/1.1 200 OK'' @ crlf @ ''X-A: b'' @ crlf @ ''Date: d'' @ crlf @ ''Connection: close'' @ crlf @ ''Content-Length: 1'' @ crlf @ crlf @ ''x'')"
    by code_simp
  show "one_line ''d''" by code_simp
qed

end
