(* ===== verification/Cli_Permissions.thy ===== *)
theory Cli_Permissions
  imports Permission_Policy Json
begin

text \<open>
  The rights of a run, from \<open>crates/cli/src/main.rs\<close>: the permissions of the project's
  \<open>package.json\<close> (\<open>read_package_json_permissions\<close>), the flags of \<open>3va run\<close> and the
  \<open>PermissionState\<close> that \<open>build_permissions\<close> makes of both, on non-Windows targets.

  The files, the JSON parser of \<open>serde_json\<close> and the environment of the process are parameters.
  The hash map of the package scopes is the list of its entries. The warning on standard error is
  not modelled; the names it would list are.
\<close>

section \<open>The manifest\<close>

lemma split_once_length: "split_once c s = Some (a, b) \<Longrightarrow> length a + length b < length s"
  by (induction s arbitrary: a) (auto split: if_splits option.splits)

text \<open>\<open>expand_env_vars_tracked\<close>: the expanded text and the names of undefined variables.\<close>

function expand_env_vars_tracked :: "(string \<rightharpoonup> string) \<Rightarrow> string \<Rightarrow> string \<times> string list" where
  "expand_env_vars_tracked env raw =
     (case split_once_str ''${'' raw of
        None \<Rightarrow> (raw, [])
      | Some (before, after) \<Rightarrow>
          (case split_once CHR ''}'' after of
             None \<Rightarrow> (raw, [])
           | Some (name, rest) \<Rightarrow>
               (let (out, missing) = expand_env_vars_tracked env rest
                in case env name of
                     Some val \<Rightarrow> (before @ val @ out, missing)
                   | None \<Rightarrow> (before @ ''${'' @ name @ ''}'' @ out, name # missing))))"
  by pat_completeness auto

termination
proof (relation "measure (\<lambda>(env, raw). length raw)", simp, goal_cases)
  case (1 env raw x before after y name rest)
  then show ?case
    using split_once_str_length [of "''${''" raw before after] split_once_length [of "CHR ''}''" after name rest]
    by simp
qed

declare expand_env_vars_tracked.simps [simp del]

definition resolve_pkg_path :: "(string \<rightharpoonup> string) \<Rightarrow> string \<Rightarrow> string \<Rightarrow> string \<times> string list" where
  "resolve_pkg_path env start_dir raw =
     (let (expanded, missing) = expand_env_vars_tracked env raw
      in (if is_absolute (parse_path expanded) then expanded else join_str start_dir expanded, missing))"

definition string_items :: "json \<Rightarrow> string list" where
  "string_items v = (case as_array v of Some xs \<Rightarrow> List.map_filter as_str xs | None \<Rightarrow> [])"

definition collect_paths :: "(string \<rightharpoonup> string) \<Rightarrow> json \<Rightarrow> string \<Rightarrow> string \<Rightarrow> string list" where
  "collect_paths env scope key start_dir =
     map (\<lambda>s. fst (resolve_pkg_path env start_dir s)) (string_items (json_index scope key))"

definition collect_strings_tracked :: "(string \<rightharpoonup> string) \<Rightarrow> json \<Rightarrow> string \<Rightarrow> string list" where
  "collect_strings_tracked env scope key =
     map (\<lambda>s. fst (expand_env_vars_tracked env s)) (string_items (json_index scope key))"

record scope_grants =
  allow_read :: "string list"
  allow_write :: "string list"
  allow_net :: "string list"
  allow_env :: "string list"
  allow_child_process :: bool
  allow_ffi :: "string list"
  deny_read :: "string list"
  deny_write :: "string list"
  deny_net :: "string list"
  deny_env :: "string list"
  deny_ffi :: "string list"
  deny_child_process :: bool

text \<open>\<open>ThreeVaPermissions\<close>: its flat fields are those of a scope, for the application itself.\<close>

record three_va_permissions =
  app :: scope_grants
  no_prompt :: bool
  no_delegate :: bool
  manifest_insecure :: bool
  scoped :: "(string \<times> scope_grants) list"

definition no_grants :: scope_grants where
  "no_grants =
     \<lparr>allow_read = [], allow_write = [], allow_net = [], allow_env = [], allow_child_process = False,
      allow_ffi = [], deny_read = [], deny_write = [], deny_net = [], deny_env = [], deny_ffi = [],
      deny_child_process = False\<rparr>"

definition default_permissions :: three_va_permissions where
  "default_permissions =
     \<lparr>app = no_grants, no_prompt = False, no_delegate = False, manifest_insecure = False, scoped = []\<rparr>"

definition read_scope :: "(string \<rightharpoonup> string) \<Rightarrow> string \<Rightarrow> json \<Rightarrow> scope_grants" where
  "read_scope env start_dir scope =
     \<lparr>allow_read = collect_paths env scope ''allow-read'' start_dir,
      allow_write = collect_paths env scope ''allow-write'' start_dir,
      allow_net = collect_strings_tracked env scope ''allow-net'',
      allow_env = collect_strings_tracked env scope ''allow-env'',
      allow_child_process = (as_bool (json_index scope ''allow-child-process'') = Some True),
      allow_ffi = collect_paths env scope ''allow-ffi'' start_dir,
      deny_read = collect_paths env scope ''deny-read'' start_dir,
      deny_write = collect_paths env scope ''deny-write'' start_dir,
      deny_net = collect_strings_tracked env scope ''deny-net'',
      deny_env = collect_strings_tracked env scope ''deny-env'',
      deny_ffi = collect_paths env scope ''deny-ffi'' start_dir,
      deny_child_process = (as_bool (json_index scope ''deny-child-process'') = Some True)\<rparr>"

definition extend_grants :: "scope_grants \<Rightarrow> scope_grants \<Rightarrow> scope_grants" where
  "extend_grants e g =
     \<lparr>allow_read = allow_read e @ allow_read g, allow_write = allow_write e @ allow_write g,
      allow_net = allow_net e @ allow_net g, allow_env = allow_env e @ allow_env g,
      allow_child_process = (allow_child_process e \<or> allow_child_process g),
      allow_ffi = allow_ffi e @ allow_ffi g,
      deny_read = deny_read e @ deny_read g, deny_write = deny_write e @ deny_write g,
      deny_net = deny_net e @ deny_net g, deny_env = deny_env e @ deny_env g,
      deny_ffi = deny_ffi e @ deny_ffi g,
      deny_child_process = (deny_child_process e \<or> deny_child_process g)\<rparr>"

text \<open>\<open>scoped.entry(name).or_default()\<close>, extended.\<close>

fun add_scope :: "string \<Rightarrow> scope_grants \<Rightarrow> (string \<times> scope_grants) list \<Rightarrow> (string \<times> scope_grants) list" where
  "add_scope name g [] = [(name, extend_grants no_grants g)]"
| "add_scope name g ((n, e) # xs) =
     (if n = name then (n, extend_grants e g) # xs else (n, e) # add_scope name g xs)"

definition merge_scope ::
  "(string \<rightharpoonup> string) \<Rightarrow> string \<Rightarrow> three_va_permissions \<Rightarrow> string \<times> json \<Rightarrow> three_va_permissions" where
  "merge_scope env start_dir merged = (\<lambda>(scope_name, scope).
     let grants = read_scope env start_dir scope
     in if scope_name = ROOT_SCOPE then merged\<lparr>app := extend_grants (app merged) grants\<rparr>
        else merged\<lparr>scoped := add_scope scope_name grants (scoped merged)\<rparr>)"

text \<open>The walk up from the entry file's directory: \<open>read\<close> is \<open>read_to_string\<close> of a directory's
  \<open>package.json\<close>.\<close>

function find_manifest :: "(path \<Rightarrow> string option) \<Rightarrow> path \<Rightarrow> (path \<times> string) option" where
  "find_manifest read dir =
     (case (if Normal ''node_modules'' \<in> set dir then None else read dir) of
        Some content \<Rightarrow> Some (dir, content)
      | None \<Rightarrow> (case pop_component dir of Some parent \<Rightarrow> find_manifest read parent | None \<Rightarrow> None))"
  by pat_completeness auto
termination
  by (relation "measure (\<lambda>(read, dir). length dir)") (auto simp: pop_component_def split: if_splits)

declare find_manifest.simps [simp del]

definition manifest_flag :: "json \<Rightarrow> string \<Rightarrow> bool" where
  "manifest_flag json key = (as_bool (json_index (json_index json ''3va'') key) = Some True)"

definition read_manifest_permissions :: "(string \<rightharpoonup> string) \<Rightarrow> string \<Rightarrow> json \<Rightarrow> three_va_permissions" where
  "read_manifest_permissions env start_dir json =
     (let merged = default_permissions\<lparr>no_prompt := manifest_flag json ''no-prompt'',
            no_delegate := manifest_flag json ''no-delegate'',
            manifest_insecure := manifest_flag json ''allow-insecure''\<rparr>
      in case as_object (json_index (json_index json ''3va'') ''permissions'') of
           None \<Rightarrow> merged
         | Some scopes \<Rightarrow> foldl (merge_scope env start_dir) merged scopes)"

definition read_package_json_permissions ::
  "(string \<rightharpoonup> string) \<Rightarrow> (path \<Rightarrow> string option) \<Rightarrow> (string \<Rightarrow> json option) \<Rightarrow> path \<Rightarrow> three_va_permissions" where
  "read_package_json_permissions env read from_str start_dir =
     (case find_manifest read start_dir of
        None \<Rightarrow> default_permissions
      | Some (dir, content) \<Rightarrow>
          (case from_str content of
             None \<Rightarrow> default_permissions
           | Some json \<Rightarrow> read_manifest_permissions env (path_display dir) json))"

section \<open>The flags\<close>

definition wildcard :: "string list \<Rightarrow> bool" where
  "wildcard l \<longleftrightarrow> l = [] \<or> [] \<in> set l"

definition merge_opt_slice :: "string list option \<Rightarrow> string list \<Rightarrow> string list option" where
  "merge_opt_slice cli pkg =
     (case cli of
        None \<Rightarrow> (if pkg = [] then None else Some pkg)
      | Some slice \<Rightarrow> if wildcard slice then Some slice else Some (slice @ pkg))"

text \<open>The arguments of \<open>build_permissions\<close> that come from the command line.\<close>

record run_flags =
  cli_read :: "string list option"
  cli_write :: "string list option"
  cli_net :: "string list option"
  cli_env :: "string list option"
  cli_child_process :: bool
  cli_ffi :: "string list option"
  cli_interactive :: bool

text \<open>The capabilities that one listed path, and a list of paths, is granted as.\<close>

definition path_caps :: "fs_env \<Rightarrow> (path \<Rightarrow> capability) \<Rightarrow> string \<Rightarrow> capability list" where
  "path_caps fs cap path =
     (let cwd = (case cwd fs of Some d \<Rightarrow> d | None \<Rightarrow> [CurDir]);
          raw = (if is_absolute (parse_path path) then parse_path path else path_join cwd (parse_path path))
      in cap raw # (case canon fs raw of Some c \<Rightarrow> if c \<noteq> raw then [cap c] else [] | None \<Rightarrow> []))"

definition path_flag :: "fs_env \<Rightarrow> (path \<Rightarrow> capability) \<Rightarrow> string list option \<Rightarrow> capability list" where
  "path_flag fs cap flag =
     (case flag of
        None \<Rightarrow> []
      | Some paths \<Rightarrow> if wildcard paths then [cap [RootDir]] else concat (map (path_caps fs cap) paths))"

definition list_flag :: "capability \<Rightarrow> (string \<Rightarrow> capability) \<Rightarrow> string list option \<Rightarrow> capability list" where
  "list_flag all cap flag =
     (case flag of
        None \<Rightarrow> []
      | Some items \<Rightarrow> if wildcard items then [all] else map cap items)"

text \<open>What is granted, and denied, to the whole run, in the order of the code.\<close>

definition app_allows :: "fs_env \<Rightarrow> run_flags \<Rightarrow> scope_grants \<Rightarrow> capability list" where
  "app_allows fs f pkg =
     path_flag fs FileRead (merge_opt_slice (cli_read f) (allow_read pkg)) @
     path_flag fs FileWrite (merge_opt_slice (cli_write f) (allow_write pkg)) @
     list_flag (Network ''*'') Network (merge_opt_slice (cli_net f) (allow_net pkg)) @
     list_flag EnvAccess EnvVar (merge_opt_slice (cli_env f) (allow_env pkg)) @
     (if cli_child_process f \<or> allow_child_process pkg then [SpawnProcess] else []) @
     list_flag (FFI [RootDir]) (\<lambda>p. FFI (parse_path p)) (merge_opt_slice (cli_ffi f) (allow_ffi pkg))"

definition scope_denies :: "scope_grants \<Rightarrow> capability list" where
  "scope_denies g =
     map (\<lambda>p. FileRead (parse_path p)) (deny_read g) @
     map (\<lambda>p. FileWrite (parse_path p)) (deny_write g) @
     map Network (deny_net g) @
     map EnvVar (deny_env g) @
     map (\<lambda>p. FFI (parse_path p)) (deny_ffi g) @
     (if deny_child_process g then [SpawnProcess] else [])"

definition scope_allows :: "scope_grants \<Rightarrow> capability list" where
  "scope_allows g =
     map (\<lambda>p. FileRead (parse_path p)) (allow_read g) @
     map (\<lambda>p. FileWrite (parse_path p)) (allow_write g) @
     map Network (allow_net g) @
     map EnvVar (allow_env g) @
     (if allow_child_process g then [SpawnProcess] else []) @
     map (\<lambda>p. FFI (parse_path p)) (allow_ffi g)"

definition add_package ::
  "string \<times> scope_grants \<Rightarrow> perm_state \<times> scope_state \<Rightarrow> perm_state \<times> scope_state" where
  "add_package = (\<lambda>(scope_name, grants) st.
     fold (\<lambda>c (s, sc). deny_scoped scope_name c s sc) (scope_denies grants)
       (fold (\<lambda>c (s, sc). grant_scoped scope_name c s sc) (scope_allows grants) st))"

definition build_permissions ::
  "fs_env \<Rightarrow> run_flags \<Rightarrow> three_va_permissions \<Rightarrow> scope_state \<Rightarrow> perm_state \<times> scope_state" where
  "build_permissions fs f pkg sc =
     fold add_package (scoped pkg)
       (fold deny (scope_denies (app pkg))
          (fold grant (app_allows fs f (app pkg)) (set_interactive (cli_interactive f) perm_new)), sc)"

section \<open>The rules of the state that is built\<close>

lemma fold_grant: "fold grant cs s = s\<lparr>granted := granted s \<union> set cs\<rparr>"
  by (induction cs arbitrary: s) (simp_all add: grant_def)

lemma fold_deny: "fold deny cs s = s\<lparr>denied := denied s \<union> set cs\<rparr>"
  by (induction cs arbitrary: s) (simp_all add: deny_def)

lemma fold_grant_scoped:
  assumes "n \<noteq> ROOT_SCOPE"
  shows "fold (\<lambda>c (s, sc). grant_scoped n c s sc) cs (s, sc) =
    (s\<lparr>scoped_granted := fold (add_rule n) cs (scoped_granted s)\<rparr>,
     if cs = [] then sc else mark_scoped_rules_active sc)"
  using assms by (induction cs arbitrary: s sc) (auto simp: grant_scoped_def mark_scoped_rules_active_def)

lemma fold_deny_scoped:
  assumes "n \<noteq> ROOT_SCOPE"
  shows "fold (\<lambda>c (s, sc). deny_scoped n c s sc) cs (s, sc) =
    (s\<lparr>scoped_denied := fold (add_rule n) cs (scoped_denied s)\<rparr>,
     if cs = [] then sc else mark_scoped_rules_active sc)"
  using assms by (induction cs arbitrary: s sc) (auto simp: deny_scoped_def mark_scoped_rules_active_def)

definition rules_of :: "(string \<rightharpoonup> capability set) \<Rightarrow> string \<Rightarrow> capability set" where
  "rules_of m p = (case m p of Some rules \<Rightarrow> rules | None \<Rightarrow> {})"

lemma rules_of_ex: "(\<exists>rules. m p = Some rules \<and> (\<exists>d\<in>rules. P d)) \<longleftrightarrow> (\<exists>d\<in>rules_of m p. P d)"
  by (auto simp: rules_of_def split: option.splits)

lemma rules_of_fold: "rules_of (fold (add_rule n) cs m) p = rules_of m p \<union> (if p = n then set cs else {})"
  by (induction cs arbitrary: m) (auto simp: rules_of_def add_rule_def)

definition package_rules :: "(scope_grants \<Rightarrow> capability list) \<Rightarrow> (string \<times> scope_grants) list \<Rightarrow> string \<Rightarrow> capability set" where
  "package_rules sel xs p = (\<Union>(n, g)\<in>set xs. if n = p then set (sel g) else {})"

lemma package_rules_Nil [simp]: "package_rules sel [] p = {}"
  by (simp add: package_rules_def)

lemma package_rules_Cons:
  "package_rules sel ((n, g) # xs) p = (if n = p then set (sel g) else {}) \<union> package_rules sel xs p"
  by (auto simp: package_rules_def)

lemma package_rules_absent: "p \<notin> fst ` set xs \<Longrightarrow> package_rules sel xs p = {}"
  by (induction xs) (auto simp: package_rules_Cons)

lemma add_package_eq:
  assumes "n \<noteq> ROOT_SCOPE"
  shows "\<exists>sc'. add_package (n, g) (s, sc) =
    (s\<lparr>scoped_granted := fold (add_rule n) (scope_allows g) (scoped_granted s),
       scoped_denied := fold (add_rule n) (scope_denies g) (scoped_denied s)\<rparr>, sc')"
  using assms by (simp add: add_package_def fold_grant_scoped fold_deny_scoped)

lemma fold_add_package:
  assumes "ROOT_SCOPE \<notin> fst ` set xs"
  shows "\<exists>gm dm sc'. fold add_package xs (s, sc) = (s\<lparr>scoped_granted := gm, scoped_denied := dm\<rparr>, sc') \<and>
    (\<forall>p. rules_of gm p = rules_of (scoped_granted s) p \<union> package_rules scope_allows xs p) \<and>
    (\<forall>p. rules_of dm p = rules_of (scoped_denied s) p \<union> package_rules scope_denies xs p)"
  using assms
proof (induction xs arbitrary: s sc)
  case Nil
  show ?case by (intro exI conjI) (auto simp: package_rules_def)
next
  case (Cons x xs)
  obtain n g where x: "x = (n, g)" by fastforce
  let ?s = "s\<lparr>scoped_granted := fold (add_rule n) (scope_allows g) (scoped_granted s),
       scoped_denied := fold (add_rule n) (scope_denies g) (scoped_denied s)\<rparr>"
  from Cons.prems x obtain sc1 where 1: "add_package (n, g) (s, sc) = (?s, sc1)"
    using add_package_eq [of n g s sc] by auto
  from Cons.IH [of ?s sc1] Cons.prems obtain gm dm sc2 where
    2: "fold add_package xs (?s, sc1) = (?s\<lparr>scoped_granted := gm, scoped_denied := dm\<rparr>, sc2)"
       "\<forall>p. rules_of gm p = rules_of (scoped_granted ?s) p \<union> package_rules scope_allows xs p"
       "\<forall>p. rules_of dm p = rules_of (scoped_denied ?s) p \<union> package_rules scope_denies xs p" by auto
  then show ?case unfolding x
    by (intro exI [of _ gm] exI [of _ dm] exI [of _ sc2]) (auto simp: 1 rules_of_fold package_rules_Cons)
qed

lemma build_permissions_rules:
  assumes "ROOT_SCOPE \<notin> fst ` set (scoped pkg)"
  shows "\<exists>gm dm sc'. build_permissions fs f pkg sc =
      (perm_new\<lparr>granted := set (app_allows fs f (app pkg)), denied := set (scope_denies (app pkg)),
         interactive := cli_interactive f, scoped_granted := gm, scoped_denied := dm\<rparr>, sc') \<and>
    (\<forall>p. rules_of gm p = package_rules scope_allows (scoped pkg) p) \<and>
    (\<forall>p. rules_of dm p = package_rules scope_denies (scoped pkg) p)"
  using fold_add_package [OF assms, of "fold deny (scope_denies (app pkg))
          (fold grant (app_allows fs f (app pkg)) (set_interactive (cli_interactive f) perm_new))" sc]
  by (auto simp: build_permissions_def fold_grant fold_deny set_interactive_def perm_new_def rules_of_def)

text \<open>What a run may do: the verdict of a check, in terms of the listed rules alone.\<close>

definition hits :: "world \<Rightarrow> capability \<Rightarrow> capability set \<Rightarrow> bool" where
  "hits w cap rules \<longleftrightarrow> (\<exists>r\<in>rules. caps_match (w_fs w) r cap)"

lemma category_denied_perm_new [simp]:
  "category_denied (perm_new\<lparr>granted := a, denied := b, interactive := i, scoped_granted := c, scoped_denied := d\<rparr>) cap = False"
  by (cases cap) (simp_all add: perm_new_def)

lemma run_verdict:
  assumes "ROOT_SCOPE \<notin> fst ` set (scoped pkg)" and "\<not> cli_interactive f"
  shows "fst (check w cap (fst (build_permissions fs f pkg sc))) \<longleftrightarrow>
    \<not> hits w cap (set (scope_denies (app pkg))) \<and>
    (\<forall>p\<in>set (deny_scopes (w_scope w)). \<not> hits w cap (package_rules scope_denies (scoped pkg) p)) \<and>
    (hits w cap (set (app_allows fs f (app pkg))) \<or>
     (package_scopes (w_scope w) \<noteq> [] \<and>
      (\<forall>p\<in>set (package_scopes (w_scope w)). hits w cap (package_rules scope_allows (scoped pkg) p))))"
proof -
  obtain gm dm sc' where b: "build_permissions fs f pkg sc =
      (perm_new\<lparr>granted := set (app_allows fs f (app pkg)), denied := set (scope_denies (app pkg)),
         interactive := cli_interactive f, scoped_granted := gm, scoped_denied := dm\<rparr>, sc')"
    and r: "\<And>p. rules_of gm p = package_rules scope_allows (scoped pkg) p"
           "\<And>p. rules_of dm p = package_rules scope_denies (scoped pkg) p"
    using build_permissions_rules [OF assms(1), of fs f sc] by blast
  let ?s = "fst (build_permissions fs f pkg sc)"
  have "fst (check w cap ?s) \<longleftrightarrow> \<not> deny_applies w ?s cap \<and> grant_applies w ?s cap"
    using assms(2) by (simp add: fst_check_policy policy_def b)
  then show ?thesis
    by (simp add: b deny_applies_def grant_applies_def holds_grant_def rules_of_ex r hits_def)
qed

section \<open>From the manifest to the verdict\<close>

definition declared_scopes :: "json \<Rightarrow> (string \<times> json) list" where
  "declared_scopes json =
     (case as_object (json_index (json_index json ''3va'') ''permissions'') of Some scopes \<Rightarrow> scopes | None \<Rightarrow> [])"

text \<open>What the entries of a manifest declare for a scope.\<close>

definition declared ::
  "(scope_grants \<Rightarrow> capability list) \<Rightarrow> (string \<rightharpoonup> string) \<Rightarrow> string \<Rightarrow> (string \<times> json) list \<Rightarrow> string \<Rightarrow> capability set" where
  "declared sel env dir scopes p = (\<Union>(n, v)\<in>set scopes. if n = p then set (sel (read_scope env dir v)) else {})"

definition declared_app :: "(string \<rightharpoonup> string) \<Rightarrow> string \<Rightarrow> (string \<times> json) list \<Rightarrow> scope_grants" where
  "declared_app env dir scopes =
     foldl extend_grants no_grants (map (\<lambda>(n, v). read_scope env dir v) (filter (\<lambda>(n, v). n = ROOT_SCOPE) scopes))"

lemma set_scope_denies_extend [simp]:
  "set (scope_denies (extend_grants a b)) = set (scope_denies a) \<union> set (scope_denies b)"
  by (auto simp: scope_denies_def extend_grants_def)

lemma set_scope_allows_extend [simp]:
  "set (scope_allows (extend_grants a b)) = set (scope_allows a) \<union> set (scope_allows b)"
  by (auto simp: scope_allows_def extend_grants_def)

lemma no_grants_empty [simp]: "scope_denies no_grants = []" "scope_allows no_grants = []"
  by (simp_all add: scope_denies_def scope_allows_def no_grants_def)

lemma add_scope_keys: "fst ` set (add_scope n g xs) = insert n (fst ` set xs)"
  by (induction n g xs rule: add_scope.induct) auto

lemma package_rules_add_scope:
  assumes "\<And>a b. set (sel (extend_grants a b)) = set (sel a) \<union> set (sel b)" and "sel no_grants = []"
  shows "package_rules sel (add_scope n g xs) p = package_rules sel xs p \<union> (if n = p then set (sel g) else {})"
proof (induction n g xs rule: add_scope.induct)
  case (1 name g)
  show ?case by (simp add: package_rules_Cons assms)
next
  case (2 name g n e xs)
  then show ?case by (cases "n = name"; cases "n = p") (auto simp: package_rules_Cons assms(1))
qed

lemma declared_Cons:
  "declared sel env dir ((n, v) # xs) p = (if n = p then set (sel (read_scope env dir v)) else {}) \<union> declared sel env dir xs p"
  by (auto simp: declared_def)

lemma merged_scopes:
  assumes "\<And>a b. set (sel (extend_grants a b)) = set (sel a) \<union> set (sel b)" and "sel no_grants = []"
    and "p \<noteq> ROOT_SCOPE"
  shows "package_rules sel (scoped (foldl (merge_scope env dir) m scopes)) p =
    package_rules sel (scoped m) p \<union> declared sel env dir scopes p"
proof (induction scopes arbitrary: m)
  case Nil
  show ?case by (simp add: declared_def)
next
  case (Cons x xs)
  obtain n v where x: "x = (n, v)" by fastforce
  have "package_rules sel (scoped (merge_scope env dir m (n, v))) p =
      package_rules sel (scoped m) p \<union> (if n = p then set (sel (read_scope env dir v)) else {})"
    using assms(3) package_rules_add_scope [OF assms(1,2)] by (auto simp: merge_scope_def Let_def)
  with Cons.IH show ?case by (auto simp: x declared_Cons)
qed

lemma merged_keys:
  "ROOT_SCOPE \<notin> fst ` set (scoped m) \<Longrightarrow> ROOT_SCOPE \<notin> fst ` set (scoped (foldl (merge_scope env dir) m scopes))"
proof (induction scopes arbitrary: m)
  case (Cons x xs)
  have "ROOT_SCOPE \<notin> fst ` set (scoped (merge_scope env dir m x))"
    using Cons.prems by (cases x) (auto simp: merge_scope_def Let_def add_scope_keys)
  with Cons.IH show ?case by simp
qed simp

lemma merged_app:
  "app (foldl (merge_scope env dir) m scopes) =
     foldl extend_grants (app m) (map (\<lambda>(n, v). read_scope env dir v) (filter (\<lambda>(n, v). n = ROOT_SCOPE) scopes))"
  by (induction scopes arbitrary: m) (auto simp: merge_scope_def Let_def)

lemma set_scope_denies_app:
  "set (scope_denies (foldl extend_grants e (map (\<lambda>(n, v). read_scope env dir v) (filter (\<lambda>(n, v). n = ROOT_SCOPE) scopes)))) =
     set (scope_denies e) \<union> declared scope_denies env dir scopes ROOT_SCOPE"
  by (induction scopes arbitrary: e) (auto simp: declared_def)

lemma read_manifest_scopes:
  "read_manifest_permissions env dir json =
     foldl (merge_scope env dir)
       (default_permissions\<lparr>no_prompt := manifest_flag json ''no-prompt'', no_delegate := manifest_flag json ''no-delegate'',
            manifest_insecure := manifest_flag json ''allow-insecure''\<rparr>) (declared_scopes json)"
  by (simp add: read_manifest_permissions_def declared_scopes_def Let_def split: option.split)

lemma read_manifest_app: "app (read_manifest_permissions env dir json) = declared_app env dir (declared_scopes json)"
  by (simp add: read_manifest_scopes merged_app declared_app_def default_permissions_def)

lemma read_manifest_keys: "ROOT_SCOPE \<notin> fst ` set (scoped (read_manifest_permissions env dir json))"
  unfolding read_manifest_scopes by (rule merged_keys) (simp add: default_permissions_def)

lemma read_manifest_denies:
  "p \<noteq> ROOT_SCOPE \<Longrightarrow> package_rules scope_denies (scoped (read_manifest_permissions env dir json)) p =
     declared scope_denies env dir (declared_scopes json) p"
  unfolding read_manifest_scopes by (subst merged_scopes) (simp_all add: default_permissions_def package_rules_def)

lemma read_manifest_allows:
  "p \<noteq> ROOT_SCOPE \<Longrightarrow> package_rules scope_allows (scoped (read_manifest_permissions env dir json)) p =
     declared scope_allows env dir (declared_scopes json) p"
  unfolding read_manifest_scopes by (subst merged_scopes) (simp_all add: default_permissions_def package_rules_def)

lemma manifest_verdict:
  assumes "\<not> cli_interactive f"
  shows "fst (check w cap (fst (build_permissions fs f (read_manifest_permissions env dir json) sc))) \<longleftrightarrow>
    (\<forall>p\<in>insert ROOT_SCOPE (set (deny_scopes (w_scope w))).
       \<not> hits w cap (declared scope_denies env dir (declared_scopes json) p)) \<and>
    (hits w cap (set (app_allows fs f (declared_app env dir (declared_scopes json)))) \<or>
     (package_scopes (w_scope w) \<noteq> [] \<and>
      (\<forall>p\<in>set (package_scopes (w_scope w)). p \<noteq> ROOT_SCOPE \<and>
         hits w cap (declared scope_allows env dir (declared_scopes json) p))))"
proof -
  let ?pkg = "read_manifest_permissions env dir json"
  have root: "package_rules sel (scoped ?pkg) ROOT_SCOPE = {}" for sel
    by (rule package_rules_absent) (rule read_manifest_keys)
  have d: "hits w cap (package_rules scope_denies (scoped ?pkg) p) \<longleftrightarrow>
      p \<noteq> ROOT_SCOPE \<and> hits w cap (declared scope_denies env dir (declared_scopes json) p)" for p
    by (cases "p = ROOT_SCOPE") (simp_all add: root read_manifest_denies hits_def)
  have g: "hits w cap (package_rules scope_allows (scoped ?pkg) p) \<longleftrightarrow>
      p \<noteq> ROOT_SCOPE \<and> hits w cap (declared scope_allows env dir (declared_scopes json) p)" for p
    by (cases "p = ROOT_SCOPE") (simp_all add: root read_manifest_allows hits_def)
  have "set (scope_denies (app ?pkg)) = declared scope_denies env dir (declared_scopes json) ROOT_SCOPE"
    by (simp add: read_manifest_app declared_app_def set_scope_denies_app)
  then show ?thesis
    using run_verdict [OF read_manifest_keys assms] by (auto simp: d g read_manifest_app)
qed


definition no_flags :: run_flags where
  "no_flags = \<lparr>cli_read = None, cli_write = None, cli_net = None, cli_env = None, cli_child_process = False,
     cli_ffi = None, cli_interactive = False\<rparr>"

definition demo_permissions :: "(string \<times> json) list \<Rightarrow> json" where
  "demo_permissions scopes = Object [(''3va'', Object [(''permissions'', Object scopes)])]"

definition demo_axios :: json where
  "demo_axios = demo_permissions [(''axios'', Object [(''allow-net'', Array [String ''api.example.com''])])]"


text \<open>
  Isolation of packages: two manifests that differ only in what they declare for
  one package give the same answer to every request in which that package has no part, neither on
  the stack, nor as the current scope, nor inherited by deferred code.
\<close>
theorem package_entries_stay_inside:
  assumes "filter (\<lambda>(n, v). n \<noteq> q) (declared_scopes json) = filter (\<lambda>(n, v). n \<noteq> q) (declared_scopes json')"
    and "q \<noteq> ROOT_SCOPE" and "q \<notin> set (deny_scopes (w_scope w))" and "\<not> cli_interactive f"
  shows "fst (check w cap (fst (build_permissions fs f (read_manifest_permissions env dir json) sc))) =
    fst (check w cap (fst (build_permissions fs f (read_manifest_permissions env dir json') sc)))"
proof -
  have drop: "declared sel env dir xs p = declared sel env dir (filter (\<lambda>(n, v). n \<noteq> q) xs) p" if "p \<noteq> q" for sel xs p
    using that by (auto simp: declared_def)
  have "filter (\<lambda>(n, v). n = ROOT_SCOPE) xs = filter (\<lambda>(n, v). n = ROOT_SCOPE) (filter (\<lambda>(n, v). n \<noteq> q) xs)"
    for xs :: "(string \<times> json) list"
    using assms(2) by (induction xs) auto
  then have "declared_app env dir (declared_scopes json) = declared_app env dir (declared_scopes json')"
    unfolding declared_app_def using assms(1) by metis
  moreover have "declared sel env dir (declared_scopes json) p = declared sel env dir (declared_scopes json') p"
    if "p \<in> insert ROOT_SCOPE (set (deny_scopes (w_scope w)))" for sel p
    using that assms(1,2,3) drop by (metis insertE)
  ultimately show ?thesis
    unfolding manifest_verdict [OF assms(4)] by (simp add: set_deny_scopes)
qed

section \<open>Variables in the manifest\<close>

text \<open>A text without \<open>${\<close> is kept, and one with a variable that is not set keeps its placeholder and
  is reported.\<close>

lemma expand_plain: "split_once_str ''${'' raw = None \<Longrightarrow> expand_env_vars_tracked env raw = (raw, [])"
  by (simp add: expand_env_vars_tracked.simps)

lemma expand_missing:
  "set (snd (expand_env_vars_tracked env raw)) \<inter> dom env = {}"
proof (induction env raw rule: expand_env_vars_tracked.induct)
  case (1 env raw)
  show ?case
  proof (cases "split_once_str ''${'' raw")
    case None
    then show ?thesis by (simp add: expand_env_vars_tracked.simps)
  next
    case (Some ba)
    obtain before after where ba: "ba = (before, after)" by fastforce
    show ?thesis
    proof (cases "split_once CHR ''}'' after")
      case None
      with Some ba show ?thesis by (subst expand_env_vars_tracked.simps) simp
    next
      case (Some nr)
      obtain name rest where nr: "nr = (name, rest)" by fastforce
      note found = \<open>split_once_str ''${'' raw = Some ba\<close> Some
      have ih: "set (snd (expand_env_vars_tracked env rest)) \<inter> dom env = {}"
        using 1 [OF found(1) ba [symmetric] found(2) nr [symmetric]] .
      show ?thesis
        using ih by (subst expand_env_vars_tracked.simps)
          (auto simp: found ba nr Let_def split: prod.splits option.splits)
    qed
  qed
qed

text \<open>An entry of the application that expands to the empty text is read as a flag without value:
  with \<open>API_HOST\<close> set but empty, the manifest that allows \<open>${API_HOST}\<close> alone opens every host.\<close>

lemma empty_variable_opens_network:
  "fst (check (demo_world [] []) (Network ''evil.example'') (fst (build_permissions \<lparr>cwd = None, canon = \<lambda>_. None\<rparr> no_flags
      (read_manifest_permissions [''API_HOST'' \<mapsto> []] ''/''
         (demo_permissions [(''.'', Object [(''allow-net'', Array [String ''${API_HOST}''])])])) init_scope_state)))"
  by code_simp

text \<open>A \<open>deny-*\<close> entry whose variable is not set covers nothing, so what it was to exclude stays
  allowed.\<close>

lemma undefined_variable_drops_deny:
  "fst (check (demo_world [] []) (Network ''evil.example'') (fst (build_permissions \<lparr>cwd = None, canon = \<lambda>_. None\<rparr> no_flags
      (read_manifest_permissions Map.empty ''/''
         (demo_permissions [(''.'', Object [(''allow-net'', Array [String ''*'']), (''deny-net'', Array [String ''${BLOCKED}''])])]))
      init_scope_state)))"
  by code_simp

end
