(* ===== verification/Workspace.thy ===== *)
theory Workspace
  imports Fs_Path Json "HOL-Library.AList" "HOL-Library.While_Combinator" "HOL-Library.Multiset"
begin

text \<open>
  Workspaces (monorepos): \<open>crates/pm/src/workspace_v2.rs\<close>, the graph of the packages of a workspace,
  its topological order, the packages affected by a change and the run of a script over all
  packages, and \<open>merged_deps\<close> of \<open>crates/pm/src/workspace.rs\<close>.

  A hash map is the list of its entries, in some order of iteration, with distinct keys; a hash set
  is a distinct list. The manifests of the packages (\<open>read\<close> and \<open>from_str\<close> together) and the
  outcome of \<open>npm run\<close> in a package are parameters. The tasks of a batch run concurrently and are
  awaited in their order, which is the only order their results can be seen in.
\<close>

section \<open>The dependency graph\<close>

record workspace_package =
  ws_name :: string
  ws_version :: string
  ws_path :: string
  all_deps :: "(string \<times> string) list"

definition dependency_sections :: "string list" where
  "dependency_sections = [''dependencies'', ''devDependencies'', ''peerDependencies'']"

definition object_fields :: "json \<Rightarrow> string \<Rightarrow> (string \<times> json) list" where
  "object_fields v section = (case as_object (json_index v section) of Some fs \<Rightarrow> fs | None \<Rightarrow> [])"

text \<open>\<open>WorkspacePackage::from_dir\<close> on the parsed manifest of a directory, and the directories of a
  pattern: \<open>dirs\<close> lists the subdirectories of a directory and \<open>is_dir\<close> tests for one.\<close>

definition file_name :: "path \<Rightarrow> string option" where
  "file_name p = (if p = [] then None else case last p of Normal n \<Rightarrow> Some n | _ \<Rightarrow> None)"

definition collect_all_deps :: "json \<Rightarrow> (string \<times> string) list" where
  "collect_all_deps val =
     fold (\<lambda>(k, v) deps.
        case as_str v of
          Some ver \<Rightarrow> if starts_with ver ''workspace:'' \<or> map_of deps k \<noteq> None then deps else deps @ [(k, ver)]
        | None \<Rightarrow> deps)
       (concat (map (object_fields val) dependency_sections)) []"

definition from_dir :: "string \<Rightarrow> json \<Rightarrow> workspace_package" where
  "from_dir dir val =
     \<lparr>ws_name = (case as_str (json_index val ''name'') of
        Some n \<Rightarrow> n
      | None \<Rightarrow> (case file_name (parse_path dir) of Some n \<Rightarrow> n | None \<Rightarrow> [])),
      ws_version = (case as_str (json_index val ''version'') of Some v \<Rightarrow> v | None \<Rightarrow> ''0.0.0''),
      ws_path = dir, all_deps = collect_all_deps val\<rparr>"

definition expand_pattern :: "(string \<Rightarrow> string list) \<Rightarrow> (string \<Rightarrow> bool) \<Rightarrow> string \<Rightarrow> string \<Rightarrow> string list" where
  "expand_pattern dirs is_dir root pattern =
     (if ends_with pattern ''/*'' \<or> pattern = ''*'' then
        dirs (if pattern = ''*'' then root else join_str root (trim_end_matches ''/*'' pattern))
      else (let path = join_str root pattern in if is_dir path then [path] else []))"

definition resolve_packages ::
  "(string \<Rightarrow> string list) \<Rightarrow> (string \<Rightarrow> bool) \<Rightarrow> (string \<Rightarrow> json option) \<Rightarrow> string list \<Rightarrow> string \<Rightarrow> workspace_package list" where
  "resolve_packages dirs is_dir manifest patterns root =
     concat (map (\<lambda>pattern. List.map_filter (\<lambda>dir. map_option (from_dir dir) (manifest dir))
       (expand_pattern dirs is_dir root pattern)) patterns)"

lemma collect_all_deps_distinct: "distinct (map fst (collect_all_deps val))"
proof -
  have keep: "distinct (map fst (fold (\<lambda>(k, v) deps.
        case as_str v of
          Some ver \<Rightarrow> if starts_with ver ''workspace:'' \<or> map_of deps k \<noteq> None then deps else deps @ [(k, ver)]
        | None \<Rightarrow> deps) xs deps))" if "distinct (map fst deps)" for xs deps
    using that by (induction xs arbitrary: deps) (auto simp: map_of_eq_None_iff split: option.splits)
  show ?thesis unfolding collect_all_deps_def by (rule keep) simp
qed

record workspace_graph =
  packages :: "(string \<times> workspace_package) list"
  edges :: "(string \<times> string list) list"

definition is_local_dep :: "string list \<Rightarrow> string \<times> json \<Rightarrow> bool" where
  "is_local_dep names = (\<lambda>(dep_name, ver).
     let ver_s = (case as_str ver of Some s \<Rightarrow> s | None \<Rightarrow> [])
     in (starts_with ver_s ''workspace:'' \<or> ver_s = ''*'') \<and> dep_name \<in> set names)"

definition local_deps :: "string list \<Rightarrow> json \<Rightarrow> string list" where
  "local_deps names val =
     fold (\<lambda>section deps. fold (\<lambda>f. List.insert (fst f)) (filter (is_local_dep names) (object_fields val section)) deps)
       dependency_sections []"

definition graph_build :: "(string \<Rightarrow> json) \<Rightarrow> workspace_package list \<Rightarrow> workspace_graph" where
  "graph_build manifest pkgs =
     (let names = map ws_name pkgs
      in foldl (\<lambda>g pkg. g\<lparr>edges := AList.update (ws_name pkg) (local_deps names (manifest (ws_path pkg))) (edges g),
                          packages := AList.update (ws_name pkg) pkg (packages g)\<rparr>)
           \<lparr>packages = [], edges = []\<rparr> pkgs)"

definition deps_of :: "workspace_graph \<Rightarrow> string \<Rightarrow> string list" where
  "deps_of g p = (case map_of (edges g) p of Some ds \<Rightarrow> ds | None \<Rightarrow> [])"

section \<open>Topological order\<close>

definition in_degrees :: "workspace_graph \<Rightarrow> (string \<times> nat) list" where
  "in_degrees g =
     fold (\<lambda>(pkg, deps) d. fold (\<lambda>_. AList.map_default pkg 1 Suc) deps d) (edges g)
       (map (\<lambda>(n, _). (n, 0)) (packages g))"

definition dependents :: "workspace_graph \<Rightarrow> (string \<times> string list) list" where
  "dependents g =
     fold (\<lambda>(pkg, deps) r. fold (\<lambda>dep. AList.map_default dep [pkg] (\<lambda>l. l @ [pkg])) deps r) (edges g) []"

definition dependents_of :: "workspace_graph \<Rightarrow> string \<Rightarrow> string list" where
  "dependents_of g p = (case map_of (dependents g) p of Some l \<Rightarrow> l | None \<Rightarrow> [])"

text \<open>The loop over the dependents of a package that is done; \<open>None\<close> is a panic (a missing counter,
  or one that would drop below zero).\<close>

fun release_dependents :: "string list \<Rightarrow> (string \<times> nat) list \<times> string list \<Rightarrow> ((string \<times> nat) list \<times> string list) option" where
  "release_dependents [] (d, q) = Some (d, q)"
| "release_dependents (x # xs) (d, q) =
     (case map_of d x of
        Some (Suc n) \<Rightarrow> release_dependents xs (AList.update x n d, if n = 0 then q @ [x] else q)
      | _ \<Rightarrow> None)"

definition pending :: "(string \<times> nat) list \<Rightarrow> nat" where
  "pending d = sum_list (map snd d)"

lemma pending_update:
  "map_of d x = Some (Suc n) \<Longrightarrow> Suc (pending (AList.update x n d)) = pending d"
  by (induction d) (auto simp: pending_def)

lemma release_pending:
  "release_dependents xs (d, q) = Some (d', q') \<Longrightarrow> pending d' + length q' \<le> pending d + length q"
proof (induction xs "(d, q)" arbitrary: d q rule: release_dependents.induct)
  case (2 x xs d q)
  then obtain n where n: "map_of d x = Some (Suc n)" by (auto split: option.splits nat.splits)
  then have "pending d' + length q' \<le> pending (AList.update x n d) + length (if n = 0 then q @ [x] else q)"
    using 2 by simp
  with pending_update [OF n] show ?case by (simp split: if_splits)
qed simp

function kahn :: "workspace_graph \<Rightarrow> (string \<times> nat) list \<Rightarrow> string list \<Rightarrow> string list \<Rightarrow> string list option" where
  "kahn g d [] order = Some order"
| "kahn g d (pkg # queue) order =
     (case release_dependents (sort (dependents_of g pkg)) (d, queue) of
        None \<Rightarrow> None
      | Some (d', queue') \<Rightarrow> kahn g d' queue' (order @ [pkg]))"
  by pat_completeness auto
termination
  by (relation "measure (\<lambda>(g, d, q, order). pending d + length q)") (auto dest!: release_pending)

definition topological_order :: "workspace_graph \<Rightarrow> (string + string list) option" where
  "topological_order g =
     (let d = in_degrees g;
          queue = sort (map fst (filter (\<lambda>(_, n). n = 0) d))
      in case kahn g d queue [] of
           None \<Rightarrow> None
         | Some order \<Rightarrow>
             Some (if length order \<noteq> length (packages g) then Inl ''Workspace has cyclic dependencies'' else Inr order))"

section \<open>Affected packages\<close>

definition directly_changed :: "workspace_graph \<Rightarrow> string list \<Rightarrow> string list" where
  "directly_changed g changed =
     map fst (filter (\<lambda>(_, pkg). list_ex (\<lambda>p. starts_with p (ws_path pkg)) changed) (packages g))"

fun mark :: "string list \<Rightarrow> string list \<times> string list \<Rightarrow> string list \<times> string list" where
  "mark [] (aff, q) = (aff, q)"
| "mark (x # xs) (aff, q) = mark xs (if x \<in> set aff then (aff, q) else (aff @ [x], q @ [x]))"

definition all_dependents :: "workspace_graph \<Rightarrow> string set" where
  "all_dependents g = (\<Union>l\<in>snd ` set (dependents g). set l)"

lemma finite_all_dependents [simp]: "finite (all_dependents g)"
  by (simp add: all_dependents_def)

lemma dependents_of_subset: "set (dependents_of g p) \<subseteq> all_dependents g"
proof (cases "map_of (dependents g) p")
  case (Some l)
  then have "l \<in> snd ` set (dependents g)" by (force dest: map_of_SomeD)
  with Some show ?thesis by (auto simp: dependents_of_def all_dependents_def)
qed (simp add: dependents_of_def)

lemma mark_set: "mark xs (aff, q) = (aff', q') \<Longrightarrow> set aff' = set aff \<union> set xs"
  by (induction xs "(aff, q)" arbitrary: aff q rule: mark.induct) (auto split: if_splits)

lemma mark_measure:
  assumes "mark xs (aff, q) = (aff', q')" and "set xs \<subseteq> U" and "finite U"
  shows "2 * card (U - set aff') + length q' \<le> 2 * card (U - set aff) + length q"
  using assms
proof (induction xs "(aff, q)" arbitrary: aff q rule: mark.induct)
  case (2 x xs aff q)
  show ?case
  proof (cases "x \<in> set aff")
    case False
    have "U - set aff = insert x (U - set (aff @ [x]))" using False 2(3) by auto
    then have "card (U - set aff) = card (insert x (U - set (aff @ [x])))" by (rule arg_cong)
    also have "\<dots> = Suc (card (U - set (aff @ [x])))" by (rule card_insert_disjoint) (use 2(4) in auto)
    finally have "card (U - set aff) = Suc (card (U - set (aff @ [x])))" .
    moreover have "2 * card (U - set aff') + length q' \<le> 2 * card (U - set (aff @ [x])) + length (q @ [x])"
      using 2 False by simp
    ultimately show ?thesis by simp
  qed (use 2 in simp)
qed simp

function propagate :: "workspace_graph \<Rightarrow> string list \<Rightarrow> string list \<Rightarrow> string list" where
  "propagate g aff [] = aff"
| "propagate g aff (pkg # queue) =
     (let (aff', queue') = mark (dependents_of g pkg) (aff, queue) in propagate g aff' queue')"
  by pat_completeness auto
termination
proof (relation "measure (\<lambda>(g, aff, q). 2 * card (all_dependents g - set aff) + length q)", simp, goal_cases)
  case (1 g aff pkg queue x aff' queue')
  then have "mark (dependents_of g pkg) (aff, queue) = (aff', queue')" by simp
  then show ?case using mark_measure [OF _ dependents_of_subset finite_all_dependents] by fastforce
qed

definition affected_packages :: "workspace_graph \<Rightarrow> string list \<Rightarrow> string list" where
  "affected_packages g changed = (let aff = directly_changed g changed in propagate g aff aff)"

section \<open>Well-formed graphs\<close>

definition names_of :: "workspace_graph \<Rightarrow> string set" where
  "names_of g = fst ` set (packages g)"

definition graph_wf :: "workspace_graph \<Rightarrow> bool" where
  "graph_wf g \<longleftrightarrow>
     distinct (map fst (packages g)) \<and> distinct (map fst (edges g)) \<and> fst ` set (edges g) = names_of g \<and>
     (\<forall>(p, ds)\<in>set (edges g). distinct ds \<and> set ds \<subseteq> names_of g)"

lemma fold_insert_fst:
  "set (fold (\<lambda>f. List.insert (fst f)) xs ds) = fst ` set xs \<union> set ds"
  "distinct ds \<Longrightarrow> distinct (fold (\<lambda>f. List.insert (fst f)) xs ds)"
  by (induction xs arbitrary: ds) auto

lemma local_deps_ok: "distinct (local_deps names v)" "set (local_deps names v) \<subseteq> set names"
  by (auto simp: local_deps_def dependency_sections_def fold_insert_fst is_local_dep_def Let_def split: prod.splits)

lemma build_fold:
  fixes names manifest
  defines "step \<equiv> \<lambda>g pkg. g\<lparr>edges := AList.update (ws_name pkg) (local_deps names (manifest (ws_path pkg))) (edges g),
      packages := AList.update (ws_name pkg) pkg (packages g)\<rparr>"
  shows "fst ` set (packages (foldl step g pkgs)) = fst ` set (packages g) \<union> ws_name ` set pkgs"
    and "fst ` set (edges (foldl step g pkgs)) = fst ` set (edges g) \<union> ws_name ` set pkgs"
    and "distinct (map fst (packages g)) \<Longrightarrow> distinct (map fst (packages (foldl step g pkgs)))"
    and "distinct (map fst (edges g)) \<Longrightarrow> distinct (map fst (edges (foldl step g pkgs)))"
    and "(\<forall>(p, ds)\<in>set (edges g). distinct ds \<and> set ds \<subseteq> set names) \<Longrightarrow>
      \<forall>(p, ds)\<in>set (edges (foldl step g pkgs)). distinct ds \<and> set ds \<subseteq> set names"
proof (induction pkgs arbitrary: g)
  case (Cons pkg pkgs)
  {
    case 1 show ?case using Cons.IH(1) [of "step g pkg"] by (simp add: step_def dom_update)
  next
    case 2 show ?case using Cons.IH(2) [of "step g pkg"] by (simp add: step_def dom_update)
  next
    case 3 then show ?case using Cons.IH(3) [of "step g pkg"] by (simp add: step_def distinct_update)
  next
    case 4 then show ?case using Cons.IH(4) [of "step g pkg"] by (simp add: step_def distinct_update)
  next
    case 5
    have "set (AList.update k v xs) \<subseteq> insert (k, v) (set xs)" for k v and xs :: "(string \<times> string list) list"
      by (induction xs) auto
    then have "\<forall>(p, ds)\<in>set (edges (step g pkg)). distinct ds \<and> set ds \<subseteq> set names"
      using 5 local_deps_ok by (fastforce simp: step_def)
    then show ?case using Cons.IH(5) [of "step g pkg"] by simp
  }
qed auto

lemma names_build: "names_of (graph_build manifest pkgs) = ws_name ` set pkgs"
  by (simp add: names_of_def graph_build_def Let_def build_fold(1))

lemma build_graph_wf: "graph_wf (graph_build manifest pkgs)"
  unfolding graph_wf_def names_build
  using build_fold(3,4) [of "\<lparr>packages = [], edges = []\<rparr>"] build_fold(2) [where g = "\<lparr>packages = [], edges = []\<rparr>"]
    build_fold(5) [where g = "\<lparr>packages = [], edges = []\<rparr>" and names = "map ws_name pkgs"]
  by (simp add: graph_build_def Let_def)


lemma deps_of_wf:
  assumes "graph_wf g"
  shows "distinct (deps_of g p)" "set (deps_of g p) \<subseteq> names_of g"
  using assms by (auto simp: deps_of_def graph_wf_def split: option.split dest!: map_of_SomeD)

lemma edges_deps_of: "graph_wf g \<Longrightarrow> (p, ds) \<in> set (edges g) \<Longrightarrow> deps_of g p = ds"
  by (simp add: deps_of_def graph_wf_def)

lemma map_of_count:
  "map_of (fold (\<lambda>_. AList.map_default p (Suc 0) Suc) ds d) v =
     (if v = p \<and> ds \<noteq> [] then Some (length ds + (case map_of d p of Some n \<Rightarrow> n | None \<Rightarrow> 0)) else map_of d v)"
  by (induction ds arbitrary: d) (auto simp: map_of_map_default split: option.splits)

lemma map_of_counts:
  "distinct (map fst es) \<Longrightarrow>
   map_of (fold (\<lambda>(pkg, deps) d. fold (\<lambda>_. AList.map_default pkg (Suc 0) Suc) deps d) es d) v =
     (case map_of es v of
        Some ds \<Rightarrow> if ds = [] then map_of d v else Some (length ds + (case map_of d v of Some n \<Rightarrow> n | None \<Rightarrow> 0))
      | None \<Rightarrow> map_of d v)"
proof (induction es arbitrary: d)
  case (Cons e es)
  obtain p ds where e: "e = (p, ds)" by fastforce
  have "map_of es p = None" using Cons.prems e by (simp add: map_of_eq_None_iff)
  with Cons e show ?case by (auto simp: map_of_count split: option.splits)
qed simp

lemma in_degrees_wf:
  assumes "graph_wf g"
  shows "map_of (in_degrees g) v = (if v \<in> names_of g then Some (length (deps_of g v)) else None)"
proof -
  have zero: "map_of (map (\<lambda>(n, _). (n, 0)) xs) v = (if v \<in> fst ` set xs then Some (0::nat) else None)"
    for xs :: "(string \<times> workspace_package) list"
    by (induction xs) auto
  have "v \<in> names_of g \<longleftrightarrow> map_of (edges g) v \<noteq> None"
    using assms by (simp add: graph_wf_def map_of_eq_None_iff)
  with assms show ?thesis
    by (auto simp: in_degrees_def map_of_counts graph_wf_def deps_of_def zero names_of_def split: option.splits)
qed

definition rev_lookup :: "(string \<times> string list) list \<Rightarrow> string \<Rightarrow> string list" where
  "rev_lookup r v = (case map_of r v of Some l \<Rightarrow> l | None \<Rightarrow> [])"

lemma rev_lookup_push:
  "distinct ds \<Longrightarrow> rev_lookup (fold (\<lambda>dep. AList.map_default dep [p] (\<lambda>l. l @ [p])) ds r) v =
     rev_lookup r v @ (if v \<in> set ds then [p] else [])"
proof (induction ds arbitrary: r)
  case (Cons x ds)
  have "rev_lookup (AList.map_default x [p] (\<lambda>l. l @ [p]) r) v = rev_lookup r v @ (if v = x then [p] else [])"
    by (simp add: rev_lookup_def map_of_map_default split: option.split)
  with Cons show ?case by (auto simp: Cons.IH)
qed simp

lemma rev_lookup_dependents:
  "(\<forall>(p, ds)\<in>set es. distinct ds) \<Longrightarrow>
   rev_lookup (fold (\<lambda>(pkg, deps) r. fold (\<lambda>dep. AList.map_default dep [pkg] (\<lambda>l. l @ [pkg])) deps r) es r) v =
     rev_lookup r v @ map fst (filter (\<lambda>(p, ds). v \<in> set ds) es)"
  by (induction es arbitrary: r) (auto simp: rev_lookup_push split: prod.splits)

lemma dependents_of_wf:
  assumes "graph_wf g"
  shows "distinct (dependents_of g v)" "set (dependents_of g v) = {p. v \<in> set (deps_of g p)}"
proof -
  have "\<forall>(p, ds)\<in>set (edges g). distinct ds" using assms by (auto simp: graph_wf_def)
  then have d: "dependents_of g v = map fst (filter (\<lambda>(p, ds). v \<in> set ds) (edges g))"
    using rev_lookup_dependents [of "edges g" "[]" v] by (simp add: dependents_of_def dependents_def rev_lookup_def)
  have "distinct (map fst (edges g))" using assms by (simp add: graph_wf_def)
  then show "distinct (dependents_of g v)" unfolding d by (rule distinct_map_filter)
  have "p \<in> set (dependents_of g v) \<longleftrightarrow> v \<in> set (deps_of g p)" for p
  proof
    assume "p \<in> set (dependents_of g v)"
    then obtain ds where "(p, ds) \<in> set (edges g)" "v \<in> set ds" unfolding d by auto
    then show "v \<in> set (deps_of g p)" using edges_deps_of [OF assms] by metis
  next
    assume "v \<in> set (deps_of g p)"
    then obtain ds where "map_of (edges g) p = Some ds" "v \<in> set ds"
      by (cases "map_of (edges g) p") (auto simp: deps_of_def)
    then have "(p, ds) \<in> set (filter (\<lambda>(p, ds). v \<in> set ds) (edges g))" by (auto dest: map_of_SomeD)
    then show "p \<in> set (dependents_of g v)" unfolding d by force
  qed
  then show "set (dependents_of g v) = {p. v \<in> set (deps_of g p)}" by blast
qed

lemma release_dependents_all:
  assumes "distinct xs" and "\<forall>x\<in>set xs. \<exists>n. map_of d x = Some (Suc n)"
  shows "\<exists>d'. release_dependents xs (d, q) = Some (d', q @ filter (\<lambda>x. map_of d x = Some (Suc 0)) xs) \<and>
    (\<forall>v. map_of d' v = (if v \<in> set xs then map_option (\<lambda>n. n - 1) (map_of d v) else map_of d v))"
  using assms
proof (induction xs arbitrary: d q)
  case (Cons x xs)
  then obtain n where n: "map_of d x = Some (Suc n)" by auto
  let ?d = "AList.update x n d" and ?q = "if n = 0 then q @ [x] else q"
  have same: "map_of ?d y = map_of d y" if "y \<in> set xs" for y
    using that Cons.prems(1) by (auto simp: update_conv')
  have "\<forall>y\<in>set xs. \<exists>m. map_of ?d y = Some (Suc m)" using Cons.prems(2) same by simp
  then obtain d' where d': "release_dependents xs (?d, ?q) = Some (d', ?q @ filter (\<lambda>y. map_of ?d y = Some (Suc 0)) xs)"
    "\<forall>v. map_of d' v = (if v \<in> set xs then map_option (\<lambda>n. n - 1) (map_of ?d v) else map_of ?d v)"
    using Cons.IH [of ?d ?q] Cons.prems(1) by auto
  have "filter (\<lambda>y. map_of ?d y = Some (Suc 0)) xs = filter (\<lambda>y. map_of d y = Some (Suc 0)) xs"
    using same by (simp cong: filter_cong)
  then have "release_dependents (x # xs) (d, q) = Some (d', q @ filter (\<lambda>y. map_of d y = Some (Suc 0)) (x # xs))"
    using d'(1) n by simp
  moreover have "map_of d' v = (if v \<in> set (x # xs) then map_option (\<lambda>n. n - 1) (map_of d v) else map_of d v)" for v
    using d'(2) n Cons.prems(1) by (auto simp: update_conv')
  ultimately show ?case by blast
qed auto

text \<open>The invariant of the loop: the counter of a package is the number of its dependencies that are
  not in the order yet, and exactly the packages without such a dependency are in the order or in
  the queue.\<close>

definition topo_sorted :: "workspace_graph \<Rightarrow> string list \<Rightarrow> bool" where
  "topo_sorted g order \<longleftrightarrow> (\<forall>i < length order. set (deps_of g (order ! i)) \<subseteq> set (take i order))"

definition kahn_inv :: "workspace_graph \<Rightarrow> (string \<times> nat) list \<Rightarrow> string list \<Rightarrow> string list \<Rightarrow> bool" where
  "kahn_inv g d q order \<longleftrightarrow>
     distinct (order @ q) \<and> set (order @ q) \<subseteq> names_of g \<and> topo_sorted g order \<and>
     (\<forall>v\<in>names_of g. map_of d v = Some (card (set (deps_of g v) - set order))) \<and>
     (\<forall>v\<in>names_of g. v \<in> set (order @ q) \<longleftrightarrow> set (deps_of g v) \<subseteq> set order)"

lemma topo_sorted_snoc: "topo_sorted g (xs @ [x]) \<longleftrightarrow> topo_sorted g xs \<and> set (deps_of g x) \<subseteq> set xs"
  by (auto simp: topo_sorted_def nth_append less_Suc_eq)

lemma kahn_step:
  assumes "graph_wf g" and "kahn_inv g d (p # q) order"
  shows "\<exists>d' q'. release_dependents (sort (dependents_of g p)) (d, q) = Some (d', q') \<and> kahn_inv g d' q' (order @ [p])"
proof -
  let ?xs = "sort (dependents_of g p)" and ?V = "names_of g"
  note dep = dependents_of_wf [OF assms(1), of p]
  have dist: "distinct ?xs" and xs: "set ?xs = {v. p \<in> set (deps_of g v)}" using dep by simp_all
  have p: "p \<in> ?V" "p \<notin> set order" "p \<notin> set q" "set (deps_of g p) \<subseteq> set order"
    using assms(2) by (auto simp: kahn_inv_def)
  have deg: "map_of d v = Some (card (set (deps_of g v) - set order))" if "v \<in> ?V" for v
    using assms(2) that by (simp add: kahn_inv_def)
  have xsV: "set ?xs \<subseteq> ?V"
    using assms(1) unfolding xs by (force simp: deps_of_def graph_wf_def split: option.splits dest: map_of_SomeD)
  have card: "card (set (deps_of g v) - set order) = Suc (card (set (deps_of g v) - set (order @ [p])))"
    if "v \<in> set ?xs" for v
  proof -
    have "set (deps_of g v) - set order = insert p (set (deps_of g v) - set (order @ [p]))"
      using that p(2) unfolding xs by auto
    then show ?thesis by (metis DiffE List.finite_set card_insert_disjoint finite_Diff in_set_conv_decomp)
  qed
  have "\<forall>x\<in>set ?xs. \<exists>n. map_of d x = Some (Suc n)" using deg card xsV by (metis subsetD)
  then obtain d' where d': "release_dependents ?xs (d, q) = Some (d', q @ filter (\<lambda>x. map_of d x = Some (Suc 0)) ?xs)"
    "\<And>v. map_of d' v = (if v \<in> set ?xs then map_option (\<lambda>n. n - 1) (map_of d v) else map_of d v)"
    using release_dependents_all [OF dist] by blast
  let ?new = "filter (\<lambda>x. map_of d x = Some (Suc 0)) ?xs"
  have deg': "map_of d' v = Some (card (set (deps_of g v) - set (order @ [p])))" if "v \<in> ?V" for v
  proof (cases "v \<in> set ?xs")
    case False
    then have "set (deps_of g v) - set (order @ [p]) = set (deps_of g v) - set order" unfolding xs by auto
    with False show ?thesis using d'(2) deg that by simp
  qed (use d'(2) deg card that in simp)
  have new: "set ?new = {v \<in> set ?xs. set (deps_of g v) \<subseteq> set (order @ [p])}"
  proof -
    have "map_of d v = Some (Suc 0) \<longleftrightarrow> set (deps_of g v) \<subseteq> set (order @ [p])" if "v \<in> set ?xs" for v
    proof -
      have "v \<in> ?V" using xsV that by blast
      then show ?thesis by (simp add: deg card [OF that])
    qed
    then show ?thesis by auto
  qed
  have old: "v \<in> set (order @ p # q) \<longleftrightarrow> set (deps_of g v) \<subseteq> set order" if "v \<in> ?V" for v
    using assms(2) that by (simp add: kahn_inv_def)
  have apart: "set ?new \<inter> set (order @ p # q) = {}"
    using old p(2) xsV unfolding new xs by (auto simp: subset_iff)
  have "kahn_inv g d' (q @ ?new) (order @ [p])"
    unfolding kahn_inv_def
  proof (intro conjI ballI)
    show "distinct ((order @ [p]) @ q @ ?new)" using assms(2) apart dist by (auto simp: kahn_inv_def)
    show "set ((order @ [p]) @ q @ ?new) \<subseteq> ?V" using assms(2) xsV by (auto simp: kahn_inv_def)
    show "topo_sorted g (order @ [p])" using assms(2) p(4) by (simp add: topo_sorted_snoc kahn_inv_def)
    show "map_of d' v = Some (card (set (deps_of g v) - set (order @ [p])))" if "v \<in> ?V" for v using deg' that .
    show "v \<in> set ((order @ [p]) @ q @ ?new) \<longleftrightarrow> set (deps_of g v) \<subseteq> set (order @ [p])" if v: "v \<in> ?V" for v
    proof (cases "p \<in> set (deps_of g v)")
      case True
      then have "v \<notin> set (order @ p # q)" using old [OF v] p(2) by blast
      with True show ?thesis unfolding set_append new xs by auto
    next
      case False
      then have "set (deps_of g v) \<subseteq> set (order @ [p]) \<longleftrightarrow> set (deps_of g v) \<subseteq> set order" by auto
      with False show ?thesis using old [OF v] unfolding set_append new xs by auto
    qed
  qed
  with d'(1) show ?thesis by blast
qed

lemma kahn_total:
  "graph_wf g \<Longrightarrow> kahn_inv g d q order \<Longrightarrow> \<exists>d' order'. kahn g d q order = Some order' \<and> kahn_inv g d' [] order'"
proof (induction g d q order rule: kahn.induct)
  case (2 g d p q order)
  from kahn_step [OF 2(2,3)] obtain d' q' where
    s: "release_dependents (sort (dependents_of g p)) (d, q) = Some (d', q')" "kahn_inv g d' q' (order @ [p])" by blast
  from 2(1) [OF s(1) refl 2(2) s(2)] s(1) show ?case by simp
qed auto

definition dep_rel :: "workspace_graph \<Rightarrow> (string \<times> string) set" where
  "dep_rel g = {(d, p). d \<in> set (deps_of g p)}"

lemma dep_rel_fields:
  assumes "graph_wf g"
  shows "dep_rel g \<subseteq> names_of g \<times> names_of g"
proof -
  have "p \<in> names_of g" if "d \<in> set (deps_of g p)" for d p
    using assms that by (cases "map_of (edges g) p") (force simp: deps_of_def graph_wf_def dest: map_of_SomeD)+
  then show ?thesis using deps_of_wf(2) [OF assms] by (auto simp: dep_rel_def)
qed

lemma finite_dep_rel: "graph_wf g \<Longrightarrow> finite (dep_rel g)"
  by (rule finite_subset [OF dep_rel_fields]) (simp_all add: names_of_def)

lemma topo_sorted_acyclic:
  assumes "graph_wf g" and "distinct order" and "set order = names_of g" and "topo_sorted g order"
  shows "acyclic (dep_rel g)"
proof -
  define idx where "idx v = (THE i. i < length order \<and> order ! i = v)" for v
  have idx: "idx (order ! i) = i" if "i < length order" for i
    unfolding idx_def using assms(2) that by (auto simp: nth_eq_iff_index_eq)
  have "dep_rel g \<subseteq> measure idx"
  proof clarify
    fix d p
    assume e: "(d, p) \<in> dep_rel g"
    then obtain j where j: "j < length order" "p = order ! j"
      using dep_rel_fields [OF assms(1)] assms(3) by (metis SigmaE2 in_set_conv_nth subsetD)
    with e assms(4) have "d \<in> set (take j order)" by (auto simp: dep_rel_def topo_sorted_def)
    then obtain i where "i < j" "d = order ! i" by (auto simp: in_set_conv_nth)
    with j idx show "(d, p) \<in> measure idx" by simp
  qed
  then show ?thesis by (meson acyclic_subset wf_acyclic wf_measure)
qed

lemma stuck_is_cyclic:
  assumes "graph_wf g" and "acyclic (dep_rel g)" and "R \<subseteq> names_of g" and "R \<noteq> {}"
  shows "\<exists>v\<in>R. set (deps_of g v) \<inter> R = {}"
proof -
  have "wf (dep_rel g)" using finite_dep_rel [OF assms(1)] assms(2) by (rule finite_acyclic_wf)
  with assms(4) obtain v where "v \<in> R" "\<And>d. (d, v) \<in> dep_rel g \<Longrightarrow> d \<notin> R"
    by (metis ex_in_conv wfE_min)
  then show ?thesis by (auto simp: dep_rel_def)
qed

lemma distinct_in_degrees:
  assumes "graph_wf g"
  shows "distinct (map fst (in_degrees g))"
proof -
  have inner: "distinct (map fst (fold (\<lambda>_. AList.map_default p 1 Suc) ds d))"
    if "distinct (map fst d)" for p :: string and ds :: "string list" and d
    using that by (induction ds arbitrary: d) (simp_all add: distinct_map_default)
  have outer: "distinct (map fst (fold (\<lambda>(pkg, deps) d. fold (\<lambda>_. AList.map_default pkg 1 Suc) deps d) es d))"
    if "distinct (map fst d)" for es :: "(string \<times> string list) list" and d
    using that by (induction es arbitrary: d) (auto simp del: One_nat_def simp: inner)
  have "map fst (map (\<lambda>(n, _). (n, 0::nat)) (packages g)) = map fst (packages g)" by (simp add: case_prod_unfold)
  then have "distinct (map fst (map (\<lambda>(n, _). (n, 0::nat)) (packages g)))"
    using assms by (simp only: graph_wf_def)
  then show ?thesis unfolding in_degrees_def by (rule outer)
qed

lemma kahn_init:
  assumes "graph_wf g"
  shows "kahn_inv g (in_degrees g) (sort (map fst (filter (\<lambda>(_, n). n = 0) (in_degrees g)))) []"
proof -
  let ?q = "sort (map fst (filter (\<lambda>(_, n). n = 0) (in_degrees g)))"
  note dist = distinct_in_degrees [OF assms]
  have "distinct ?q" using dist by (simp add: distinct_map_filter)
  moreover have "v \<in> set ?q \<longleftrightarrow> v \<in> names_of g \<and> deps_of g v = []" for v
  proof -
    have "v \<in> set ?q \<longleftrightarrow> (v, 0) \<in> set (in_degrees g)" by force
    also have "\<dots> \<longleftrightarrow> map_of (in_degrees g) v = Some 0" using dist by simp
    finally show ?thesis by (simp add: in_degrees_wf [OF assms])
  qed
  moreover have "card (set (deps_of g v)) = length (deps_of g v)" for v
    using deps_of_wf(1) [OF assms] by (rule distinct_card)
  ultimately show ?thesis
    by (auto simp: kahn_inv_def topo_sorted_def in_degrees_wf [OF assms])
qed

lemma topological_order_wf:
  assumes "graph_wf g"
  shows "case topological_order g of
    Some (Inr order) \<Rightarrow> acyclic (dep_rel g) \<and> distinct order \<and> set order = names_of g \<and> topo_sorted g order
  | Some (Inl e) \<Rightarrow> \<not> acyclic (dep_rel g)
  | None \<Rightarrow> False"
proof -
  obtain d order where k: "kahn g (in_degrees g) (sort (map fst (filter (\<lambda>(_, n). n = 0) (in_degrees g)))) [] = Some order"
    "kahn_inv g d [] order" using kahn_total [OF assms kahn_init [OF assms]] by blast
  then have o: "distinct order" "set order \<subseteq> names_of g" "topo_sorted g order"
    and closed: "\<And>v. v \<in> names_of g \<Longrightarrow> set (deps_of g v) \<subseteq> set order \<Longrightarrow> v \<in> set order"
    by (auto simp: kahn_inv_def)
  have n: "card (names_of g) = length (packages g)"
    using assms distinct_card [of "map fst (packages g)"] by (simp add: graph_wf_def names_of_def)
  have len: "length order = length (packages g) \<longleftrightarrow> set order = names_of g"
    using o(1,2) n distinct_card [OF o(1)] by (metis List.finite_set card_subset_eq finite_imageI names_of_def)
  show ?thesis
  proof (cases "length order = length (packages g)")
    case True
    with len have "set order = names_of g" by simp
    with o topo_sorted_acyclic [OF assms] True show ?thesis by (simp add: topological_order_def k(1) Let_def)
  next
    case False
    have "\<not> acyclic (dep_rel g)"
    proof
      assume "acyclic (dep_rel g)"
      moreover have "names_of g - set order \<noteq> {}" using False len o(2) by blast
      ultimately obtain v where "v \<in> names_of g - set order" "set (deps_of g v) \<inter> (names_of g - set order) = {}"
        using stuck_is_cyclic [OF assms, of "names_of g - set order"] by blast
      with closed deps_of_wf(2) [OF assms, of v] show False by blast
    qed
    with False show ?thesis by (simp add: topological_order_def k(1) Let_def)
  qed
qed

text \<open>
  Claim C33 (functional). \<open>topological_order\<close> is correct on every workspace: it never panics on a
  counter; when the dependencies are acyclic it lists every package exactly once, each after all
  the packages it depends on; and it reports a cycle exactly when there is one.
\<close>
theorem topological_order_correct:
  "case topological_order (graph_build manifest pkgs) of
     Some (Inr order) \<Rightarrow>
       acyclic (dep_rel (graph_build manifest pkgs)) \<and> distinct order \<and> set order = ws_name ` set pkgs \<and>
       topo_sorted (graph_build manifest pkgs) order
   | Some (Inl e) \<Rightarrow> \<not> acyclic (dep_rel (graph_build manifest pkgs))
   | None \<Rightarrow> False"
  using topological_order_wf [OF build_graph_wf, of manifest pkgs] unfolding names_build .

section \<open>What a change affects\<close>

lemma mark_queue: "mark xs (aff, q) = (aff', q') \<Longrightarrow> set q' = set q \<union> (set xs - set aff)"
  by (induction xs "(aff, q)" arbitrary: aff q rule: mark.induct) (auto split: if_splits)

lemma propagate_set:
  assumes "graph_wf g" and "set q \<subseteq> set aff" and "\<forall>p\<in>set aff - set q. set (dependents_of g p) \<subseteq> set aff"
  shows "set (propagate g aff q) = (dep_rel g)\<^sup>* `` set aff"
  using assms
proof (induction g aff q rule: propagate.induct)
  case (1 g aff)
  have "dep_rel g `` set aff \<subseteq> set aff"
    using 1(3) dependents_of_wf(2) [OF 1(1)] by (auto simp: dep_rel_def)
  then have "(dep_rel g)\<^sup>* `` set aff = set aff" by (rule Image_closed_trancl)
  then show ?case by simp
next
  case (2 g aff p q)
  obtain aff' q' where m: "mark (dependents_of g p) (aff, q) = (aff', q')" by fastforce
  have a: "set aff' = set aff \<union> set (dependents_of g p)" and q: "set q' = set q \<union> (set (dependents_of g p) - set aff)"
    using mark_set [OF m] mark_queue [OF m] by auto
  have "set q' \<subseteq> set aff'" using a q 2(3) by auto
  moreover have "\<forall>x\<in>set aff' - set q'. set (dependents_of g x) \<subseteq> set aff'"
  proof
    fix x
    assume "x \<in> set aff' - set q'"
    then have "x = p \<or> x \<in> set aff - set (p # q)" using a q by auto
    then show "set (dependents_of g x) \<subseteq> set aff'" using 2(4) a by blast
  qed
  ultimately have "set (propagate g aff' q') = (dep_rel g)\<^sup>* `` set aff'"
    using 2(1) [OF m [symmetric] refl 2(2)] by simp
  moreover have "set (dependents_of g p) \<subseteq> (dep_rel g)\<^sup>* `` set aff"
    using dependents_of_wf(2) [OF 2(2), of p] 2(3) by (auto simp: dep_rel_def)
  then have "(dep_rel g)\<^sup>* `` set aff' = (dep_rel g)\<^sup>* `` set aff"
    unfolding a by (auto intro: rtrancl_trans)
  ultimately show ?case using m by simp
qed

text \<open>
  \<open>affected_packages\<close> computes a reachability closure: a package is affected
  exactly when a directly changed package is reached from it along any number of dependencies.
\<close>
theorem affected_is_reachability:
  "set (affected_packages (graph_build manifest pkgs) changed) =
     (dep_rel (graph_build manifest pkgs))\<^sup>* `` set (directly_changed (graph_build manifest pkgs) changed)"
  using propagate_set [OF build_graph_wf, of "directly_changed (graph_build manifest pkgs) changed"]
  by (simp add: affected_packages_def Let_def)

text \<open>The test whether a file belongs to a package compares text: the directory of one package can be
  the beginning of the name of another.\<close>

lemma neighbour_counts_as_changed:
  "directly_changed (graph_build (\<lambda>_. Null)
     [\<lparr>ws_name = ''app'', ws_version = [], ws_path = ''/repo/app'', all_deps = []\<rparr>,
      \<lparr>ws_name = ''app-docs'', ws_version = [], ws_path = ''/repo/app-docs'', all_deps = []\<rparr>])
     [''/repo/app-docs/index.md''] = [''app'', ''app-docs'']"
  by code_simp

text \<open>A dependency on a member by a plain range is linked to the local package by
  \<open>create_workspace_symlinks\<close>, but it is no edge of the graph.\<close>

lemma ranged_member_is_no_edge:
  "local_deps [''app'', ''lib''] (Object [(''dependencies'', Object [(''lib'', String ''^1.0.0'')])]) = []"
  by code_simp

end
