(* ===== verification/Workspace_Run.thy ===== *)
theory Workspace_Run
  imports Workspace
begin

text \<open>
  The run of a script over the packages of a workspace, \<open>run_workspace_script\<close> of
  \<open>crates/pm/src/workspace_v2.rs\<close>, and the versions that a workspace installs, \<open>merged_deps\<close> of
  \<open>crates/pm/src/workspace.rs\<close>.
\<close>

section \<open>The run\<close>

datatype run_status = Success | Failed string | Skipped

record run_state =
  remaining :: "string list"
  completed :: "string list"
  results :: "(string \<times> run_status) list"

definition finish :: "string \<Rightarrow> run_status \<Rightarrow> run_state \<Rightarrow> run_state" where
  "finish p status s =
     s\<lparr>completed := p # completed s, results := results s @ [(p, status)], remaining := filter (\<lambda>n. n \<noteq> p) (remaining s)\<rparr>"

definition ready :: "workspace_graph \<Rightarrow> run_state \<Rightarrow> string list" where
  "ready g s = filter (\<lambda>p. list_all (\<lambda>d. d \<in> set (completed s)) (deps_of g p)) (remaining s)"

definition batch :: "workspace_graph \<Rightarrow> nat \<Rightarrow> run_state \<Rightarrow> string list" where
  "batch g parallelism s = take (max 1 parallelism) (ready g s)"

text \<open>What is known of the packages: the affected set, if only that is to run; whether a directory's
  manifest has the script; and what \<open>npm run\<close> answers (\<open>None\<close> for success).\<close>

record run_env =
  affected_only :: "string list option"
  has_script :: "string \<Rightarrow> bool"
  outcome :: "string \<Rightarrow> string option"

definition is_skipped :: "run_env \<Rightarrow> workspace_package \<Rightarrow> string \<Rightarrow> bool" where
  "is_skipped e pkg p \<longleftrightarrow>
     (case affected_only e of Some aff \<Rightarrow> p \<notin> set aff | None \<Rightarrow> False) \<or> \<not> has_script e (ws_path pkg)"

text \<open>The first pass over a batch: skipped packages are done at once, the others become tasks.\<close>

fun launch :: "workspace_graph \<Rightarrow> run_env \<Rightarrow> string list \<Rightarrow> run_state \<Rightarrow> run_state \<times> string list" where
  "launch g e [] s = (s, [])"
| "launch g e (p # ps) s =
     (case map_of (packages g) p of
        None \<Rightarrow>
          (case affected_only e of
             Some aff \<Rightarrow> launch g e ps (if p \<in> set aff then s else finish p Skipped s)
           | None \<Rightarrow> launch g e ps s)
      | Some pkg \<Rightarrow>
          if is_skipped e pkg p then launch g e ps (finish p Skipped s)
          else (let (s', tasks) = launch g e ps s in (s', p # tasks)))"

definition status_of :: "run_env \<Rightarrow> string \<Rightarrow> run_status" where
  "status_of e p = (case outcome e p of None \<Rightarrow> Success | Some msg \<Rightarrow> Failed msg)"

definition is_failed :: "run_status \<Rightarrow> bool" where
  "is_failed status = (case status of Failed _ \<Rightarrow> True | _ \<Rightarrow> False)"

definition await :: "workspace_graph \<Rightarrow> run_env \<Rightarrow> string \<Rightarrow> run_state \<Rightarrow> run_state" where
  "await g e p s =
     (let s1 = finish p (status_of e p) s
      in if is_failed (status_of e p)
         then fold (\<lambda>n. finish n Skipped) (filter (\<lambda>n. p \<in> set (deps_of g n)) (remaining s1)) s1
         else s1)"

definition run_batch :: "workspace_graph \<Rightarrow> run_env \<Rightarrow> nat \<Rightarrow> run_state \<Rightarrow> run_state" where
  "run_batch g e parallelism s =
     (let (s1, tasks) = launch g e (batch g parallelism s) s in fold (await g e) tasks s1)"

definition run_packages :: "workspace_graph \<Rightarrow> run_env \<Rightarrow> nat \<Rightarrow> run_state \<Rightarrow> run_state option" where
  "run_packages g e parallelism =
     while_option (\<lambda>s. remaining s \<noteq> [] \<and> batch g parallelism s \<noteq> []) (run_batch g e parallelism)"

text \<open>\<open>None\<close> is a loop that never ends; the inner result is the error of the topological order.\<close>

definition run_workspace_script ::
  "workspace_graph \<Rightarrow> run_env \<Rightarrow> nat \<Rightarrow> (string + (string \<times> run_status) list) option" where
  "run_workspace_script g e parallelism =
     (case topological_order g of
        None \<Rightarrow> None
      | Some (Inl err) \<Rightarrow> Some (Inl err)
      | Some (Inr order) \<Rightarrow>
          map_option (\<lambda>s. Inr (results s))
            (run_packages g e parallelism \<lparr>remaining = order, completed = [], results = []\<rparr>))"

section \<open>Its invariant\<close>

text \<open>A script that ran, ran after all the packages it depends on, none of which had failed.\<close>

definition run_order_ok :: "workspace_graph \<Rightarrow> (string \<times> run_status) list \<Rightarrow> bool" where
  "run_order_ok g rs \<longleftrightarrow>
     (\<forall>i < length rs. snd (rs ! i) \<noteq> Skipped \<longrightarrow>
        (\<forall>d\<in>set (deps_of g (fst (rs ! i))). \<exists>st. (d, st) \<in> set (take i rs) \<and> \<not> is_failed st))"

lemma run_order_snoc:
  "run_order_ok g (rs @ [(p, status)]) \<longleftrightarrow>
     run_order_ok g rs \<and>
     (status \<noteq> Skipped \<longrightarrow> (\<forall>d\<in>set (deps_of g p). \<exists>st. (d, st) \<in> set rs \<and> \<not> is_failed st))"
  by (auto simp: run_order_ok_def nth_append less_Suc_eq)

definition books_ok :: "workspace_graph \<Rightarrow> run_state \<Rightarrow> bool" where
  "books_ok g s \<longleftrightarrow>
     distinct (remaining s) \<and> distinct (map fst (results s)) \<and>
     set (remaining s) \<inter> fst ` set (results s) = {} \<and>
     set (remaining s) \<union> fst ` set (results s) = names_of g \<and>
     set (completed s) = fst ` set (results s) \<and> run_order_ok g (results s)"

definition failures_contained :: "workspace_graph \<Rightarrow> run_state \<Rightarrow> bool" where
  "failures_contained g s \<longleftrightarrow>
     (\<forall>(p, st)\<in>set (results s). is_failed st \<longrightarrow> (\<forall>q\<in>set (remaining s). p \<notin> set (deps_of g q)))"

definition run_inv :: "workspace_graph \<Rightarrow> run_state \<Rightarrow> bool" where
  "run_inv g s \<longleftrightarrow> books_ok g s \<and> failures_contained g s"

definition runnable :: "workspace_graph \<Rightarrow> run_state \<Rightarrow> string \<Rightarrow> bool" where
  "runnable g s p \<longleftrightarrow> p \<in> set (remaining s) \<and> set (deps_of g p) \<subseteq> set (completed s)"

lemma finish_simps [simp]:
  "remaining (finish p st s) = filter (\<lambda>n. n \<noteq> p) (remaining s)"
  "set (completed (finish p st s)) = insert p (set (completed s))"
  "results (finish p st s) = results s @ [(p, st)]"
  by (simp_all add: finish_def)

lemma runnable_deps:
  assumes "run_inv g s" and "runnable g s p" and "d \<in> set (deps_of g p)"
  shows "\<exists>st. (d, st) \<in> set (results s) \<and> \<not> is_failed st"
proof -
  have "d \<in> fst ` set (results s)" using assms by (auto simp: run_inv_def books_ok_def runnable_def)
  then obtain st where "(d, st) \<in> set (results s)" by auto
  with assms show ?thesis by (fastforce simp: run_inv_def failures_contained_def runnable_def)
qed

lemma books_finish:
  assumes "books_ok g s" and "p \<in> set (remaining s)"
    and "st \<noteq> Skipped \<longrightarrow> (\<forall>d\<in>set (deps_of g p). \<exists>st. (d, st) \<in> set (results s) \<and> \<not> is_failed st)"
  shows "books_ok g (finish p st s)"
  using assms by (auto simp: books_ok_def run_order_snoc)

lemma finish_inv:
  assumes "run_inv g s" and "p \<in> set (remaining s)" and "\<not> is_failed st" and "st \<noteq> Skipped \<longrightarrow> runnable g s p"
  shows "run_inv g (finish p st s)"
proof -
  have "st \<noteq> Skipped \<longrightarrow> (\<forall>d\<in>set (deps_of g p). \<exists>st. (d, st) \<in> set (results s) \<and> \<not> is_failed st)"
    using runnable_deps [OF assms(1)] assms(4) by blast
  then have "books_ok g (finish p st s)" using assms(1,2) by (intro books_finish) (simp_all add: run_inv_def)
  moreover have "failures_contained g (finish p st s)"
    using assms(1,3) by (auto simp: run_inv_def failures_contained_def)
  ultimately show ?thesis by (simp add: run_inv_def)
qed

lemma skip_all:
  assumes "books_ok g s" and "distinct ns" and "set ns \<subseteq> set (remaining s)"
  shows "books_ok g (fold (\<lambda>n. finish n Skipped) ns s) \<and>
    remaining (fold (\<lambda>n. finish n Skipped) ns s) = filter (\<lambda>n. n \<notin> set ns) (remaining s) \<and>
    set (completed (fold (\<lambda>n. finish n Skipped) ns s)) = set ns \<union> set (completed s) \<and>
    set (results (fold (\<lambda>n. finish n Skipped) ns s)) = set (results s) \<union> (\<lambda>n. (n, Skipped)) ` set ns"
  using assms
proof (induction ns arbitrary: s)
  case (Cons n ns)
  have b: "books_ok g (finish n Skipped s)" using Cons.prems by (intro books_finish) auto
  have "set ns \<subseteq> set (remaining (finish n Skipped s))" using Cons.prems by auto
  from Cons.IH [OF b _ this] Cons.prems(2) show ?case
    by (auto intro: filter_cong)
qed simp

lemma await_inv:
  assumes "run_inv g s" and "runnable g s p"
  shows "run_inv g (await g e p s) \<and> length (remaining (await g e p s)) < length (remaining s) \<and>
    (\<forall>q. q \<noteq> p \<longrightarrow> runnable g s q \<longrightarrow> runnable g (await g e p s) q)"
proof -
  let ?s = "finish p (status_of e p) s"
  have p: "p \<in> set (remaining s)" using assms(2) by (simp add: runnable_def)
  have fresh: "p \<notin> set (completed s)" using assms(1) p by (auto simp: run_inv_def books_ok_def)
  have less: "length (filter (\<lambda>n. n \<noteq> p) (remaining s)) < length (remaining s)" using p by (rule length_filter_less) simp
  have keep: "p \<notin> set (deps_of g q)" if "runnable g s q" for q using that fresh by (auto simp: runnable_def)
  show ?thesis
  proof (cases "is_failed (status_of e p)")
    case False
    have "run_inv g ?s" using finish_inv [OF assms(1) p False] assms(2) by blast
    with False less keep show ?thesis by (auto simp: await_def Let_def runnable_def)
  next
    case True
    let ?ns = "filter (\<lambda>n. p \<in> set (deps_of g n)) (remaining ?s)"
    have a: "await g e p s = fold (\<lambda>n. finish n Skipped) ?ns ?s" using True by (simp add: await_def Let_def)
    have "books_ok g ?s" using assms runnable_deps [OF assms] p by (intro books_finish) (auto simp: run_inv_def)
    moreover have "distinct ?ns" "set ?ns \<subseteq> set (remaining ?s)"
      using assms(1) by (auto simp: run_inv_def books_ok_def)
    ultimately have sk: "books_ok g (await g e p s)" "remaining (await g e p s) = filter (\<lambda>n. n \<notin> set ?ns) (remaining ?s)"
      "set (completed (await g e p s)) = set ?ns \<union> set (completed ?s)"
      "set (results (await g e p s)) = set (results ?s) \<union> (\<lambda>n. (n, Skipped)) ` set ?ns"
      unfolding a using skip_all by blast+
    have "failures_contained g (await g e p s)"
      using assms(1) unfolding failures_contained_def sk(2,4) run_inv_def by (auto simp: is_failed_def)
    moreover have "length (remaining (await g e p s)) \<le> length (filter (\<lambda>n. n \<noteq> p) (remaining s))"
      unfolding sk(2) by (simp only: finish_simps) (rule length_filter_le)
    moreover have "runnable g (await g e p s) q" if "q \<noteq> p" "runnable g s q" for q
      using that keep [OF that(2)] unfolding runnable_def sk(2,3) by auto
    ultimately show ?thesis using sk(1) less by (auto simp: run_inv_def)
  qed
qed

lemma await_all:
  assumes "run_inv g s" and "distinct ts" and "\<forall>t\<in>set ts. runnable g s t"
  shows "run_inv g (fold (await g e) ts s) \<and> length (remaining (fold (await g e) ts s)) + length ts \<le> length (remaining s)"
  using assms
proof (induction ts arbitrary: s)
  case (Cons t ts)
  from await_inv [OF Cons.prems(1), of t e] Cons.prems have
    a: "run_inv g (await g e t s)" "length (remaining (await g e t s)) < length (remaining s)"
    "\<forall>q\<in>set ts. runnable g (await g e t s) q" by auto
  from Cons.IH [OF a(1) _ a(3)] Cons.prems(2) a(2) show ?case by fastforce
qed simp

lemma launch_inv:
  assumes "run_inv g s" and "distinct ps" and "\<forall>p\<in>set ps. runnable g s p" and "launch g e ps s = (s', ts)"
  shows "run_inv g s' \<and> distinct ts \<and> set ts \<subseteq> set ps \<and> (\<forall>p. p \<notin> set ps \<longrightarrow> runnable g s p \<longrightarrow> runnable g s' p) \<and>
    (\<forall>t\<in>set ts. runnable g s' t) \<and> length (remaining s') + length ps \<le> length (remaining s) + length ts"
  using assms
proof (induction ps arbitrary: s ts)
  case (Cons p ps)
  have p: "p \<in> set (remaining s)" "runnable g s p" using Cons.prems by (auto simp: runnable_def)
  then have "p \<in> names_of g" using Cons.prems(1) by (auto simp: run_inv_def books_ok_def)
  then obtain pkg where pkg: "map_of (packages g) p = Some pkg"
    by (metis map_of_eq_None_iff names_of_def not_None_eq)
  show ?case
  proof (cases "is_skipped e pkg p")
    case True
    let ?s = "finish p Skipped s"
    have inv: "run_inv g ?s" using finish_inv [OF Cons.prems(1) p(1)] by (simp add: is_failed_def)
    have run: "runnable g ?s q" if "q \<noteq> p" "runnable g s q" for q using that by (auto simp: runnable_def)
    have less: "length (remaining ?s) < length (remaining s)"
      using p(1) by (simp only: finish_simps) (rule length_filter_less, auto)
    have "launch g e ps ?s = (s', ts)" using Cons.prems(4) pkg True by simp
    moreover have "\<forall>q\<in>set ps. runnable g ?s q" using Cons.prems(2,3) run by (metis distinct.simps(2) list.set_intros(2))
    ultimately have ih: "run_inv g s' \<and> distinct ts \<and> set ts \<subseteq> set ps \<and>
        (\<forall>q. q \<notin> set ps \<longrightarrow> runnable g ?s q \<longrightarrow> runnable g s' q) \<and> (\<forall>t\<in>set ts. runnable g s' t) \<and>
        length (remaining s') + length ps \<le> length (remaining ?s) + length ts"
      using Cons.IH [OF inv, of ts] Cons.prems(2) by auto
    then have "length (remaining s') + length (p # ps) \<le> length (remaining s) + length ts" using less by simp
    with ih run show ?thesis by auto
  next
    case False
    then obtain ts' where ts: "launch g e ps s = (s', ts')" "ts = p # ts'"
      using Cons.prems(4) pkg by (auto split: prod.splits)
    from Cons.IH [OF Cons.prems(1) _ _ ts(1)] Cons.prems(2,3) have ih: "run_inv g s' \<and> distinct ts' \<and> set ts' \<subseteq> set ps \<and>
        (\<forall>q. q \<notin> set ps \<longrightarrow> runnable g s q \<longrightarrow> runnable g s' q) \<and> (\<forall>t\<in>set ts'. runnable g s' t) \<and>
        length (remaining s') + length ps \<le> length (remaining s) + length ts'" by auto
    with p Cons.prems(2) ts(2) show ?thesis by auto
  qed
qed simp

lemma batch_runnable:
  assumes "run_inv g s"
  shows "distinct (batch g n s)" "\<forall>p\<in>set (batch g n s). runnable g s p"
proof -
  have "distinct (ready g s)" using assms by (simp add: ready_def run_inv_def books_ok_def)
  then show "distinct (batch g n s)" by (simp add: batch_def)
  have "set (batch g n s) \<subseteq> set (ready g s)" by (simp add: batch_def set_take_subset)
  then show "\<forall>p\<in>set (batch g n s). runnable g s p" by (auto simp: ready_def runnable_def list_all_iff)
qed

lemma run_batch_inv:
  assumes "run_inv g s" and "batch g n s \<noteq> []"
  shows "run_inv g (run_batch g e n s) \<and> length (remaining (run_batch g e n s)) < length (remaining s)"
proof -
  obtain s1 ts where l: "launch g e (batch g n s) s = (s1, ts)" by fastforce
  note 1 = launch_inv [OF assms(1) batch_runnable [OF assms(1)] l]
  have b: "run_batch g e n s = fold (await g e) ts s1" by (simp add: run_batch_def l)
  have inv: "run_inv g (run_batch g e n s)"
    and "length (remaining (run_batch g e n s)) + length ts \<le> length (remaining s1)"
    unfolding b using 1 await_all [of g s1 ts e] by blast+
  moreover have "length (remaining s1) + length (batch g n s) \<le> length (remaining s) + length ts" using 1 by blast
  moreover have "0 < length (batch g n s)" using assms(2) by simp
  ultimately have "length (remaining (run_batch g e n s)) < length (remaining s)" by linarith
  with inv show ?thesis ..
qed

lemma ready_nonempty:
  assumes "graph_wf g" and "acyclic (dep_rel g)" and "run_inv g s" and "remaining s \<noteq> []"
  shows "batch g n s \<noteq> []"
proof -
  have r: "set (remaining s) \<subseteq> names_of g" "names_of g - set (remaining s) \<subseteq> set (completed s)"
    using assms(3) by (auto simp: run_inv_def books_ok_def)
  from stuck_is_cyclic [OF assms(1,2) r(1)] assms(4) obtain v where
    v: "v \<in> set (remaining s)" "set (deps_of g v) \<inter> set (remaining s) = {}" by auto
  then have "set (deps_of g v) \<subseteq> set (completed s)" using deps_of_wf(2) [OF assms(1), of v] r(2) by blast
  with v(1) have "v \<in> set (ready g s)" by (auto simp: ready_def list_all_iff)
  then have "ready g s \<noteq> []" by auto
  then show ?thesis by (simp add: batch_def)
qed

lemma run_packages_total:
  assumes "graph_wf g" and "acyclic (dep_rel g)" and "run_inv g s"
  shows "\<exists>t. run_packages g e n s = Some t \<and> run_inv g t \<and> remaining t = []"
proof -
  have "\<exists>t. run_packages g e n s = Some t" unfolding run_packages_def
    by (rule measure_while_option_Some [where P = "run_inv g" and f = "\<lambda>s. length (remaining s)"])
      (auto simp: run_batch_inv assms(3))
  then obtain t where t: "run_packages g e n s = Some t" by blast
  have "run_inv g t" using t unfolding run_packages_def
    by (rule while_option_rule [where P = "run_inv g", rotated]) (auto simp: run_batch_inv assms(3))
  moreover have "\<not> (remaining t \<noteq> [] \<and> batch g n t \<noteq> [])" using t unfolding run_packages_def by (rule while_option_stop)
  ultimately show ?thesis using t ready_nonempty [OF assms(1,2)] by blast
qed

text \<open>
  Claim C34 (functional). A run of a script over a workspace without cycles always ends and accounts for
  every package exactly once, whatever the number of parallel tasks, the affected set, the manifests and
  the outcomes: and a script runs only after every package that its package depends on has had its
  turn, with none of them failed.
\<close>
theorem run_respects_dependencies:
  assumes "acyclic (dep_rel (graph_build manifest pkgs))"
  shows "\<exists>rs. run_workspace_script (graph_build manifest pkgs) e parallelism = Some (Inr rs) \<and>
    distinct (map fst rs) \<and> fst ` set rs = ws_name ` set pkgs \<and> run_order_ok (graph_build manifest pkgs) rs"
proof -
  let ?g = "graph_build manifest pkgs"
  note wf = build_graph_wf [of manifest pkgs]
  from topological_order_wf [OF wf] assms obtain order where
    o: "topological_order ?g = Some (Inr order)" "distinct order" "set order = names_of ?g"
    by (auto split: option.splits sum.splits)
  have "run_inv ?g \<lparr>remaining = order, completed = [], results = []\<rparr>"
    using o by (simp add: run_inv_def books_ok_def failures_contained_def run_order_ok_def)
  from run_packages_total [OF wf assms this] obtain t where
    t: "run_packages ?g e parallelism \<lparr>remaining = order, completed = [], results = []\<rparr> = Some t"
       "run_inv ?g t" "remaining t = []" by blast
  have "run_workspace_script ?g e parallelism = Some (Inr (results t))"
    by (simp add: run_workspace_script_def o(1) t(1))
  with t(2,3) show ?thesis by (auto simp: run_inv_def books_ok_def names_build)
qed

definition demo_member :: "string \<Rightarrow> workspace_package" where
  "demo_member n = \<lparr>ws_name = n, ws_version = [], ws_path = ''/repo/'' @ n, all_deps = []\<rparr>"

definition demo_members :: "string \<Rightarrow> json" where
  "demo_members p =
     (if p = ''/repo/b'' then Object [(''dependencies'', Object [(''a'', String ''workspace:*'')])]
      else if p = ''/repo/c'' then Object [(''dependencies'', Object [(''b'', String ''workspace:*'')])]
      else Null)"

definition demo_graph :: workspace_graph where
  "demo_graph = graph_build demo_members [demo_member ''c'', demo_member ''b'', demo_member ''a'']"

lemma demo_graph_acyclic: "acyclic (dep_rel demo_graph)"
proof -
  have "topological_order demo_graph = Some (Inr [''a'', ''b'', ''c''])" by code_simp
  then show ?thesis using topological_order_wf [of demo_graph] build_graph_wf by (simp add: demo_graph_def)
qed

theorem run_respects_dependencies_witness:
  "\<exists>rs. run_workspace_script demo_graph \<lparr>affected_only = None, has_script = \<lambda>_. True, outcome = \<lambda>_. None\<rparr> 4 = Some (Inr rs) \<and>
    distinct (map fst rs) \<and> fst ` set rs = {''a'', ''b'', ''c''} \<and> run_order_ok demo_graph rs"
  using run_respects_dependencies [OF demo_graph_acyclic [unfolded demo_graph_def],
      of "\<lparr>affected_only = None, has_script = \<lambda>_. True, outcome = \<lambda>_. None\<rparr>" 4]
  by (simp add: demo_graph_def demo_member_def insert_commute)

text \<open>Only the direct dependents of a failure are skipped. A skipped package counts as completed, so
  the packages behind it run although they depend, through it, on the one that failed.\<close>

lemma failure_does_not_reach_indirect_dependents:
  "run_workspace_script demo_graph
     \<lparr>affected_only = None, has_script = \<lambda>_. True, outcome = \<lambda>p. if p = ''a'' then Some ''exit code 1'' else None\<rparr> 1 =
   Some (Inr [(''a'', Failed ''exit code 1''), (''b'', Skipped), (''c'', Success)])"
  by code_simp

section \<open>The versions that a workspace installs\<close>

definition version_score :: "string \<Rightarrow> nat \<times> nat \<times> nat" where
  "version_score v =
     (let v1 = dropWhile (\<lambda>c. c \<in> set ''^~v>= '') v;
          v2 = takeWhile (\<lambda>c. c \<notin> set ''-+'') v1;
          parts = split CHR ''.'' v2;
          num = (\<lambda>i. if i < length parts then (case parse_uint u64_max (parts ! i) of Some n \<Rightarrow> n | None \<Rightarrow> 0) else 0)
      in (num 0, num 1, num 2))"

fun score_gt :: "nat \<times> nat \<times> nat \<Rightarrow> nat \<times> nat \<times> nat \<Rightarrow> bool" where
  "score_gt (a, b, c) (a', b', c') \<longleftrightarrow> a' < a \<or> (a = a' \<and> (b' < b \<or> (b = b' \<and> c' < c)))"

definition workspace_semver_gt :: "string \<Rightarrow> string \<Rightarrow> bool" where
  "workspace_semver_gt a b = score_gt (version_score a) (version_score b)"

definition merge_dep :: "string \<times> string \<Rightarrow> (string \<times> string) list \<Rightarrow> (string \<times> string) list" where
  "merge_dep = (\<lambda>(n, version) merged.
     let entry = (case map_of merged n of Some v \<Rightarrow> v | None \<Rightarrow> version)
     in AList.update n (if workspace_semver_gt version entry then version else entry) merged)"

definition merged_deps :: "workspace_package list \<Rightarrow> (string \<times> string) list" where
  "merged_deps pkgs = fold (\<lambda>pkg. fold merge_dep (all_deps pkg)) pkgs []"

lemma score_gt_order:
  "\<not> score_gt x x" "score_gt x y \<Longrightarrow> score_gt y z \<Longrightarrow> score_gt x z"
  "\<not> score_gt x y \<Longrightarrow> score_gt z y \<Longrightarrow> score_gt z x \<or> \<not> score_gt x z"
  by (cases x; cases y; cases z; auto)+

definition greatest_request :: "(string \<times> string) set \<Rightarrow> string \<Rightarrow> string option \<Rightarrow> bool" where
  "greatest_request reqs n r =
     (case r of
        None \<Rightarrow> \<forall>v. (n, v) \<notin> reqs
      | Some v \<Rightarrow> (n, v) \<in> reqs \<and> (\<forall>v'. (n, v') \<in> reqs \<longrightarrow> \<not> workspace_semver_gt v' v))"

lemma merge_dep_greatest:
  assumes "\<And>n. greatest_request reqs n (map_of merged n)"
  shows "greatest_request (insert r reqs) n (map_of (merge_dep r merged) n)"
proof -
  obtain m v where r: "r = (m, v)" by fastforce
  have not_both: "\<not> score_gt x y \<or> \<not> score_gt y x" for x y using score_gt_order(1,2) by blast
  show ?thesis
  proof (cases "n = m")
    case False
    with assms [of n] r show ?thesis by (auto simp: merge_dep_def Let_def greatest_request_def update_conv' split: option.splits)
  next
    case True
    show ?thesis
    proof (cases "map_of merged m")
      case None
      with assms [of m] True r show ?thesis
        by (auto simp: merge_dep_def Let_def greatest_request_def update_conv' workspace_semver_gt_def score_gt_order(1))
    next
      case (Some u)
      have g: "(m, u) \<in> reqs" "\<And>v'. (m, v') \<in> reqs \<Longrightarrow> \<not> workspace_semver_gt v' u"
        using assms [of m] Some by (auto simp: greatest_request_def)
      then have "\<not> workspace_semver_gt v' v" if "workspace_semver_gt v u" "(m, v') \<in> reqs" for v'
        using that score_gt_order(2) unfolding workspace_semver_gt_def by blast
      with g Some True r show ?thesis
        by (auto simp: merge_dep_def Let_def greatest_request_def update_conv' workspace_semver_gt_def score_gt_order(1))
    qed
  qed
qed

lemma merge_deps_greatest:
  "(\<And>n. greatest_request reqs n (map_of merged n)) \<Longrightarrow>
   greatest_request (set rs \<union> reqs) n (map_of (fold merge_dep rs merged) n)"
proof (induction rs arbitrary: reqs merged n)
  case (Cons r rs)
  from Cons.IH [of "insert r reqs" "merge_dep r merged"] merge_dep_greatest [of reqs merged r] Cons.prems
  show ?case by simp
qed simp

text \<open>A workspace installs, for every external package that a member asks for, one of the versions asked
  for, and none of the others is higher; nothing else is installed.\<close>

lemma merged_deps_highest:
  "greatest_request (\<Union>pkg\<in>set pkgs. set (all_deps pkg)) n (map_of (merged_deps pkgs) n)"
proof -
  have flat: "fold (\<lambda>pkg. fold merge_dep (all_deps pkg)) pkgs m = fold merge_dep (concat (map all_deps pkgs)) m" for m
    by (induction pkgs arbitrary: m) simp_all
  have "greatest_request {} k (map_of [] k)" for k by (simp add: greatest_request_def)
  from merge_deps_greatest [of "{}" "[]", OF this, of "concat (map all_deps pkgs)" n] show ?thesis
    by (simp add: merged_deps_def flat)
qed

text \<open>The comparison does not see prerelease tags: of two prereleases of one version the one that
  happens to come first stays.\<close>

lemma merged_deps_ignores_prerelease:
  "merged_deps [(demo_member ''a'')\<lparr>all_deps := [(''x'', ''1.0.0-alpha'')]\<rparr>,
     (demo_member ''b'')\<lparr>all_deps := [(''x'', ''1.0.0'')]\<rparr>] = [(''x'', ''1.0.0-alpha'')]"
  by code_simp

end
