(* ===== verification/Lamport.thy ===== *)
theory Lamport
  imports Rust_Std
begin

text \<open>
  Lamport one-time signatures: \<open>crates/crypto/src/lamport.rs\<close>. SHA-256, the hexadecimal codec and the
  random bytes that a key pair is made of are parameters; byte strings are strings. Key material is
  wiped on drop, which nothing here can observe.
\<close>

section \<open>Keys, signing and verification\<close>

definition N :: nat where
  "N = 256"

definition HASH_LEN :: nat where
  "HASH_LEN = 32"

definition SK_COUNT :: nat where
  "SK_COUNT = 2 * N"

record lamport_keypair =
  sk :: "string list"
  public_key :: "string list"
  used :: bool

datatype crypto_error = InvalidKey | VerificationFailed

text \<open>\<open>generate_with_rng\<close>, on the blocks that the generator fills.\<close>

definition generate_keypair :: "(string \<Rightarrow> string) \<Rightarrow> string list \<Rightarrow> lamport_keypair" where
  "generate_keypair H blocks = \<lparr>sk = blocks, public_key = map H blocks, used = False\<rparr>"

definition hash_bit :: "string \<Rightarrow> nat \<Rightarrow> nat" where
  "hash_bit msg_hash bit_idx = (of_char (msg_hash ! (bit_idx div 8)) div 2 ^ (7 - bit_idx mod 8)) mod 2"

definition sign :: "(string \<Rightarrow> string) \<Rightarrow> string \<Rightarrow> lamport_keypair \<Rightarrow> (crypto_error + string list) \<times> lamport_keypair" where
  "sign H message kp =
     (if used kp then (Inl InvalidKey, kp)
      else (let msg_hash = H message
            in (Inr (map (\<lambda>bit_idx. sk kp ! (2 * bit_idx + hash_bit msg_hash bit_idx)) [0..<N]), kp\<lparr>used := True\<rparr>)))"

definition verify :: "(string \<Rightarrow> string) \<Rightarrow> string list \<Rightarrow> string \<Rightarrow> string list \<Rightarrow> crypto_error + unit" where
  "verify H pk message sig =
     (let msg_hash = H message
      in if list_all (\<lambda>bit_idx. H (sig ! bit_idx) = pk ! (2 * bit_idx + hash_bit msg_hash bit_idx)) [0..<N]
         then Inr () else Inl VerificationFailed)"

function chunks :: "nat \<Rightarrow> string \<Rightarrow> string list" where
  "chunks n s = (if s = [] \<or> n = 0 then [] else take n s # chunks n (drop n s))"
  by pat_completeness auto
termination
  by (relation "measure (\<lambda>(n, s). length s)") auto

declare chunks.simps [simp del]

definition to_hex :: "(string \<Rightarrow> string) \<Rightarrow> string list \<Rightarrow> string" where
  "to_hex hex_encode blocks = hex_encode (concat blocks)"

definition from_hex :: "(string \<Rightarrow> string option) \<Rightarrow> nat \<Rightarrow> string \<Rightarrow> crypto_error + string list" where
  "from_hex hex_decode count s =
     (case hex_decode s of
        None \<Rightarrow> Inl InvalidKey
      | Some bytes \<Rightarrow> if length bytes \<noteq> count * HASH_LEN then Inl InvalidKey else Inr (chunks HASH_LEN bytes))"

section \<open>What a signature shows\<close>

lemma hash_bit_less: "hash_bit h i < 2"
  by (simp add: hash_bit_def)

lemma slot_in_range: "i < N \<Longrightarrow> 2 * i + hash_bit h i < SK_COUNT"
  using hash_bit_less [of h i] by (simp add: SK_COUNT_def)

lemma chunks_concat:
  "\<forall>b\<in>set blocks. length b = n \<Longrightarrow> 0 < n \<Longrightarrow> chunks n (concat blocks) = blocks"
proof (induction blocks)
  case (Cons b blocks)
  moreover from Cons.prems have "b @ concat blocks \<noteq> []" by auto
  ultimately show ?case by (subst chunks.simps) simp
qed (simp add: chunks.simps)

lemma verify_iff: "verify H pk m sig = Inr () \<longleftrightarrow> (\<forall>i < N. H (sig ! i) = pk ! (2 * i + hash_bit (H m) i))"
  by (auto simp: verify_def list_all_iff)

lemma sign_fresh:
  "fst (sign H m (generate_keypair H blocks)) = Inr (map (\<lambda>i. blocks ! (2 * i + hash_bit (H m) i)) [0..<N])"
  by (simp add: sign_def generate_keypair_def Let_def)

text \<open>A key pair signs once: whatever it signs, the next attempt fails and leaves it as it is.\<close>

lemma sign_once: "fst (sign H m' (snd (sign H m kp))) = Inl InvalidKey"
  by (simp add: sign_def Let_def)

lemma byte_determined:
  fixes a b :: char
  assumes "\<And>k. k < 8 \<Longrightarrow> ((of_char a :: nat) div 2 ^ k) mod 2 = (of_char b div 2 ^ k) mod 2"
  shows "a = b"
proof -
  have small: "(of_char c :: nat) < 2 ^ 8" for c :: char using nat_of_char_less_256 [of c] by simp
  have "bit (of_char a :: nat) k = bit (of_char b :: nat) k" for k
  proof (cases "k < 8")
    case True
    then show ?thesis using assms [of k] by (simp add: bit_iff_odd odd_iff_mod_2_eq_one)
  next
    case False
    then have "(2::nat) ^ 8 \<le> 2 ^ k" by (intro power_increasing) auto
    then have "(of_char c :: nat) div 2 ^ k = 0" for c :: char using small [of c] by (intro div_less) linarith
    then show ?thesis by (simp add: bit_iff_odd)
  qed
  then have "(of_char a :: nat) = of_char b" by (rule bit_eqI)
  then show ?thesis by simp
qed

lemma hash_determined:
  assumes "length h = HASH_LEN" and "length h' = HASH_LEN" and "\<And>i. i < N \<Longrightarrow> hash_bit h i = hash_bit h' i"
  shows "h = h'"
proof (rule nth_equalityI)
  show "length h = length h'" using assms by simp
  fix j
  assume "j < length h"
  then have j: "j < 32" using assms(1) by (simp add: HASH_LEN_def)
  show "h ! j = h' ! j"
  proof (rule byte_determined)
    fix k :: nat
    assume k: "k < 8"
    let ?i = "(7 - k) + j * 8"
    have "?i < N" using j by (simp add: N_def)
    moreover have "?i div 8 = j" by (subst div_mult_self1) simp_all
    moreover have "?i mod 8 = 7 - k" by (subst mod_mult_self1) simp
    ultimately show "((of_char (h ! j) :: nat) div 2 ^ k) mod 2 = (of_char (h' ! j) div 2 ^ k) mod 2"
      using assms(3) [of ?i] k by (simp add: hash_bit_def)
  qed
qed

text \<open>
  A fresh key pair signs, and its signature, sent in hexadecimal together with the
  public key, is read back and verifies: for every hash of 32 bytes, every message and every
  codec whose decoder inverts its encoder.
\<close>
theorem lamport_roundtrip:
  assumes "\<And>x. length (H x) = HASH_LEN" and "\<And>x. hex_decode (hex_encode x) = Some x"
    and "length blocks = SK_COUNT" and "\<forall>b\<in>set blocks. length b = HASH_LEN"
    and "kp = generate_keypair H blocks"
  shows "\<exists>sig pk. fst (sign H m kp) = Inr sig \<and>
    from_hex hex_decode SK_COUNT (to_hex hex_encode (public_key kp)) = Inr pk \<and>
    from_hex hex_decode N (to_hex hex_encode sig) = Inr sig \<and> verify H pk m sig = Inr ()"
proof -
  define sig where "sig = map (\<lambda>i. blocks ! (2 * i + hash_bit (H m) i)) [0..<N]"
  have decode: "from_hex hex_decode (length bs) (to_hex hex_encode bs) = Inr bs" if "\<forall>b\<in>set bs. length b = HASH_LEN" for bs
  proof -
    have "length (concat bs) = length bs * HASH_LEN" using that by (induction bs) simp_all
    with chunks_concat [OF that] assms(2) show ?thesis by (simp add: from_hex_def to_hex_def HASH_LEN_def)
  qed
  have "\<forall>b\<in>set sig. length b = HASH_LEN"
    using assms(3,4) slot_in_range [of _ "H m"] by (auto simp: sig_def)
  from decode [OF this] have "from_hex hex_decode N (to_hex hex_encode sig) = Inr sig" by (simp add: sig_def)
  moreover have "from_hex hex_decode SK_COUNT (to_hex hex_encode (public_key kp)) = Inr (map H blocks)"
    using decode [of "map H blocks"] assms(1,3,5) by (simp add: generate_keypair_def)
  moreover have "verify H (map H blocks) m sig = Inr ()"
    unfolding verify_iff using assms(3) slot_in_range [of _ "H m"] by (simp add: sig_def)
  moreover have "fst (sign H m kp) = Inr sig" by (simp add: assms(5) sign_fresh sig_def)
  ultimately show ?thesis by blast
qed


definition demo_hash :: "string \<Rightarrow> string" where
  "demo_hash x = replicate 32 (if x = [] then CHR ''A'' else CHR ''B'')"

definition demo_blocks :: "string list" where
  "demo_blocks = replicate 512 (replicate 32 CHR ''x'')"

lemma demo_facts:
  "length (demo_hash x) = HASH_LEN" "length demo_blocks = SK_COUNT" "\<forall>b\<in>set demo_blocks. length b = HASH_LEN"
  by (auto simp: demo_hash_def demo_blocks_def HASH_LEN_def SK_COUNT_def N_def)


end
