(* ===== verification/Supervisor.thy ===== *)
theory Supervisor
  imports Rust_Time
begin

text \<open>
  Managed processes: the supervisor of \<open>3va start\<close>, from \<open>crates/cli/src/proc.rs\<close>. One turn of the
  supervisor's loop is a function of what happened in it: the process ids it got, what other commands
  did meanwhile to the state file of the process, and whether an instance exited or a signal came.
  Files are written successfully (the code ignores a failure); an instance that cannot be spawned,
  the log file and the kill of the siblings are not modelled.
\<close>

section \<open>Restart delays\<close>

definition BACKOFF_BASE_MS :: nat where
  "BACKOFF_BASE_MS = 500"

definition BACKOFF_MAX_MS :: nat where
  "BACKOFF_MAX_MS = 30000"

definition backoff_delay :: "nat \<Rightarrow> nat" where
  "backoff_delay restarts =
     (if restarts = 0 then BACKOFF_BASE_MS
      else (let e = min (restarts - 1) 16; delay = sat_mul64 BACKOFF_BASE_MS (2 ^ e)
            in min delay BACKOFF_MAX_MS))"

section \<open>Configuration and arguments\<close>

record supervisor_config =
  cfg_name :: string
  cfg_entry :: string
  cfg_args :: "string list"
  cfg_port :: "nat option"
  cfg_instances :: nat
  cfg_max_restarts :: nat
  cfg_autorestart :: bool
  cfg_start_restarts :: nat
  cfg_allow_insecure :: bool
  cfg_verbose :: bool

record process_info =
  pi_name :: string
  pi_entry :: string
  pi_pid :: nat
  pi_status :: string
  pi_restarts :: nat
  pi_args :: "string list"
  pi_port :: "nat option"
  pi_instances :: nat
  pi_max_restarts :: nat
  pi_autorestart :: bool
  instance_pids :: "nat list"
  pi_allow_insecure :: bool
  pi_verbose :: bool

definition global_flag_args :: "bool \<Rightarrow> bool \<Rightarrow> string list" where
  "global_flag_args allow_insecure verbose =
     (if allow_insecure then [''--allow-insecure''] else []) @ (if verbose then [''--verbose''] else [])"

definition port_args :: "nat option \<Rightarrow> string list" where
  "port_args port = (case port of Some p \<Rightarrow> [''--port'', show_nat p] | None \<Rightarrow> [])"

definition script_args :: "string list \<Rightarrow> string list" where
  "script_args args = (if args = [] then [] else ''--'' # args)"

definition app_instance_args ::
  "string \<Rightarrow> nat option \<Rightarrow> bool \<Rightarrow> bool \<Rightarrow> bool \<Rightarrow> string list \<Rightarrow> string list" where
  "app_instance_args entry port cluster allow_insecure verbose args =
     global_flag_args allow_insecure verbose @ [''run''] @ port_args port @ [''--allow-env=CI'', entry] @ script_args args"

definition supervise_args :: "supervisor_config \<Rightarrow> string \<Rightarrow> string list" where
  "supervise_args cfg abs_entry =
     global_flag_args (cfg_allow_insecure cfg) (cfg_verbose cfg) @
     [''__supervise'', ''--name'', cfg_name cfg, ''--instances'', show_nat (cfg_instances cfg),
      ''--max-restarts'', show_nat (cfg_max_restarts cfg), ''--start-restarts'', show_nat (cfg_start_restarts cfg)] @
     (if cfg_autorestart cfg then [] else [''--no-autorestart'']) @ port_args (cfg_port cfg) @
     [abs_entry] @ script_args (cfg_args cfg)"

section \<open>The loop\<close>

text \<open>The state file of the process: \<open>None\<close> when it cannot be read.\<close>

definition announce :: "supervisor_config \<Rightarrow> nat \<Rightarrow> nat list \<Rightarrow> nat \<Rightarrow> process_info option \<Rightarrow> process_info" where
  "announce cfg own_pid pids restarts disk =
     (let info = (case disk of
          Some info \<Rightarrow> info
        | None \<Rightarrow> \<lparr>pi_name = cfg_name cfg, pi_entry = cfg_entry cfg, pi_pid = own_pid, pi_status = ''running'',
            pi_restarts = restarts, pi_args = cfg_args cfg, pi_port = cfg_port cfg, pi_instances = cfg_instances cfg,
            pi_max_restarts = cfg_max_restarts cfg, pi_autorestart = cfg_autorestart cfg, instance_pids = [],
            pi_allow_insecure = cfg_allow_insecure cfg, pi_verbose = cfg_verbose cfg\<rparr>)
      in info\<lparr>pi_pid := own_pid, pi_status := ''running'', pi_restarts := restarts,
          pi_autorestart := cfg_autorestart cfg, pi_allow_insecure := cfg_allow_insecure cfg,
          pi_verbose := cfg_verbose cfg, instance_pids := pids\<rparr>)"

definition set_status :: "string \<Rightarrow> process_info option \<Rightarrow> process_info option" where
  "set_status status = map_option (\<lambda>info. info\<lparr>pi_status := status\<rparr>)"

datatype supervised = Instance_Exited | Shutdown_Signal

record round =
  round_pids :: "nat list"
  meanwhile :: "process_info option \<Rightarrow> process_info option"
  happened :: supervised

datatype turn = Stop "string + unit" "process_info option" | Respawn nat nat "process_info option"

text \<open>\<open>restarts\<close> is a \<open>u32\<close>.\<close>

definition supervisor_turn :: "supervisor_config \<Rightarrow> nat \<Rightarrow> nat \<Rightarrow> process_info option \<Rightarrow> round \<Rightarrow> turn" where
  "supervisor_turn cfg own_pid restarts disk r =
     (let disk1 = meanwhile r (Some (announce cfg own_pid (round_pids r) restarts disk))
      in if happened r = Shutdown_Signal then Stop (Inr ()) (set_status ''stopped'' disk1)
         else if map_option pi_status disk1 = Some ''stopped'' then Stop (Inr ()) disk1
         else if \<not> cfg_autorestart cfg then Stop (Inr ()) (set_status ''error'' disk1)
         else let restarts' = inc32 restarts
              in if restarts' > cfg_max_restarts cfg then Stop (Inl ''giving up'') (set_status ''crashed'' disk1)
                 else Respawn restarts' (backoff_delay restarts') disk1)"

text \<open>A run over the rounds that happen: the delays before each restart, and the result when the loop
  has ended by then.\<close>

fun supervise :: "supervisor_config \<Rightarrow> nat \<Rightarrow> nat \<Rightarrow> process_info option \<Rightarrow> round list \<Rightarrow>
    nat list \<times> ((string + unit) \<times> process_info option) option" where
  "supervise cfg own_pid restarts disk [] = ([], None)"
| "supervise cfg own_pid restarts disk (r # rs) =
     (case supervisor_turn cfg own_pid restarts disk r of
        Stop res disk' \<Rightarrow> ([], Some (res, disk'))
      | Respawn restarts' delay disk' \<Rightarrow>
          (let (ds, res) = supervise cfg own_pid restarts' disk' rs in (delay # ds, res)))"

definition run_supervisor :: "supervisor_config \<Rightarrow> nat \<Rightarrow> process_info option \<Rightarrow> round list \<Rightarrow>
    nat list \<times> ((string + unit) \<times> process_info option) option" where
  "run_supervisor cfg own_pid disk rs = supervise cfg own_pid (cfg_start_restarts cfg) disk rs"

text \<open>The configuration that \<open>restart_process\<close> starts the next supervisor with, and the status that
  \<open>status_process\<close> reports.\<close>

definition restart_config :: "string \<Rightarrow> process_info \<Rightarrow> supervisor_config" where
  "restart_config name info =
     \<lparr>cfg_name = name, cfg_entry = pi_entry info, cfg_args = pi_args info, cfg_port = pi_port info,
      cfg_instances = pi_instances info, cfg_max_restarts = pi_max_restarts info,
      cfg_autorestart = pi_autorestart info, cfg_start_restarts = pi_restarts info + 1,
      cfg_allow_insecure = pi_allow_insecure info, cfg_verbose = pi_verbose info\<rparr>"

definition status_process :: "(nat \<Rightarrow> bool) \<Rightarrow> process_info \<Rightarrow> process_info" where
  "status_process alive info =
     (if pi_status info = ''running'' \<and> \<not> alive (pi_pid info) then info\<lparr>pi_status := ''error''\<rparr> else info)"

section \<open>Properties\<close>

lemma backoff_closed_form:
  "backoff_delay restarts = min (500 * 2 ^ (restarts - 1)) 30000"
proof (cases "restarts - 1 \<le> 16")
  case True
  have "(2::nat) ^ (restarts - 1) \<le> 2 ^ 16" using True by (intro power_increasing) auto
  then show ?thesis using True
    by (simp add: backoff_delay_def BACKOFF_BASE_MS_def BACKOFF_MAX_MS_def Let_def sat_mul64_def min_def)
next
  case False
  have "(2::nat) ^ 16 \<le> 2 ^ (restarts - 1)" using False by (intro power_increasing) auto
  then show ?thesis using False
    by (simp add: backoff_delay_def BACKOFF_BASE_MS_def BACKOFF_MAX_MS_def Let_def sat_mul64_def min_def)
qed

lemma supervise_delays:
  assumes "cfg_max_restarts cfg < 2 ^ 32 - 1" and "restarts \<le> cfg_max_restarts cfg"
    and "supervise cfg own_pid restarts disk rs = (ds, res)"
  shows "ds = map backoff_delay [Suc restarts..<Suc restarts + length ds] \<and>
    restarts + length ds \<le> cfg_max_restarts cfg \<and> (res = None \<longrightarrow> length ds = length rs)"
  using assms(2,3)
proof (induction rs arbitrary: restarts disk ds)
  case (Cons r rs)
  show ?case
  proof (cases "supervisor_turn cfg own_pid restarts disk r")
    case (Stop x y)
    with Cons.prems show ?thesis by auto
  next
    case (Respawn restarts' delay disk')
    obtain ds' where d: "supervise cfg own_pid restarts' disk' rs = (ds', res)" "ds = delay # ds'"
      using Cons.prems(2) Respawn by (auto split: prod.splits)
    have r: "restarts' = inc32 restarts" "restarts' \<le> cfg_max_restarts cfg" "delay = backoff_delay restarts'"
      using Respawn by (auto simp: supervisor_turn_def Let_def split: if_splits)
    have "restarts' = Suc restarts" using r(1) assms(1) Cons.prems(1) by (simp add: inc32_def)
    with Cons.IH [OF r(2) d(1)] have ih: "ds' = map backoff_delay [Suc (Suc restarts)..<Suc (Suc restarts) + length ds']"
      "Suc restarts + length ds' \<le> cfg_max_restarts cfg" "res = None \<longrightarrow> length ds' = length rs" by auto
    have "[Suc restarts..<Suc restarts + length ds] = Suc restarts # [Suc (Suc restarts)..<Suc (Suc restarts) + length ds']"
      using d(2) by (simp add: upt_conv_Cons del: upt_Suc)
    then have "map backoff_delay [Suc restarts..<Suc restarts + length ds] = delay # ds'"
      using ih(1) r(3) \<open>restarts' = Suc restarts\<close> by (simp del: upt_Suc)
    with d(2) ih(2,3) show ?thesis by (simp del: upt_Suc)
  qed
qed simp


definition demo_config :: supervisor_config where
  "demo_config = \<lparr>cfg_name = ''api'', cfg_entry = ''/srv/api.js'', cfg_args = [], cfg_port = None, cfg_instances = 1,
     cfg_max_restarts = 2, cfg_autorestart = True, cfg_start_restarts = 0, cfg_allow_insecure = False, cfg_verbose = False\<rparr>"

definition demo_crash :: round where
  "demo_crash = \<lparr>round_pids = [7], meanwhile = (\<lambda>disk. disk), happened = Instance_Exited\<rparr>"


text \<open>A process that was stopped meanwhile is not started again, and a signal ends the supervisor.\<close>

lemma stopped_is_not_respawned:
  assumes "happened r = Shutdown_Signal \<or>
    map_option pi_status (meanwhile r (Some (announce cfg own_pid (round_pids r) restarts disk))) = Some ''stopped''"
  shows "\<exists>disk'. supervisor_turn cfg own_pid restarts disk r = Stop (Inr ()) disk' \<and>
    (\<forall>info. disk' = Some info \<longrightarrow> pi_status info = ''stopped'')"
  using assms by (auto simp: supervisor_turn_def Let_def set_status_def)

text \<open>The arguments of the script stand behind \<open>--\<close>, so that none of them is read as a flag of
  \<open>3va run\<close>; the only right that a supervised application is given is \<open>CI\<close> of the environment.\<close>

lemma app_args_shape:
  "app_instance_args entry port cluster ai v args =
     global_flag_args ai v @ ''run'' # port_args port @ [''--allow-env=CI'', entry] @ script_args args"
  "''--allow-insecure'' \<in> set (global_flag_args ai v) \<longleftrightarrow> ai"
  by (simp_all add: app_instance_args_def global_flag_args_def)

text \<open>\<open>3va restart\<close> hands the count of the restarts on, so manual restarts use up the budget for
  crashes: once they have reached it, the first crash is the last.\<close>

lemma manual_restarts_use_the_budget:
  assumes "pi_max_restarts info \<le> pi_restarts info" and "pi_restarts info + 2 < 2 ^ 32" and "pi_autorestart info"
    and "happened r = Instance_Exited"
    and "map_option pi_status (meanwhile r (Some (announce (restart_config name info) own_pid (round_pids r)
           (cfg_start_restarts (restart_config name info)) disk))) \<noteq> Some ''stopped''"
  shows "\<exists>disk'. supervisor_turn (restart_config name info) own_pid (cfg_start_restarts (restart_config name info)) disk r =
    Stop (Inl ''giving up'') disk'"
  using assms by (auto simp: supervisor_turn_def Let_def restart_config_def inc32_def)

text \<open>A process whose state file was deleted meanwhile is started again.\<close>

lemma deleted_process_respawns:
  "\<exists>d. supervisor_turn demo_config 1 0 None (demo_crash\<lparr>meanwhile := (\<lambda>_. None)\<rparr>) = Respawn 1 d None"
proof -
  have "supervisor_turn demo_config 1 0 None (demo_crash\<lparr>meanwhile := (\<lambda>_. None)\<rparr>) = Respawn 1 500 None" by code_simp
  then show ?thesis by blast
qed

end
