(* ===== verification/Bin_Links.thy ===== *)
theory Bin_Links
  imports Fs_Path Json
begin

text \<open>
  Commands of installed packages: \<open>crates/pm/src/bins.rs\<close>, the links of \<open>node_modules/.bin\<close>. The file
  system is a parameter (\<open>bin_fs\<close>): which paths are files and directories, the manifest of a directory,
  and \<open>canonicalize\<close>. Modelled is the choice of the links; removing stale ones, writing the links and the shims of
  Windows are left out. A level of \<open>node_modules\<close> is the list of its packages in the sorted order in
  which the code visits them.
\<close>

section \<open>Operations\<close>

record bin_link =
  link_name :: string
  link_target :: path
  link_owner :: string

record bin_fs =
  is_file :: "path \<Rightarrow> bool"
  is_dir :: "path \<Rightarrow> bool"
  read_manifest :: "path \<Rightarrow> json option"
  real_path :: "path \<Rightarrow> path option"

definition last_segment :: "string \<Rightarrow> string" where
  "last_segment s = last (split CHR ''/'' s)"

definition bin_entries :: "json \<Rightarrow> string \<Rightarrow> (string \<times> path) list" where
  "bin_entries manifest pkg_name =
     (case json_get manifest ''bin'' of
        Some (String p) \<Rightarrow> if p = [] then [] else [(last_segment pkg_name, parse_path p)]
      | Some (Object fs) \<Rightarrow>
          List.map_filter (\<lambda>(n, v). case as_str v of Some p \<Rightarrow> if p = [] then None else Some (n, parse_path p) | None \<Rightarrow> None) fs
      | _ \<Rightarrow> [])"

definition package_name :: "path \<Rightarrow> string option" where
  "package_name pkg_dir =
     (case rev pkg_dir of
        Normal f # Normal scope # _ \<Rightarrow> Some (if starts_with scope ''@'' then scope @ ''/'' @ f else f)
      | Normal f # _ \<Rightarrow> Some f
      | _ \<Rightarrow> None)"

text \<open>The first of the candidates that is a file.\<close>

definition first_file :: "bin_fs \<Rightarrow> path list \<Rightarrow> path option" where
  "first_file fs ps = List.find (is_file fs) ps"

definition main_candidates :: "bin_fs \<Rightarrow> path \<Rightarrow> path list" where
  "main_candidates fs direct =
     (case read_manifest fs direct of
        None \<Rightarrow> []
      | Some manifest \<Rightarrow>
          List.map_filter (\<lambda>key. map_option (\<lambda>m. path_join direct (parse_path m)) (Option.bind (json_get manifest key) as_str))
            [''main'', ''module''])"

definition resolve_bin_entry :: "bin_fs \<Rightarrow> path \<Rightarrow> path \<Rightarrow> path" where
  "resolve_bin_entry fs pkg_dir rel =
     (let direct = path_join pkg_dir rel
      in if is_file fs direct then direct
         else if is_dir fs direct then
           (case first_file fs (map (\<lambda>c. direct @ [Normal c]) [''index.js'', ''index.mjs'', ''index.cjs'', ''cli.js''] @
                                main_candidates fs direct) of
              Some f \<Rightarrow> f
            | None \<Rightarrow> direct)
         else direct)"

definition rel_from :: "path \<Rightarrow> path \<Rightarrow> path" where
  "rel_from base target =
     (let common = length (longest_common_prefix base target);
          out = replicate (length base - common) ParentDir @ drop common target
      in if out = [] then [CurDir] else out)"

definition bin_parent :: "path \<Rightarrow> path" where
  "bin_parent node_modules = node_modules @ [Normal ''.bin'']"

definition invalid_bin_name :: "string \<Rightarrow> bool" where
  "invalid_bin_name name \<longleftrightarrow>
     name = [] \<or> name = ''.'' \<or> name = ''..'' \<or> list_ex (\<lambda>c. c = CHR ''/'' \<or> c = CHR 0x5C \<or> c = CHR 0x00) name"

definition owns :: "string \<Rightarrow> string \<Rightarrow> bool" where
  "owns owner name \<longleftrightarrow> last_segment owner = name"

definition inside_package :: "bin_fs \<Rightarrow> path \<Rightarrow> path \<Rightarrow> bool" where
  "inside_package fs pkg_dir resolved =
     (case (real_path fs resolved, real_path fs pkg_dir) of
        (Some t, Some p) \<Rightarrow> prefix p t
      | _ \<Rightarrow> False)"

type_synonym links = "string \<rightharpoonup> bin_link"

text \<open>One declaration of a package: the links wanted so far, and the names that were skipped or claimed
  twice.\<close>

definition add_bin ::
  "bin_fs \<Rightarrow> path \<Rightarrow> path \<Rightarrow> string \<Rightarrow> string \<times> path \<Rightarrow> links \<times> string list \<Rightarrow> links \<times> string list" where
  "add_bin fs node_modules pkg_dir pkg_name = (\<lambda>(name, rel) (wanted, skipped).
     if invalid_bin_name name then (wanted, skipped @ [name])
     else
       let resolved = resolve_bin_entry fs pkg_dir rel
       in if \<not> is_file fs resolved then (wanted, skipped @ [name])
          else if \<not> inside_package fs pkg_dir resolved then (wanted, skipped @ [name])
          else
            let link = \<lparr>link_name = name, link_target = rel_from (bin_parent node_modules) resolved, link_owner = pkg_name\<rparr>
            in case wanted name of
                 None \<Rightarrow> (wanted(name \<mapsto> link), skipped)
               | Some existing \<Rightarrow>
                   (if owns pkg_name name \<and> \<not> owns (link_owner existing) name then wanted(name \<mapsto> link) else wanted,
                    skipped @ [name]))"

definition add_package_bins :: "bin_fs \<Rightarrow> path \<Rightarrow> path \<Rightarrow> links \<times> string list \<Rightarrow> links \<times> string list" where
  "add_package_bins fs node_modules pkg_dir st =
     (case package_name pkg_dir of
        None \<Rightarrow> st
      | Some pkg_name \<Rightarrow>
          (case read_manifest fs pkg_dir of
             None \<Rightarrow> st
           | Some manifest \<Rightarrow> fold (add_bin fs node_modules pkg_dir pkg_name) (bin_entries manifest pkg_name) st))"

definition collect_level :: "bin_fs \<Rightarrow> path \<Rightarrow> path list \<Rightarrow> links \<times> string list" where
  "collect_level fs node_modules pkg_dirs = fold (add_package_bins fs node_modules) pkg_dirs (Map.empty, [])"

text \<open>The link of a nested tree: its declarations are collected against the outermost \<open>node_modules\<close>
  and the target is taken from there into the nested one.\<close>

definition nested_target :: "bin_fs \<Rightarrow> path \<Rightarrow> bin_link \<Rightarrow> path" where
  "nested_target fs nested link = rel_from (bin_parent nested) (resolve_bin_entry fs nested (link_target link))"

fun normal_step :: "path \<Rightarrow> component \<Rightarrow> path" where
  "normal_step out CurDir = out"
| "normal_step out ParentDir = (if out \<noteq> [] \<and> last out \<noteq> ParentDir then butlast out else out @ [ParentDir])"
| "normal_step out RootDir = [RootDir]"
| "normal_step out (Normal n) = out @ [Normal n]"

definition lexical_normalize :: "path \<Rightarrow> path" where
  "lexical_normalize p = foldl normal_step [] p"

text \<open>Following a link: \<open>resolve_bin_entry_file\<close> on a symbolic link.\<close>

definition follow_link :: "bin_fs \<Rightarrow> path \<Rightarrow> path \<Rightarrow> path option" where
  "follow_link fs dir target =
     (let abs = lexical_normalize (path_join dir target)
      in case last abs of
           Normal n \<Rightarrow> if starts_with n ''.'' then None else if is_file fs abs then Some abs else None
         | _ \<Rightarrow> if is_file fs abs then Some abs else None)"

section \<open>Properties\<close>

definition plain_path :: "path \<Rightarrow> bool" where
  "plain_path p \<longleftrightarrow> (\<exists>ns. p = RootDir # map Normal ns)"

lemma foldl_up:
  "k \<le> length ns \<Longrightarrow> foldl normal_step (RootDir # map Normal ns) (replicate k ParentDir) = RootDir # map Normal (take (length ns - k) ns)"
proof (induction k arbitrary: ns)
  case (Suc k)
  then have ns: "ns \<noteq> []" "k \<le> length (butlast ns)" by auto
  have "normal_step (RootDir # map Normal ns) ParentDir = RootDir # map Normal (butlast ns)"
    using ns(1) by (simp add: last_map map_butlast)
  with Suc.IH [OF ns(2)] show ?case using ns(1) by (simp add: butlast_conv_take min_def)
qed simp

lemma foldl_down: "foldl normal_step p (map Normal ns) = p @ map Normal ns"
  by (induction ns arbitrary: p) simp_all

lemma foldl_plain: "foldl normal_step [] (RootDir # map Normal ns) = RootDir # map Normal ns"
  using foldl_down [of "[RootDir]" ns] by simp

lemma absolute_has_root: "is_absolute p \<Longrightarrow> RootDir \<in> set p"
  by (cases p) (auto simp: is_absolute_def split: component.splits)

lemma rel_from_resolves:
  assumes "plain_path base" and "plain_path target"
  shows "lexical_normalize (path_join base (rel_from base target)) = target"
proof -
  obtain bs ts where b: "base = RootDir # map Normal bs" and t: "target = RootDir # map Normal ts"
    using assms by (auto simp: plain_path_def)
  define l where "l = longest_common_prefix (map Normal bs) (map Normal ts)"
  define k where "k = length l"
  obtain xs ys where xs: "map Normal bs = l @ xs" and ys: "map Normal ts = l @ ys"
    unfolding l_def by (metis longest_common_prefix_prefix1 longest_common_prefix_prefix2 prefixE)
  have k: "k \<le> length bs" "k \<le> length ts"
    using arg_cong [OF xs, of length] arg_cong [OF ys, of length] by (simp_all add: k_def)
  have "map Normal (take k bs) = map Normal (take k ts)"
    using arg_cong [OF xs, of "take k"] arg_cong [OF ys, of "take k"] by (simp add: take_map k_def)
  then have same: "take k bs = take k ts" by (simp add: inj_map_eq_map inj_def)
  let ?out = "replicate (length bs - k) ParentDir @ map Normal (drop k ts)"
  have rel: "rel_from base target = (if ?out = [] then [CurDir] else ?out)"
    by (simp add: rel_from_def b t Let_def k_def l_def drop_map)
  have "foldl normal_step [] (base @ ?out) = target"
  proof -
    have "foldl normal_step [] (base @ ?out) =
        foldl normal_step (foldl normal_step (RootDir # map Normal bs) (replicate (length bs - k) ParentDir)) (map Normal (drop k ts))"
      unfolding b foldl_append foldl_plain ..
    also have "\<dots> = (RootDir # map Normal (take k bs)) @ map Normal (drop k ts)"
      using foldl_up [of "length bs - k" bs] k(1) by (simp add: foldl_down)
    also have "\<dots> = target" unfolding t same append_Cons map_append [symmetric] append_take_drop_id ..
    finally show ?thesis .
  qed
  moreover have "path_join base (rel_from base target) = base @ ?out"
  proof -
    have "RootDir \<notin> set ?out" "CurDir \<notin> set ?out" by auto
    then have "\<not> is_absolute ?out" "filter (\<lambda>c. c \<noteq> CurDir) ?out = ?out"
      by (auto simp only: filter_id_conv dest: absolute_has_root)
    then show ?thesis unfolding rel by (auto simp: path_join_def b is_absolute_def)
  qed
  ultimately show ?thesis by (simp add: lexical_normalize_def)
qed

text \<open>A declaration that the code accepts, with the file it leads to.\<close>

definition usable_claim :: "bin_fs \<Rightarrow> path \<Rightarrow> string \<Rightarrow> path \<Rightarrow> path \<Rightarrow> bool" where
  "usable_claim fs pkg_dir name rel resolved \<longleftrightarrow>
     \<not> invalid_bin_name name \<and> resolved = resolve_bin_entry fs pkg_dir rel \<and> is_file fs resolved \<and>
     inside_package fs pkg_dir resolved"

definition link_ok :: "bin_fs \<Rightarrow> path \<Rightarrow> path list \<Rightarrow> string \<Rightarrow> bin_link \<Rightarrow> bool" where
  "link_ok fs node_modules pkg_dirs name link \<longleftrightarrow>
     (\<exists>pkg_dir\<in>set pkg_dirs. \<exists>rel resolved. package_name pkg_dir = Some (link_owner link) \<and>
        usable_claim fs pkg_dir name rel resolved \<and> link_target link = rel_from (bin_parent node_modules) resolved)"

lemma collect_level_ok: "fst (collect_level fs node_modules pkg_dirs) name = Some link \<Longrightarrow> link_ok fs node_modules pkg_dirs name link"
proof -
  define P where "P st \<longleftrightarrow> (\<forall>name link. fst st name = Some link \<longrightarrow> link_ok fs node_modules pkg_dirs name link)"
    for st :: "links \<times> string list"
  have one: "P (add_bin fs node_modules d n e st)" if "d \<in> set pkg_dirs" "package_name d = Some n" "P st" for d n e st
    using that
    by (cases e; cases st) (auto simp: P_def add_bin_def link_ok_def usable_claim_def Let_def split: option.splits if_splits)
  have step: "P (add_package_bins fs node_modules d st)" if "d \<in> set pkg_dirs" "P st" for d st
  proof (cases "package_name d")
    case (Some n)
    have "P (fold (add_bin fs node_modules d n) es st)" for es
      using that(2) one [OF that(1) Some] by (induction es arbitrary: st) simp_all
    with Some that(2) show ?thesis by (simp add: add_package_bins_def split: option.split)
  qed (use that in \<open>simp add: add_package_bins_def\<close>)
  have "P (collect_level fs node_modules pkg_dirs)"
    unfolding collect_level_def
    by (rule fold_invariant [where Q = "\<lambda>d. d \<in> set pkg_dirs"]) (auto simp: step, simp add: P_def)
  then show "fst (collect_level fs node_modules pkg_dirs) name = Some link \<Longrightarrow> link_ok fs node_modules pkg_dirs name link"
    by (simp add: P_def)
qed

lemma valid_bin_name_path: "\<not> invalid_bin_name name \<Longrightarrow> parse_path name = [Normal name]"
proof -
  assume v: "\<not> invalid_bin_name name"
  have "split CHR ''/'' xs = [xs]" if "CHR ''/'' \<notin> set xs" for xs using that by (induction xs) auto
  moreover have "CHR ''/'' \<notin> set name" using v by (auto simp: invalid_bin_name_def list_ex_iff)
  ultimately show ?thesis using v
    by (auto simp: parse_path_def invalid_bin_name_def component_of_def starts_with_def prefix_def Let_def)
qed


definition demo_bin_fs :: bin_fs where
  "demo_bin_fs =
     \<lparr>is_file = (\<lambda>p. p = [RootDir, Normal ''nm'', Normal ''vite'', Normal ''cli.js'']), is_dir = (\<lambda>_. False),
      read_manifest = (\<lambda>_. Some (Object [(''bin'', String ''cli.js'')])), real_path = Some\<rparr>"


text \<open>A package keeps the command it is named after, whichever packages claim it and in whatever order
  they are visited.\<close>

lemma owner_keeps_command:
  assumes "pkg_dir \<in> set pkg_dirs" and "package_name pkg_dir = Some pkg_name" and "read_manifest fs pkg_dir = Some manifest"
    and "(name, rel) \<in> set (bin_entries manifest pkg_name)" and "usable_claim fs pkg_dir name rel resolved"
    and "owns pkg_name name"
  shows "\<exists>link. fst (collect_level fs node_modules pkg_dirs) name = Some link \<and> owns (link_owner link) name"
proof -
  define P where "P st \<longleftrightarrow> (\<exists>link. fst st name = Some link \<and> owns (link_owner link) name)" for st :: "links \<times> string list"
  have keep: "P st \<Longrightarrow> P (add_bin fs node_modules d n e st)" for d n e st
    by (cases e; cases st) (auto simp: P_def add_bin_def Let_def split: option.splits if_splits)
  have claim: "P (add_bin fs node_modules pkg_dir pkg_name (name, rel) st)" for st
    using assms(5,6) by (cases st) (auto simp: P_def add_bin_def usable_claim_def Let_def split: option.splits)
  have keeps: "P st \<Longrightarrow> P (fold (add_bin fs node_modules d n) es st)" for d n es st
    by (induction es arbitrary: st) (simp_all add: keep)
  have keep_pkg: "P st \<Longrightarrow> P (add_package_bins fs node_modules d st)" for d st
    by (simp add: add_package_bins_def keeps split: option.split)
  obtain es es' where es: "bin_entries manifest pkg_name = es @ (name, rel) # es'" using assms(4) by (metis in_set_conv_decomp)
  have claim_pkg: "P (add_package_bins fs node_modules pkg_dir st)" for st
    using assms(2,3) by (simp add: add_package_bins_def es keeps claim)
  obtain ds ds' where ds: "pkg_dirs = ds @ pkg_dir # ds'" using assms(1) by (metis in_set_conv_decomp)
  have "P (fold (add_package_bins fs node_modules) ds' st)" if "P st" for st
    using that by (induction ds' arbitrary: st) (simp_all add: keep_pkg)
  then show ?thesis using claim_pkg by (simp add: collect_level_def ds P_def)
qed

text \<open>The link of a nested package is computed from the wrong directory: it leads to a path outside
  the tree it belongs to, where there is no file.\<close>

lemma nested_link_dangles:
  "lexical_normalize (path_join (bin_parent [RootDir, Normal ''nm'', Normal ''a'', Normal ''node_modules''])
     (nested_target (demo_bin_fs\<lparr>is_file := (\<lambda>p. p = [RootDir, Normal ''nm'', Normal ''a'', Normal ''node_modules'', Normal ''b'', Normal ''cli.js''])\<rparr>)
        [RootDir, Normal ''nm'', Normal ''a'', Normal ''node_modules'']
        \<lparr>link_name = ''b'', link_target = rel_from (bin_parent [RootDir, Normal ''nm''])
           [RootDir, Normal ''nm'', Normal ''a'', Normal ''node_modules'', Normal ''b'', Normal ''cli.js''], link_owner = ''b''\<rparr>)) =
   [RootDir, Normal ''nm'', Normal ''a'', Normal ''a'', Normal ''node_modules'', Normal ''b'', Normal ''cli.js'']"
  by code_simp

text \<open>\<open>lexical_normalize\<close> pops the root: an absolute path with too many \<open>..\<close> becomes a relative one.\<close>

lemma lexical_normalize_loses_root: "lexical_normalize [RootDir, ParentDir, Normal ''etc''] = [Normal ''etc'']"
  by code_simp

text \<open>Following the link that was written gives the file back.\<close>

lemma follow_written_link:
  assumes "plain_path node_modules" and "plain_path resolved" and "is_file fs resolved"
    and "last resolved = Normal n" and "\<not> starts_with n ''.''"
  shows "follow_link fs (bin_parent node_modules) (rel_from (bin_parent node_modules) resolved) = Some resolved"
proof -
  have "plain_path (bin_parent node_modules)"
    using assms(1) by (auto simp: plain_path_def bin_parent_def) (metis list.simps(8,9) map_append)
  then show ?thesis using assms by (simp add: follow_link_def rel_from_resolves)
qed

end
