(* ===== verification/Spec2Isabelle.thy ===== *)
theory Spec2Isabelle
  imports Local_Server Enforcement Sandbox Insecure Caller_Scope Http_Accounting Event_Loop Resolver
    Typosquat Platform Trust Npmrc Attestation_Example Tarball Lockfile Http_Body Cli_Permissions
    Workspace_Run Lamport Supervisor Bin_Links
begin

text \<open>
  A verification of the core of 3va, a JavaScript runtime and package manager whose scripts run
  without any right they were not granted.

  \<^bold>\<open>The program.\<close> \<open>src/crates/permissions\<close> decides what a script may do;
  \<open>src/crates/js\<close> embeds V8 and asks it from every native binding; \<open>src/crates/firewall\<close>
  protects the HTTP server of the runtime; \<open>src/crates/core\<close> has the task queue, the timer wheels
  and the event loop; \<open>src/crates/pm\<close> installs packages. A permission check reads the rules of
  \<open>PermissionState\<close> and the scope cells of the thread, which say which packages have code on the
  stack; the engine keeps those cells up to date (its stack reader, promise hook and guarded
  \<open>bind\<close>). The HTTP server asks the firewall for every connection and every request, after it
  has found the client behind a trusted proxy. The package manager resolves ranges of versions
  into a graph of packages, with the metadata of a registry, compares what it is about to install
  with the lockfile, the trust list and the provenance attestations, and unpacks and links it.
  \<open>src/crates/cli\<close> turns flags and the project's manifest into the rules of a run and supervises
  background processes; \<open>src/crates/crypto\<close> has one-time signatures.

  \<^bold>\<open>Shared theories.\<close> \<open>Rust_Std\<close> (strings, numbers), \<open>Rust_Time\<close> (instants, counters at
  their width), \<open>F64\<close> (rounding), \<open>Ip_Addr\<close> (\<open>std::net::IpAddr\<close>) and \<open>Json\<close>
  (\<open>serde_json::Value\<close>) model what the sources use of the standard library and of documents;
  \<open>Utf8\<close> has byte strings as text; \<open>Step_System\<close> has the locales of state machines, whose clients
  get invariants over any number of steps.

  \<^bold>\<open>Permissions\<close> (\<open>crates/permissions/src\<close>).
  \<^item> \<open>Host_Match\<close>: \<open>authority\<close>, \<open>split_host_port\<close>, \<open>host_matches\<close> of \<open>capability.rs\<close>. A pattern
    covers exactly the destinations that the relation on hosts and ports says; ports are never
    widened; spelling and splitting are inverse.
  \<^item> \<open>Fs_Path\<close>: \<open>absolutize\<close>, \<open>resolve_physically\<close>, \<open>path_covered_by\<close>. A covered target lies
    physically below the rule's directory; an unresolvable \<open>..\<close> is never covered.
  \<^item> \<open>Scope\<close> (\<open>scope.rs\<close>), \<open>Audit_Log\<close> (\<open>audit.rs\<close>), \<open>Permissions\<close> (\<open>PermissionState\<close> with every
    operation: the record \<open>perm_state\<close> has its fields, \<open>world\<close> what an operation reads of its
    surroundings).
  \<^item> \<open>Permission_Policy\<close>: the abstract policy, that \<open>check\<close> refines it, that denial wins, that
    grants are neither borrowed nor forged, that a script cannot widen its rights, and that tally
    and audit trail are exact; \<open>Local_Server\<close>: where a server may listen and which addresses of a
    name may be used.
  \<^item> \<open>Enforcement\<close> (\<open>enforcement.rs\<close>, \<open>preset.rs\<close>): complete mediation through the locale
    \<open>monitor\<close>, and what the presets allow; \<open>Insecure\<close> (\<open>insecure.rs\<close>): plaintext goes to
    loopback only; \<open>Sandbox\<close> (\<open>sandbox.rs\<close>): lexical normalisation and mounts.
  \<^item> \<open>Cli_Permissions\<close> (\<open>crates/cli/src/main.rs\<close>): the \<open>"3va"\<close> permissions of \<open>package.json\<close>, with
    environment variables put in, the flags of the command line and \<open>build_permissions\<close>. A run has
    no right that neither a flag nor the manifest declares, and no package has another's.

  \<^bold>\<open>Engine.\<close> \<open>Caller_Scope\<close> (\<open>crates/js/src/caller_scope.rs\<close>): the package of a script path, the
  packages of a stack, the promise hook and the guarded \<open>bind\<close>. This theory joins it with the
  permission checks: the deny rules of a package follow its promises.

  \<^bold>\<open>Firewall\<close> (\<open>crates/firewall/src/lib.rs\<close>). \<open>Forwarded\<close>: proxy rules and the walk over
  \<open>X-Forwarded-For\<close>. \<open>Firewall\<close>: configuration, buckets, blocklist, strikes, connection counters;
  one definition per method. \<open>Firewall_Limits\<close>: bounds of the buckets under \<open>f64\<close> rounding, the
  number of admitted requests, the closed form of the escalation. \<open>Firewall_Blocks\<close>: an automatic
  block is enforced, a trusted proxy is never blocked by traffic. \<open>Http_Accounting\<close>
  (\<open>crates/js/src/builtins/http_server.rs\<close>): the server as a step relation over its open
  connections, with exact counts per address. \<open>Http_Parser\<close>, \<open>Http_Body\<close> (same file): request heads,
  the choice between \<open>Content-Length\<close> and chunks, the bodies, the body pipe and the heads of responses. A
  request has one framing or is refused, a chunked body is read back as it was sent, the pipe is a
  bounded stream, and a value of a header cannot start a second response.

  \<^bold>\<open>Core\<close> (\<open>crates/core/src\<close>). \<open>Task_Queue\<close>: a stable priority order (locale
  \<open>priority_source\<close>). \<open>Timer_Wheel\<close>: a poll fires what is due. \<open>Event_Loop\<close>: the loop of
  \<open>Runtime::run\<close> and what it does to intervals.

  \<^bold>\<open>Package manager\<close> (\<open>crates/pm/src\<close>). \<open>Semver\<close>, \<open>Semver_Order\<close>: versions, precedence (locale
  \<open>comparison\<close>), ranges. \<open>Resolver\<close>: the best match and the termination of the resolution.
  \<open>Typosquat\<close>: the edit distance and the names it flags. \<open>Platform\<close>: \<open>os\<close>, \<open>cpu\<close> and \<open>libc\<close>
  fields.
  \<^item> \<open>Package_Names\<close>, \<open>Tarball\<close> (\<open>lib.rs\<close>): names, specifications and install paths, removal of a package,
    and the unpacking loop with its limits. A package is installed inside \<open>node_modules\<close>, and
    no archive writes outside the directory it is unpacked into.
  \<^item> \<open>Lockfile\<close> (\<open>lockfile.rs\<close>, \<open>lib.rs\<close>): entries, building, comparing and the strict mode. A written
    lockfile is enforced by the next install; a strict install has exactly the locked packages.
  \<^item> \<open>Trust\<close> (\<open>trust.rs\<close>): which packages may run scripts and with which content; \<open>Npmrc\<close> (\<open>npmrc.rs\<close>):
    registries of scopes, credentials and the flags of lifecycle scripts.
  \<^item> \<open>Merkle\<close>, \<open>Der\<close>, \<open>Certificate\<close>, \<open>Provenance\<close>, \<open>Signer_Policy\<close> (\<open>provenance.rs\<close>): inclusion proofs
    equal to the audit paths of RFC 6962, the DER
    reader, certificate chains to the pinned roots, the envelope, the log entry and the statement,
    and the signer that is recorded on the first install. \<open>Attestation_Example\<close> has a bundle that
    passes every check, and bundles that panic.
  \<^item> \<open>Workspace\<close>, \<open>Workspace_Run\<close> (\<open>workspace.rs\<close>, \<open>workspace_v2.rs\<close>): the graph of a monorepo, its
    topological order, the affected packages and the run of a script in dependency order.
  \<^item> \<open>Bin_Links\<close> (\<open>bins.rs\<close>): which commands are linked into \<open>node_modules/.bin\<close>.

  \<^bold>\<open>Processes and signatures.\<close> \<open>Supervisor\<close> (\<open>crates/cli/src/proc.rs\<close>): the restart loop, its back-off
  and its budget, and the arguments that restart a process. \<open>Lamport\<close> (\<open>crates/crypto/src/lamport.rs\<close>):
  keys, signatures and their encoding; a forgery needs a preimage of a hash.

  \<^bold>\<open>Bounds and loops.\<close> No definition takes fuel of its own: \<open>run_loop\<close> counts down from
  \<open>MAX_ITERS\<close>, the bound in the code; the resolution loop is \<open>while_option\<close>, proved to return; the
  range parser, the readers of the HTTP server, the DER reader, the order of a workspace and its
  run are proved to terminate, the supervisor runs over the list of its events. \<open>u16\<close>, \<open>u32\<close> and
  \<open>u64\<close> are natural numbers whose limits are written out (\<open>parse_uint\<close>, \<open>inc32\<close>, \<open>inc64\<close>,
  \<open>sat_mul64\<close>); addresses are words. An operation that would panic returns \<open>None\<close> or an error of its
  own. \<open>config_ok\<close> says that the fields of a firewall configuration fit their types and that the
  durations are representable.

  \<^bold>\<open>Parameters.\<close> Code outside the repository is an argument: \<open>canonicalize\<close> and the working
  directory (\<open>fs_env\<close>, with the documented result \<open>canonicalizes\<close>), the file system of the package
  manager (\<open>bin_fs\<close>, the manifests and directories of a workspace), the name resolver of
  \<open>vetted_addrs\<close>, the frames and private symbols of V8, the registry (\<open>net\<close>), the clock, the terminal
  and the environment; the hash functions and signature checks, base64 and hexadecimal codecs and the JSON
  parser (the records \<open>crypto\<close> and \<open>anchors\<close> of \<open>Certificate\<close>), the entries of an archive, and the outcome of
  a script or a child process.

  \<^bold>\<open>Not modelled.\<close> Input and output, messages, locks (an operation is one step; sequences of
  operations are steps of a relation), futures of tasks, TLS, HTTP/2 and upgrades of connections, and the parts of
  the repository that are bindings, generated or third-party code: the other Node built-ins, the
  transpiler, the bundler, WebAssembly, the wrapped cryptography. Of the package manager, the
  lockfiles of other tools, the scanners, the store, the fetcher and the lifecycle scripts are
  still to come, in this order, and so are the configuration crate and the remaining commands of
  the command line.
\<close>

section \<open>Deny rules across deferred code\<close>

text \<open>
  The scope cells that a permission check reads are those that the promise hook of the engine
  writes: \<open>Caller_Scope\<close> and \<open>Permissions\<close> meet in the field \<open>w_scope\<close> of the surroundings.
\<close>

lemma scoped_rule_denies:
  assumes "scoped_denied ps p = Some rules" and "d \<in> rules" and "caps_match (w_fs w) d cap"
    and "p \<in> set (deny_scopes (w_scope w))"
  shows "\<not> fst (check w cap ps)"
proof -
  have "deny_applies w ps cap" using assms by (auto simp: deny_applies_def)
  then show ?thesis by (simp add: fst_check check_inner_policy policy_def)
qed


definition fetch_later :: js_scopes where
  "fetch_later = \<lparr>scopes = \<lparr>current_raw = [], stack_resolver = Some [''evil''], inherited_scopes = [],
     rules_active = True\<rparr>, saved = [], tags = Map.empty\<rparr>"

definition no_frames :: "js_scopes \<Rightarrow> js_scopes" where
  "no_frames s = s\<lparr>scopes := (scopes s)\<lparr>stack_resolver := Some []\<rparr>\<rparr>"


end
